(* ===== verification/Rust_Std.thy ===== *)
theory Rust_Std
  imports Main "HOL-Library.Word" "HOL-Library.Sublist" "HOL-Library.Code_Target_Nat"
begin

text \<open>
  What the modelled crates use of the Rust language and its standard library: fixed-width integers
  with saturating subtraction, and \<open>str\<close> as the list of its UTF-8 bytes (so that \<open>len\<close>, slicing
  and byte offsets are those of the code, and a literal is written as an Isabelle string). The
  operations are \<open>strip_prefix\<close>, \<open>strip_suffix\<close>, \<open>split\<close> at a character, \<open>lines\<close>,
  \<open>join\<close>, and \<open>trim\<close> with the Unicode \<open>White_Space\<close> set. The lemmas on them are shared by
  every component; \<open>rust_simps\<close> collects the equations that unfold library calls and
  \<open>rust_intros\<close> the facts that close well-formedness side conditions.
\<close>

named_theorems rust_simps \<open>equations for the library calls of the source\<close>
named_theorems rust_intros \<open>introduction rules for string side conditions\<close>

section \<open>Machine integers\<close>

type_synonym u8 = "8 word"
type_synonym u16 = "16 word"
type_synonym u32 = "32 word"
type_synonym u64 = "64 word"
type_synonym usize = "64 word"

definition saturating_sub :: "'a::len word \<Rightarrow> 'a word \<Rightarrow> 'a word" where
  "saturating_sub a b = (if a < b then 0 else a - b)"

lemma unat_saturating_sub [simp]: "unat (saturating_sub a b) = unat a - unat b"
proof (cases "a < b")
  case True
  then show ?thesis by (simp add: saturating_sub_def word_less_nat_alt)
next
  case False
  then show ?thesis by (simp add: saturating_sub_def unat_sub not_less)
qed

lemma unat_word_of_nat_less: "n < 2 ^ LENGTH('a) \<Longrightarrow> unat (word_of_nat n :: 'a::len word) = n"
  by (simp add: unat_of_nat take_bit_nat_eq_self)

lemma word_add_one_less_no_wrap:
  fixes a b :: "'a::len word"
  assumes "a < b"
  shows "unat (a + 1) = unat a + 1"
proof -
  have "unat b < 2 ^ LENGTH('a)" by (rule unsigned_less)
  with assms have "unat a + 1 < 2 ^ LENGTH('a)" unfolding word_less_nat_alt by linarith
  then show ?thesis by (simp add: unat_word_ariths)
qed

section \<open>Lists\<close>

lemma find_None_iff_all: "List.find P xs = None \<longleftrightarrow> (\<forall>x\<in>set xs. \<not> P x)"
  by (auto simp: find_None_iff)

lemma takeWhile_append_stop:
  "\<forall>x\<in>set xs. P x \<Longrightarrow> ys = [] \<or> \<not> P (hd ys) \<Longrightarrow> takeWhile P (xs @ ys) = xs"
  by (induction xs) (auto simp: takeWhile_eq_Nil_iff)

lemma butlast_snoc_last: "xs \<noteq> [] \<Longrightarrow> butlast xs @ [last xs] = xs"
  by simp

lemma suffix_drop [simp, intro]: "suffix (drop n xs) xs"
  by (metis append_take_drop_id suffixI)

lemma suffix_length_eq: "suffix xs ys \<Longrightarrow> length xs = length ys \<Longrightarrow> xs = ys"
  by (auto simp: suffix_def)

section \<open>Strings\<close>

abbreviation nl :: char where "nl \<equiv> CHR 0x0A"
abbreviation cr :: char where "cr \<equiv> CHR 0x0D"
abbreviation sq :: char where "sq \<equiv> CHR 0x27"
abbreviation dq :: char where "dq \<equiv> CHR 0x22"

text \<open>A text between single quotes, as \<open>format!\<close> writes it in messages.\<close>

abbreviation quoted :: "string \<Rightarrow> string" where
  "quoted s \<equiv> sq # s @ [sq]"

abbreviation starts_with :: "string \<Rightarrow> string \<Rightarrow> bool" where
  "starts_with s p \<equiv> prefix p s"

abbreviation ends_with :: "string \<Rightarrow> string \<Rightarrow> bool" where
  "ends_with s p \<equiv> suffix p s"

definition strip_prefix :: "string \<Rightarrow> string \<Rightarrow> string option" where
  "strip_prefix s p = (if prefix p s then Some (drop (length p) s) else None)"

definition strip_suffix :: "string \<Rightarrow> string \<Rightarrow> string option" where
  "strip_suffix s p = (if suffix p s then Some (take (length s - length p) s) else None)"

definition contains_str :: "string \<Rightarrow> string \<Rightarrow> bool" where
  "contains_str s p = list_ex (\<lambda>i. prefix p (drop i s)) [0 ..< Suc (length s)]"

lemma strip_prefix_append [simp]: "strip_prefix (p @ s) p = Some s"
  by (simp add: strip_prefix_def)

lemma strip_prefix_Some [simp]: "strip_prefix s p = Some t \<longleftrightarrow> s = p @ t"
  by (auto simp: strip_prefix_def prefix_def)

lemma strip_prefix_None: "strip_prefix s p = None \<longleftrightarrow> \<not> prefix p s"
  by (simp add: strip_prefix_def)

fun join :: "string \<Rightarrow> string list \<Rightarrow> string" where
  "join sep [] = []"
| "join sep [x] = x"
| "join sep (x # y # ys) = x @ sep @ join sep (y # ys)"

fun split_on :: "char \<Rightarrow> string \<Rightarrow> string list" where
  "split_on c [] = [[]]"
| "split_on c (x # xs) =
     (if x = c then [] # split_on c xs
      else (case split_on c xs of [] \<Rightarrow> [[x]] | w # ws \<Rightarrow> (x # w) # ws))"

lemma split_on_nonempty [simp]: "split_on c s \<noteq> []"
  by (induction s) (auto split: list.splits)

lemma split_on_no_sep: "w \<in> set (split_on c s) \<Longrightarrow> c \<notin> set w"
  by (induction s arbitrary: w) (auto split: list.splits if_splits)

lemma join_Cons: "ws \<noteq> [] \<Longrightarrow> join sep (w # ws) = w @ sep @ join sep ws"
  by (cases ws) auto

lemma join_split_on [simp]: "join [c] (split_on c s) = s"
proof (induction s)
  case (Cons x xs)
  show ?case
  proof (cases "x = c")
    case True
    with Cons.IH show ?thesis by (simp add: join_Cons)
  next
    case False
    obtain w ws where "split_on c xs = w # ws" by (cases "split_on c xs") auto
    with False Cons.IH show ?thesis by (cases ws) auto
  qed
qed simp

lemma split_on_no_occurrence: "c \<notin> set s \<Longrightarrow> split_on c s = [s]"
  by (induction s) auto

lemma split_on_append_sep: "c \<notin> set w \<Longrightarrow> split_on c (w @ c # s) = w # split_on c s"
  by (induction w) auto

lemma split_on_join:
  assumes "ws \<noteq> []" and "\<forall>w\<in>set ws. c \<notin> set w"
  shows "split_on c (join [c] ws) = ws"
  using assms
proof (induction "[c]" ws rule: join.induct)
  case (2 x)
  then show ?case by (simp add: split_on_no_occurrence)
next
  case (3 x y ys)
  then show ?case by (simp add: split_on_append_sep)
qed simp

text \<open>\<open>str::lines\<close>: a line ends at a newline, an optional carriage return before it is dropped, and
  a final empty piece is no line.\<close>

definition strip_cr :: "string \<Rightarrow> string" where
  "strip_cr l = (if suffix [cr] l then butlast l else l)"

definition str_lines :: "string \<Rightarrow> string list" where
  "str_lines s =
     (let ps = split_on nl s
      in map strip_cr (butlast ps) @ (if last ps = [] then [] else [last ps]))"

definition line_ok :: "string \<Rightarrow> bool" where
  "line_ok l \<longleftrightarrow> nl \<notin> set l \<and> cr \<notin> set l"

lemma strip_cr_line_ok: "line_ok l \<Longrightarrow> strip_cr l = l"
  by (auto simp: strip_cr_def line_ok_def suffix_def)

lemma str_lines_join:
  assumes "ls \<noteq> []" and "\<forall>l\<in>set ls. line_ok l" and "last ls \<noteq> []"
  shows "str_lines (join [nl] ls) = ls"
proof -
  have "split_on nl (join [nl] ls) = ls"
    using assms(1,2) by (intro split_on_join) (auto simp: line_ok_def)
  moreover have "map strip_cr (butlast ls) = butlast ls"
    using assms(2) by (intro map_idI) (auto simp: strip_cr_line_ok dest: in_set_butlastD)
  ultimately show ?thesis
    using assms(1,3) by (simp add: str_lines_def Let_def)
qed

subsection \<open>ASCII classes\<close>

definition ascii :: "char \<Rightarrow> bool" where
  "ascii c \<longleftrightarrow> (of_char c :: nat) < 128"

definition is_ascii_digit :: "char \<Rightarrow> bool" where
  "is_ascii_digit c \<longleftrightarrow> 48 \<le> (of_char c :: nat) \<and> (of_char c :: nat) \<le> 57"

definition is_ascii_upper :: "char \<Rightarrow> bool" where
  "is_ascii_upper c \<longleftrightarrow> 65 \<le> (of_char c :: nat) \<and> (of_char c :: nat) \<le> 90"

definition is_ascii_lower :: "char \<Rightarrow> bool" where
  "is_ascii_lower c \<longleftrightarrow> 97 \<le> (of_char c :: nat) \<and> (of_char c :: nat) \<le> 122"

definition is_ascii_alphabetic :: "char \<Rightarrow> bool" where
  "is_ascii_alphabetic c \<longleftrightarrow> is_ascii_upper c \<or> is_ascii_lower c"

definition is_ascii_alphanumeric :: "char \<Rightarrow> bool" where
  "is_ascii_alphanumeric c \<longleftrightarrow> is_ascii_alphabetic c \<or> is_ascii_digit c"

definition ascii_lower :: "char \<Rightarrow> char" where
  "ascii_lower c = (if is_ascii_upper c then char_of (of_char c + 32 :: nat) else c)"

definition to_ascii_lowercase :: "string \<Rightarrow> string" where
  "to_ascii_lowercase s = map ascii_lower s"

definition eq_ignore_ascii_case :: "string \<Rightarrow> string \<Rightarrow> bool" where
  "eq_ignore_ascii_case s t \<longleftrightarrow> to_ascii_lowercase s = to_ascii_lowercase t"

subsection \<open>White space\<close>

text \<open>The UTF-8 encodings of the characters with the Unicode property \<open>White_Space\<close>, the set
  \<open>char::is_whitespace\<close> and \<open>str::trim\<close> use.\<close>

definition ws_seqs :: "string list" where
  "ws_seqs =
     [[CHR 0x09], [CHR 0x0A], [CHR 0x0B], [CHR 0x0C], [CHR 0x0D], [CHR 0x20],
      [CHR 0xC2, CHR 0x85], [CHR 0xC2, CHR 0xA0], [CHR 0xE1, CHR 0x9A, CHR 0x80],
      [CHR 0xE2, CHR 0x80, CHR 0x80], [CHR 0xE2, CHR 0x80, CHR 0x81],
      [CHR 0xE2, CHR 0x80, CHR 0x82], [CHR 0xE2, CHR 0x80, CHR 0x83],
      [CHR 0xE2, CHR 0x80, CHR 0x84], [CHR 0xE2, CHR 0x80, CHR 0x85],
      [CHR 0xE2, CHR 0x80, CHR 0x86], [CHR 0xE2, CHR 0x80, CHR 0x87],
      [CHR 0xE2, CHR 0x80, CHR 0x88], [CHR 0xE2, CHR 0x80, CHR 0x89],
      [CHR 0xE2, CHR 0x80, CHR 0x8A], [CHR 0xE2, CHR 0x80, CHR 0xA8],
      [CHR 0xE2, CHR 0x80, CHR 0xA9], [CHR 0xE2, CHR 0x80, CHR 0xAF],
      [CHR 0xE2, CHR 0x81, CHR 0x9F], [CHR 0xE3, CHR 0x80, CHR 0x80]]"

function strip_seqs :: "string list \<Rightarrow> string \<Rightarrow> string" where
  "strip_seqs seqs s =
     (case List.find (\<lambda>w. w \<noteq> [] \<and> prefix w s) seqs of
        None \<Rightarrow> s
      | Some w \<Rightarrow> strip_seqs seqs (drop (length w) s))"
  by pat_completeness auto
termination
proof (relation "measure (\<lambda>(seqs, s). length s)")
  fix seqs s w
  assume "List.find (\<lambda>w. w \<noteq> [] \<and> prefix w s) seqs = Some w"
  then have "w \<noteq> []" "prefix w s" by (auto simp: find_Some_iff)
  then show "((seqs, drop (length w) s), seqs, s) \<in> measure (\<lambda>(seqs, s). length s)"
    by (cases w) (auto dest: prefix_length_le)
qed simp

declare strip_seqs.simps [simp del]

definition trim_start :: "string \<Rightarrow> string" where
  "trim_start s = strip_seqs ws_seqs s"

definition trim_end :: "string \<Rightarrow> string" where
  "trim_end s = rev (strip_seqs (map rev ws_seqs) (rev s))"

definition trim :: "string \<Rightarrow> string" where
  "trim s = trim_end (trim_start s)"

lemma strip_seqs_id:
  assumes "\<And>w. w \<in> set seqs \<Longrightarrow> w \<noteq> [] \<Longrightarrow> \<not> prefix w s"
  shows "strip_seqs seqs s = s"
proof -
  have "List.find (\<lambda>w. w \<noteq> [] \<and> prefix w s) seqs = None"
    using assms by (auto simp: find_None_iff_all)
  then show ?thesis by (subst strip_seqs.simps) simp
qed

lemma strip_seqs_clean:
  "w \<in> set seqs \<Longrightarrow> w \<noteq> [] \<Longrightarrow> \<not> prefix w (strip_seqs seqs s)"
proof (induction seqs s rule: strip_seqs.induct)
  case (1 seqs s)
  show ?case
  proof (cases "List.find (\<lambda>w. w \<noteq> [] \<and> prefix w s) seqs")
    case None
    then have "strip_seqs seqs s = s" by (subst strip_seqs.simps) simp
    with None "1.prems" show ?thesis by (auto simp: find_None_iff_all)
  next
    case (Some v)
    with "1.IH" [OF Some] "1.prems" show ?thesis by (subst strip_seqs.simps) simp
  qed
qed

lemma strip_seqs_suffix: "suffix (strip_seqs seqs s) s"
proof (induction seqs s rule: strip_seqs.induct)
  case (1 seqs s)
  show ?case
  proof (cases "List.find (\<lambda>w. w \<noteq> [] \<and> prefix w s) seqs")
    case None
    then show ?thesis by (subst strip_seqs.simps) simp
  next
    case (Some v)
    with "1.IH" [OF Some] show ?thesis
      by (subst strip_seqs.simps) (auto intro: suffix_order.trans)
  qed
qed

lemma strip_seqs_fixed: "strip_seqs seqs s = s \<longleftrightarrow> (\<forall>w\<in>set seqs. w \<noteq> [] \<longrightarrow> \<not> prefix w s)"
  by (metis strip_seqs_clean strip_seqs_id)

lemma strip_seqs_Nil [simp]: "strip_seqs seqs [] = []"
  by (rule strip_seqs_id) simp

lemma trim_Nil [simp]: "trim_start [] = []" "trim_end [] = []" "trim [] = []"
  by (simp_all add: trim_start_def trim_end_def trim_def)

lemma trim_start_idem [simp]: "trim_start (trim_start s) = trim_start s"
  unfolding trim_start_def by (intro strip_seqs_id) (rule strip_seqs_clean)

lemma trim_end_idem [simp]: "trim_end (trim_end s) = trim_end s"
  unfolding trim_end_def by (simp add: strip_seqs_fixed strip_seqs_clean)

lemma trim_end_prefix: "prefix (trim_end s) s"
  using strip_seqs_suffix [of "map rev ws_seqs" "rev s"]
  by (simp add: trim_end_def suffix_to_prefix)

lemma trim_start_suffix: "suffix (trim_start s) s"
  by (simp add: trim_start_def strip_seqs_suffix)

definition ws_leads :: "char set" where
  "ws_leads = {CHR 0x09, CHR 0x0A, CHR 0x0B, CHR 0x0C, CHR 0x0D, CHR 0x20,
     CHR 0xC2, CHR 0xE1, CHR 0xE2, CHR 0xE3}"

lemma ws_seqs_hd: "w \<in> set ws_seqs \<Longrightarrow> w \<noteq> [] \<and> hd w \<in> ws_leads"
  by (auto simp: ws_seqs_def ws_leads_def)

lemma trim_start_id [rust_intros]: "s = [] \<or> hd s \<notin> ws_leads \<Longrightarrow> trim_start s = s"
  unfolding trim_start_def
  by (rule strip_seqs_id) (use ws_seqs_hd in \<open>fastforce simp: prefix_def\<close>)

lemma ws_seqs_shape: "w \<in> set ws_seqs \<Longrightarrow> length w = 1 \<or> (\<forall>c\<in>set w. \<not> ascii c)"
  by (auto simp: ws_seqs_def ascii_def)

lemma trim_end_append:
  assumes "trim_end p = p" and "p \<noteq> []" and "\<forall>c\<in>set m. ascii c"
  shows "trim_end (m @ p) = m @ p"
proof -
  have clean: "\<not> prefix (rev w) (rev p)" if "w \<in> set ws_seqs" for w
    using assms(1) that ws_seqs_hd [OF that]
    by (auto simp: trim_end_def strip_seqs_fixed rev_swap)
  have "\<not> prefix (rev w) (rev p @ rev m)" if w: "w \<in> set ws_seqs" for w
  proof
    assume "prefix (rev w) (rev p @ rev m)"
    with clean [OF w] obtain x where x: "rev w = rev p @ x" "prefix x (rev m)"
      by (auto simp: prefix_append)
    with clean [OF w] have "x \<noteq> []" by auto
    then obtain c xs where c: "x = c # xs" by (cases x) auto
    have "ascii c" using x(2) c assms(3) by (auto simp: prefix_def dest: arg_cong [of _ _ set])
    moreover have "c \<in> set w" using x(1) c by (metis in_set_conv_decomp set_rev)
    moreover have "length w \<ge> 2"
      using arg_cong [OF x(1), of length] assms(2) c by (cases p) auto
    ultimately show False using ws_seqs_shape [OF w] by auto
  qed
  then have "strip_seqs (map rev ws_seqs) (rev p @ rev m) = rev p @ rev m"
    by (intro strip_seqs_id) auto
  then show ?thesis by (simp add: trim_end_def)
qed

lemma strip_seqs_keeps:
  "\<forall>w\<in>set seqs. c \<notin> set w \<Longrightarrow> c \<in> set s \<Longrightarrow> c \<in> set (strip_seqs seqs s)"
proof (induction seqs s rule: strip_seqs.induct)
  case (1 seqs s)
  show ?case
  proof (cases "List.find (\<lambda>w. w \<noteq> [] \<and> prefix w s) seqs")
    case None
    with "1.prems" show ?thesis by (subst strip_seqs.simps) simp
  next
    case (Some v)
    then have "v \<in> set seqs" "prefix v s" by (auto simp: find_Some_iff)
    then have "c \<in> set (drop (length v) s)" using "1.prems" by (auto simp: prefix_def)
    with "1.IH" [OF Some] "1.prems" Some show ?thesis by (subst strip_seqs.simps) simp
  qed
qed

definition ws_bytes :: "char set" where
  "ws_bytes = \<Union> (set ` set ws_seqs)"

lemma trim_keeps: "c \<notin> ws_bytes \<Longrightarrow> c \<in> set s \<Longrightarrow> c \<in> set (trim s)"
  by (auto simp: trim_def trim_start_def trim_end_def ws_bytes_def intro!: strip_seqs_keeps)

lemma trim_end_id [rust_intros]:
  assumes "s = [] \<or> last s \<notin> ws_bytes"
  shows "trim_end s = s"
proof -
  have "\<not> prefix (rev w) (rev s)" if "w \<in> set ws_seqs" for w
  proof
    assume "prefix (rev w) (rev s)"
    then obtain x where "s = x @ w" by (auto simp: prefix_def rev_swap)
    with that ws_seqs_hd [OF that] assms show False by (auto simp: ws_bytes_def)
  qed
  then have "strip_seqs (map rev ws_seqs) (rev s) = rev s" by (intro strip_seqs_id) auto
  then show ?thesis by (simp add: trim_end_def)
qed

text \<open>\<open>Display\<close> of unsigned integers.\<close>

fun show_nat :: "nat \<Rightarrow> string" where
  "show_nat n = (if n < 10 then [] else show_nat (n div 10)) @ [char_of (48 + n mod 10)]"

declare show_nat.simps [simp del]

end
