(* ===== verification/Sliding_Window.thy ===== *)
theory Sliding_Window
  imports Complex_Main Rust_Std
begin

text \<open>
  The bounded sample window of \<open>xai-circuit-breaker/src/window.rs\<close>: a queue of
  \<open>(timestamp, is_failure)\<close> samples with a failure counter that is kept incrementally. The
  locale \<open>sample_window\<close> states what the breaker relies on (what a push and an eviction do to
  the sample list, and that the counter is exact); its interpretation on the model of
  \<open>SlidingWindow\<close> discharges those laws. Instants are counted in nanoseconds from the earliest
  instant the platform can represent, so \<open>Instant::checked_sub\<close> fails exactly when the subtraction
  would go below zero.
\<close>

type_synonym instant = nat
type_synonym duration = nat
type_synonym sample = "instant \<times> bool"

abbreviation millis :: "nat \<Rightarrow> duration" where "millis n \<equiv> n * 1000000"
abbreviation secs :: "nat \<Rightarrow> duration" where "secs n \<equiv> n * 1000000000"

definition checked_sub :: "instant \<Rightarrow> duration \<Rightarrow> instant option" where
  "checked_sub t d = (if d \<le> t then Some (t - d) else None)"

section \<open>The floating-point failure rate\<close>

text \<open>An \<open>f64\<close> is a finite value, an infinity or a NaN; \<open>f64_ge\<close> is the comparison \<open>>=\<close>.
  \<open>f64_quot f n\<close> is the quotient of two counts with \<open>f \<le> n\<close>, rounded to the nearest of
  the 53-bit significands, ties to even: \<open>norm_exp\<close> scales the quotient into the binade
  \<open>[1,2)\<close>. A count below \<open>2^53\<close> converts to \<open>f64\<close> exactly, and a divisor below
  \<open>2^64\<close> needs at most 64 doublings.\<close>

datatype f64 = Fin rat | PosInf | NegInf | NaN

fun f64_ge :: "f64 \<Rightarrow> f64 \<Rightarrow> bool" where
  "f64_ge (Fin a) (Fin b) = (b \<le> a)"
| "f64_ge NaN _ = False"
| "f64_ge _ NaN = False"
| "f64_ge PosInf _ = True"
| "f64_ge _ NegInf = True"
| "f64_ge _ _ = False"

definition half_even :: "nat \<Rightarrow> nat \<Rightarrow> nat" where
  "half_even p q =
     (let d = p div q; r = p mod q
      in if 2 * r < q \<or> (2 * r = q \<and> even d) then d else d + 1)"

fun norm_exp :: "nat \<Rightarrow> nat \<Rightarrow> nat \<Rightarrow> nat" where
  "norm_exp 0 f n = 0"
| "norm_exp (Suc k) f n = (if n \<le> f then 0 else Suc (norm_exp k (2 * f) n))"

definition f64_quot :: "nat \<Rightarrow> nat \<Rightarrow> rat" where
  "f64_quot f n =
     (if f = 0 then 0
      else let e = norm_exp 64 f n + 52 in of_nat (half_even (f * 2 ^ e) n) / 2 ^ e)"

lemma half_even_exact: "0 < q \<Longrightarrow> half_even (p * q) q = p"
  by (simp add: half_even_def)

lemma half_even_le: "0 < q \<Longrightarrow> p \<le> m * q \<Longrightarrow> half_even p q \<le> m"
proof (cases "p = m * q")
  case False
  assume "0 < q" "p \<le> m * q"
  with False have "p div q < m" by (simp add: div_less_iff_less_mult)
  then show ?thesis by (simp add: half_even_def Let_def)
qed (simp add: half_even_exact)

lemma f64_quot_zero [simp]: "f64_quot 0 n = 0"
  by (simp add: f64_quot_def)

lemma f64_quot_self: "0 < n \<Longrightarrow> f64_quot n n = 1"
proof -
  assume n: "0 < n"
  have e: "norm_exp 64 n n = 0" by (simp add: numeral_eq_Suc)
  have "half_even (n * 2 ^ 52) n = 2 ^ 52"
    using half_even_exact [OF n, of "2 ^ 52"] by (simp add: mult.commute)
  with n e show ?thesis by (simp add: f64_quot_def Let_def)
qed

lemma f64_quot_le_one: "f \<le> n \<Longrightarrow> f64_quot f n \<le> 1"
proof (cases "f = 0")
  case False
  assume fn: "f \<le> n"
  define e where "e = norm_exp 64 f n + 52"
  have "half_even (f * 2 ^ e) n \<le> 2 ^ e"
    using fn False by (intro half_even_le) auto
  then have "(of_nat (half_even (f * 2 ^ e) n) :: rat) \<le> 2 ^ e"
    by (metis of_nat_le_iff of_nat_numeral of_nat_power)
  then show ?thesis using False by (simp add: f64_quot_def e_def [symmetric] Let_def)
qed simp

section \<open>SlidingWindow\<close>

record sliding_window =
  entries :: "sample list"
  failures :: usize

definition MAX_WINDOW_ENTRIES :: nat where
  "MAX_WINDOW_ENTRIES = 10000"

definition window_new :: sliding_window where
  "window_new = \<lparr>entries = [], failures = 0\<rparr>"

definition window_push :: "sliding_window \<Rightarrow> bool \<Rightarrow> instant \<Rightarrow> sliding_window" where
  "window_push w is_failure t =
     (let w1 = (if length (entries w) \<ge> MAX_WINDOW_ENTRIES
                then (case entries w of
                        [] \<Rightarrow> w
                      | e # es \<Rightarrow>
                          (if snd e then w\<lparr>entries := es, failures := failures w - 1\<rparr>
                           else w\<lparr>entries := es\<rparr>))
                else w);
          w2 = w1\<lparr>entries := entries w1 @ [(t, is_failure)]\<rparr>
      in if is_failure then w2\<lparr>failures := failures w2 + 1\<rparr> else w2)"

fun evict_loop :: "instant \<Rightarrow> sample list \<Rightarrow> usize \<Rightarrow> sample list \<times> usize" where
  "evict_loop cutoff [] f = ([], f)"
| "evict_loop cutoff ((ts, was_failure) # es) f =
     (if ts < cutoff then evict_loop cutoff es (if was_failure then f - 1 else f)
      else ((ts, was_failure) # es, f))"

definition window_evict :: "sliding_window \<Rightarrow> duration \<Rightarrow> instant \<Rightarrow> sliding_window" where
  "window_evict w d now =
     (case checked_sub now d of
        None \<Rightarrow> w
      | Some cutoff \<Rightarrow>
          (let (es, f) = evict_loop cutoff (entries w) (failures w)
           in w\<lparr>entries := es, failures := f\<rparr>))"

definition window_error_rate :: "sliding_window \<Rightarrow> f64" where
  "window_error_rate w =
     (if entries w = [] then Fin 0 else Fin (f64_quot (unat (failures w)) (length (entries w))))"

definition window_sample_count :: "sliding_window \<Rightarrow> usize" where
  "window_sample_count w = word_of_nat (length (entries w))"

definition window_clear :: "sliding_window \<Rightarrow> sliding_window" where
  "window_clear w = w\<lparr>entries := [], failures := 0\<rparr>"

section \<open>The contract of a sample window\<close>

definition count_failures :: "sample list \<Rightarrow> nat" where
  "count_failures xs = length (filter snd xs)"

lemma count_failures_simps [simp]:
  "count_failures [] = 0"
  "count_failures ((t, f) # xs) = (if f then 1 else 0) + count_failures xs"
  "count_failures (xs @ ys) = count_failures xs + count_failures ys"
  by (simp_all add: count_failures_def)

lemma count_failures_le: "count_failures xs \<le> length xs"
  by (simp add: count_failures_def)

definition push_samples :: "nat \<Rightarrow> sample list \<Rightarrow> sample \<Rightarrow> sample list" where
  "push_samples cap xs x = (if length xs \<ge> cap then tl xs else xs) @ [x]"

definition evict_samples :: "duration \<Rightarrow> instant \<Rightarrow> sample list \<Rightarrow> sample list" where
  "evict_samples d now xs = (if d \<le> now then dropWhile (\<lambda>s. fst s < now - d) xs else xs)"

locale sample_window =
  fixes new_w :: 'w
    and push_w :: "'w \<Rightarrow> bool \<Rightarrow> instant \<Rightarrow> 'w"
    and evict_w :: "'w \<Rightarrow> duration \<Rightarrow> instant \<Rightarrow> 'w"
    and clear_w :: "'w \<Rightarrow> 'w"
    and samples :: "'w \<Rightarrow> sample list"
    and fails :: "'w \<Rightarrow> nat"
    and invar :: "'w \<Rightarrow> bool"
    and cap :: nat
  assumes cap_pos: "0 < cap"
    and invar_new: "invar new_w"
    and samples_new: "samples new_w = []"
    and invar_push: "invar w \<Longrightarrow> invar (push_w w f t)"
    and samples_push: "invar w \<Longrightarrow> samples (push_w w f t) = push_samples cap (samples w) (t, f)"
    and invar_evict: "invar w \<Longrightarrow> invar (evict_w w d now)"
    and samples_evict: "invar w \<Longrightarrow> samples (evict_w w d now) = evict_samples d now (samples w)"
    and invar_clear: "invar w \<Longrightarrow> invar (clear_w w)"
    and samples_clear: "invar w \<Longrightarrow> samples (clear_w w) = []"
    and fails_exact: "invar w \<Longrightarrow> fails w = count_failures (samples w)"
begin

lemmas window_laws = invar_push samples_push invar_evict samples_evict fails_exact

lemma length_push_le:
  "length xs \<le> cap \<Longrightarrow> length (push_samples cap xs x) \<le> cap"
  using cap_pos by (auto simp: push_samples_def)

lemma length_evict_le: "length (evict_samples d now xs) \<le> length xs"
  by (simp add: evict_samples_def length_dropWhile_le)

text \<open>The step the breaker takes per outcome: push, then evict.\<close>

definition observe :: "duration \<Rightarrow> 'w \<Rightarrow> sample \<Rightarrow> 'w" where
  "observe d w s = evict_w (push_w w (snd s) (fst s)) d (fst s)"

lemma invar_observe: "invar w \<Longrightarrow> invar (observe d w s)"
  by (simp add: observe_def window_laws)

lemma samples_observe:
  "invar w \<Longrightarrow> samples (observe d w s) = evict_samples d (fst s) (push_samples cap (samples w) s)"
  by (simp add: observe_def window_laws)

lemma observe_all:
  assumes "invar w"
  shows "invar (foldl (observe d) w ss)"
    and "samples (foldl (observe d) w ss)
         = foldl (\<lambda>xs s. evict_samples d (fst s) (push_samples cap xs s)) (samples w) ss"
    and "fails (foldl (observe d) w ss) = count_failures (samples (foldl (observe d) w ss))"
proof -
  show "invar (foldl (observe d) w ss)"
    using assms by (induction ss arbitrary: w) (auto simp: invar_observe)
  then show "fails (foldl (observe d) w ss) = count_failures (samples (foldl (observe d) w ss))"
    by (rule fails_exact)
  show "samples (foldl (observe d) w ss)
        = foldl (\<lambda>xs s. evict_samples d (fst s) (push_samples cap xs s)) (samples w) ss"
    using assms by (induction ss arbitrary: w) (auto simp: invar_observe samples_observe)
qed

lemma observe_bounded:
  assumes "invar w" "length (samples w) \<le> cap"
  shows "length (samples (foldl (observe d) w ss)) \<le> cap"
  using assms
proof (induction ss arbitrary: w)
  case (Cons s ss)
  have "length (samples (observe d w s)) \<le> cap"
    using Cons.prems length_push_le [of "samples w" s] length_evict_le
    by (simp add: samples_observe) (meson order_trans)
  then show ?case using Cons.IH [OF invar_observe [OF Cons.prems(1)]] by simp
qed simp

end

section \<open>SlidingWindow implements the contract\<close>

definition window_inv :: "sliding_window \<Rightarrow> bool" where
  "window_inv w \<longleftrightarrow>
     length (entries w) \<le> MAX_WINDOW_ENTRIES \<and> unat (failures w) = count_failures (entries w)"

lemma unat_pred: "0 < unat (f :: usize) \<Longrightarrow> unat (f - 1) = unat f - 1"
  by (metis One_nat_def Suc_leI unat_1 unat_sub word_le_nat_alt)

lemma unat_succ: "unat (f :: usize) < 20000 \<Longrightarrow> unat (f + 1) = unat f + 1"
  by (simp add: unat_word_ariths)

lemma evict_loop_spec:
  "unat f = count_failures xs \<Longrightarrow> evict_loop c xs f = (ys, g) \<Longrightarrow>
   ys = dropWhile (\<lambda>s. fst s < c) xs \<and> unat g = count_failures ys"
proof (induction c xs f arbitrary: ys g rule: evict_loop.induct)
  case (2 c ts wf es f)
  show ?case
  proof (cases "ts < c")
    case True
    have "unat (if wf then f - 1 else f) = count_failures es"
      using "2.prems"(1) by (simp add: unat_pred)
    with True "2.IH" [OF True] "2.prems"(2) show ?thesis by simp
  qed (use "2.prems" in auto)
qed simp

lemma entries_push:
  "entries (window_push w f t) = push_samples MAX_WINDOW_ENTRIES (entries w) (t, f)"
  by (auto simp: window_push_def push_samples_def Let_def split: list.splits)

lemma entries_evict: "window_inv w \<Longrightarrow> entries (window_evict w d now) = evict_samples d now (entries w)"
  by (auto simp: window_evict_def checked_sub_def evict_samples_def window_inv_def
      split: prod.splits dest: evict_loop_spec)

lemma window_inv_new: "window_inv window_new"
  by (simp add: window_inv_def window_new_def)

lemma window_inv_push: "window_inv w \<Longrightarrow> window_inv (window_push w f t)"
proof -
  assume inv: "window_inv w"
  then have bound: "count_failures (entries w) \<le> 10000"
    using count_failures_le [of "entries w"] by (simp add: window_inv_def MAX_WINDOW_ENTRIES_def)
  have len: "length (entries (window_push w f t)) \<le> MAX_WINDOW_ENTRIES"
    using inv by (auto simp: entries_push push_samples_def window_inv_def MAX_WINDOW_ENTRIES_def)
  have "unat (failures (window_push w f t)) = count_failures (entries (window_push w f t))"
  proof (cases "entries w")
    case Nil
    with inv show ?thesis
      by (simp add: window_push_def Let_def window_inv_def MAX_WINDOW_ENTRIES_def unat_succ)
  next
    case (Cons e es)
    obtain ts wf where e: "e = (ts, wf)" by (cases e)
    from Cons e inv bound show ?thesis
      by (simp add: window_push_def Let_def window_inv_def unat_succ unat_pred)
  qed
  with len show ?thesis by (simp add: window_inv_def)
qed

lemma window_inv_evict: "window_inv w \<Longrightarrow> window_inv (window_evict w d now)"
proof (cases "checked_sub now d")
  case (Some c)
  assume inv: "window_inv w"
  obtain ys g where e: "evict_loop c (entries w) (failures w) = (ys, g)" by fastforce
  with inv have "ys = dropWhile (\<lambda>s. fst s < c) (entries w)" "unat g = count_failures ys"
    by (auto simp: window_inv_def dest: evict_loop_spec)
  with inv Some e show ?thesis
    by (auto simp: window_inv_def window_evict_def intro: order_trans [OF length_dropWhile_le])
qed (simp add: window_evict_def)

lemma window_inv_clear: "window_inv (window_clear w)"
  by (simp add: window_inv_def window_clear_def)

interpretation sw: sample_window window_new window_push window_evict window_clear
  entries "\<lambda>w. unat (failures w)" window_inv MAX_WINDOW_ENTRIES
proof unfold_locales
  show "0 < MAX_WINDOW_ENTRIES" by (simp add: MAX_WINDOW_ENTRIES_def)
qed (simp_all add: window_inv_new window_inv_push window_inv_evict window_inv_clear entries_push
    entries_evict, simp_all add: window_new_def window_clear_def window_inv_def)

text \<open>The samples a list of outcomes leaves in a window, with no counter and no cap check: what is
  younger than the window among the newest 10000.\<close>

lemma window_rate_exact:
  "window_inv w \<Longrightarrow>
   window_error_rate w =
     (if entries w = [] then Fin 0
      else Fin (f64_quot (count_failures (entries w)) (length (entries w))))"
  by (simp add: window_error_rate_def window_inv_def)

lemma window_count_exact:
  "window_inv w \<Longrightarrow> unat (window_sample_count w) = length (entries w)"
  unfolding window_sample_count_def
  by (rule unat_word_of_nat_less) (simp add: window_inv_def MAX_WINDOW_ENTRIES_def)

end
