(* ===== verification/Circuit_Breaker.thy ===== *)
theory Circuit_Breaker
  imports Sliding_Window
begin

text \<open>
  The circuit breaker of \<open>crates/common/xai-circuit-breaker\<close>: its configuration
  (\<open>config.rs\<close>), the three-state machine (\<open>breaker.rs\<close>, \<open>state.rs\<close>), the per-key registry
  (\<open>registry.rs\<close>) and the status classifiers (\<open>retry_policy.rs\<close>, \<open>grpc.rs\<close>). Here each
  public operation is one function on the shared state, run with one reading of the clock; the theory
  \<open>Breaker_Atomic\<close> splits the same operations into their atomic accesses. Observer callbacks are
  appended to \<open>obs_log\<close>.
\<close>

section \<open>BreakerConfig\<close>

record breaker_config =
  window_duration :: duration
  min_samples :: usize
  error_rate_threshold :: f64
  open_duration :: duration
  half_open_max_probes :: usize
  failure_codes :: "u16 set"
  enabled :: bool

definition default_failure_codes :: "u16 set" where
  "default_failure_codes = {429, 500, 502, 503, 504}"

definition server_config :: breaker_config where
  "server_config = \<lparr>window_duration = secs 60, min_samples = 10,
     error_rate_threshold = Fin (1 / 2), open_duration = secs 10, half_open_max_probes = 1,
     failure_codes = default_failure_codes, enabled = True\<rparr>"

definition client_config :: breaker_config where
  "client_config = \<lparr>window_duration = secs 60, min_samples = 5,
     error_rate_threshold = Fin (1 / 2), open_duration = secs 60, half_open_max_probes = 1,
     failure_codes = {401}, enabled = True\<rparr>"

text \<open>\<open>FromStr\<close> of the unsigned integers and of \<open>bool\<close>; that of \<open>f64\<close> is an argument of the
  loader.\<close>

definition digit_val :: "char \<Rightarrow> nat" where
  "digit_val c = of_char c - 48"

definition parse_uint :: "nat \<Rightarrow> string \<Rightarrow> nat option" where
  "parse_uint bits s =
     (let ds = (if starts_with s ''+'' then tl s else s);
          n = foldl (\<lambda>acc c. 10 * acc + digit_val c) 0 ds
      in if ds = [] \<or> \<not> list_all is_ascii_digit ds \<or> n \<ge> 2 ^ bits then None else Some n)"

definition parse_bool :: "string \<Rightarrow> bool option" where
  "parse_bool s = (if s = ''true'' then Some True else if s = ''false'' then Some False else None)"

definition lookup_or ::
  "(string \<Rightarrow> string option) \<Rightarrow> string \<Rightarrow> (string \<Rightarrow> 'a option) \<Rightarrow> 'a \<Rightarrow> 'a" where
  "lookup_or get key parse dflt =
     (case get key of
        Some v \<Rightarrow> (case parse v of Some parsed \<Rightarrow> parsed | None \<Rightarrow> dflt)
      | None \<Rightarrow> dflt)"

definition parse_failure_codes :: "string \<Rightarrow> u16 set" where
  "parse_failure_codes s =
     set (List.map_filter (\<lambda>c. map_option word_of_nat (parse_uint 16 (trim c)))
            (split_on (CHR '','') s))"

definition from_lookup_with_prefix ::
  "(string \<Rightarrow> f64 option) \<Rightarrow> string \<Rightarrow> (string \<Rightarrow> string option) \<Rightarrow> breaker_config" where
  "from_lookup_with_prefix parse_f64 pre get =
     (let key = (\<lambda>k. pre @ k);
          codes = (case get (key ''FAILURE_CODES'') of
                     Some raw \<Rightarrow>
                       (let cs = parse_failure_codes raw
                        in if cs = {} then default_failure_codes else cs)
                   | None \<Rightarrow> default_failure_codes);
          word = (\<lambda>k d. lookup_or get (key k) (\<lambda>v. map_option word_of_nat (parse_uint 64 v)) d)
      in \<lparr>window_duration = secs (lookup_or get (key ''WINDOW_SECS'') (parse_uint 64) 60),
          min_samples = word ''MIN_SAMPLES'' 10,
          error_rate_threshold =
            lookup_or get (key ''ERROR_RATE_THRESHOLD'') parse_f64 (Fin (1 / 2)),
          open_duration = secs (lookup_or get (key ''OPEN_DURATION_SECS'') (parse_uint 64) 10),
          half_open_max_probes = max (word ''HALF_OPEN_MAX_PROBES'' 1) 1,
          failure_codes = codes,
          enabled = lookup_or get (key ''ENABLED'') parse_bool True\<rparr>)"

definition is_failure_status :: "breaker_config \<Rightarrow> u16 \<Rightarrow> bool" where
  "is_failure_status c status \<longleftrightarrow> status \<in> failure_codes c"

section \<open>States, outcomes and the shared record\<close>

datatype breaker_state = Closed | Open | HalfOpen

datatype outcome = Success | Failure

record breaker_open =
  retry_after :: duration

fun to_u8 :: "breaker_state \<Rightarrow> u8" where
  "to_u8 Closed = 0"
| "to_u8 Open = 1"
| "to_u8 HalfOpen = 2"

definition from_u8 :: "u8 \<Rightarrow> breaker_state" where
  "from_u8 v = (if v = 0 then Closed else if v = 1 then Open else if v = 2 then HalfOpen else Closed)"

lemma from_to_u8 [simp]: "from_u8 (to_u8 s) = s"
  by (cases s) (simp_all add: from_u8_def)

lemma to_u8_inject [simp]: "to_u8 s = to_u8 t \<longleftrightarrow> s = t"
  by (metis from_to_u8)

datatype obs_event =
    OnStateChange breaker_state breaker_state string
  | OnOutcome outcome breaker_state
  | OnProbeAdmission bool

record breaker =
  bconfig :: breaker_config
  bstate :: u8
  baseline :: instant
  opened_at_millis :: u64
  half_open_probes :: usize
  probe_claimed_at_millis :: u64
  is_open_fast :: bool
  window :: sliding_window
  obs_log :: "obs_event list"

type_synonym check_result = "breaker_open + unit"

definition notify :: "obs_event \<Rightarrow> breaker \<Rightarrow> breaker" where
  "notify e b = b\<lparr>obs_log := obs_log b @ [e]\<rparr>"

definition with_clock :: "breaker_config \<Rightarrow> instant \<Rightarrow> breaker" where
  "with_clock cfg now =
     \<lparr>bconfig = cfg\<lparr>half_open_max_probes := max (half_open_max_probes cfg) 1\<rparr>,
      bstate = to_u8 Closed, baseline = now, opened_at_millis = 0, half_open_probes = 0,
      probe_claimed_at_millis = 0, is_open_fast = False, window = window_new, obs_log = []\<rparr>"

definition state_of :: "breaker \<Rightarrow> breaker_state" where
  "state_of b = from_u8 (bstate b)"

definition is_open :: "breaker \<Rightarrow> bool" where
  "is_open b = is_open_fast b"

definition elapsed_millis :: "breaker \<Rightarrow> instant \<Rightarrow> u64" where
  "elapsed_millis b now = word_of_nat ((now - baseline b) div 1000000)"

definition cas_state :: "breaker_state \<Rightarrow> breaker_state \<Rightarrow> breaker \<Rightarrow> bool \<times> breaker" where
  "cas_state from to b =
     (if bstate b = to_u8 from then (True, b\<lparr>bstate := to_u8 to\<rparr>) else (False, b))"

section \<open>Transitions\<close>

definition trip :: "breaker_state \<Rightarrow> string \<Rightarrow> instant \<Rightarrow> breaker \<Rightarrow> breaker" where
  "trip prev reason now b =
     (let b1 = b\<lparr>bstate := to_u8 Open\<rparr>;
          b2 = b1\<lparr>opened_at_millis := elapsed_millis b1 now\<rparr>;
          b3 = b2\<lparr>half_open_probes := 0\<rparr>;
          b4 = b3\<lparr>is_open_fast := True\<rparr>
      in if prev \<noteq> Open then notify (OnStateChange prev Open reason) b4 else b4)"

definition close :: "breaker_state \<Rightarrow> string \<Rightarrow> breaker \<Rightarrow> breaker" where
  "close prev reason b =
     (let b1 = b\<lparr>bstate := to_u8 Closed\<rparr>;
          b2 = b1\<lparr>window := window_clear (window b1)\<rparr>;
          b3 = b2\<lparr>half_open_probes := 0\<rparr>;
          b4 = b3\<lparr>is_open_fast := False\<rparr>
      in if prev \<noteq> Closed then notify (OnStateChange prev Closed reason) b4 else b4)"

definition lease_millis :: "breaker \<Rightarrow> u64" where
  "lease_millis b = word_of_nat (open_duration (bconfig b) div 1000000)"

definition HALF_OPEN_PROBE_BACKOFF :: duration where
  "HALF_OPEN_PROBE_BACKOFF = millis 50"

definition try_half_open_probe :: "instant \<Rightarrow> breaker \<Rightarrow> breaker \<times> check_result" where
  "try_half_open_probe t b =
     (let now = elapsed_millis b t;
          prev = half_open_probes b;
          b1 = b\<lparr>half_open_probes := prev + 1\<rparr>
      in if prev < half_open_max_probes (bconfig b)
         then (notify (OnProbeAdmission True) (b1\<lparr>probe_claimed_at_millis := now\<rparr>), Inr ())
         else
           (let b2 = b1\<lparr>half_open_probes := half_open_probes b1 - 1\<rparr>;
                claimed = probe_claimed_at_millis b2
            in if lease_millis b2 \<le> saturating_sub now claimed
               then (notify (OnProbeAdmission True) (b2\<lparr>probe_claimed_at_millis := now\<rparr>), Inr ())
               else (notify (OnProbeAdmission False) b2,
                     Inl \<lparr>retry_after =
                       min HALF_OPEN_PROBE_BACKOFF (open_duration (bconfig b2))\<rparr>)))"

definition open_elapsed :: "breaker \<Rightarrow> instant \<Rightarrow> duration" where
  "open_elapsed b t = millis (unat (saturating_sub (elapsed_millis b t) (opened_at_millis b)))"

definition still_open :: "breaker \<Rightarrow> instant \<Rightarrow> check_result" where
  "still_open b t = Inl \<lparr>retry_after = open_duration (bconfig b) - open_elapsed b t\<rparr>"

definition check_open :: "instant \<Rightarrow> breaker \<Rightarrow> breaker \<times> check_result" where
  "check_open t b =
     (if open_duration (bconfig b) \<le> open_elapsed b t
      then (case cas_state Open HalfOpen b of
              (True, b1) \<Rightarrow>
                try_half_open_probe t
                  (notify (OnStateChange Open HalfOpen ''open_elapsed'')
                     (b1\<lparr>is_open_fast := False\<rparr>))
            | (False, b1) \<Rightarrow>
                (case state_of b1 of
                   Closed \<Rightarrow> (b1, Inr ())
                 | HalfOpen \<Rightarrow> try_half_open_probe t b1
                 | Open \<Rightarrow> (b1, still_open b1 t)))
      else (b, still_open b t))"

definition check :: "instant \<Rightarrow> breaker \<Rightarrow> breaker \<times> check_result" where
  "check t b =
     (if \<not> enabled (bconfig b) then (b, Inr ())
      else (case state_of b of
              Closed \<Rightarrow> (b, Inr ())
            | Open \<Rightarrow> check_open t b
            | HalfOpen \<Rightarrow> try_half_open_probe t b))"

definition observe_sample :: "bool \<Rightarrow> instant \<Rightarrow> breaker \<Rightarrow> breaker" where
  "observe_sample is_failure now b =
     b\<lparr>window := window_evict (window_push (window b) is_failure now)
                   (window_duration (bconfig b)) now\<rparr>"

definition should_trip :: "breaker \<Rightarrow> bool" where
  "should_trip b \<longleftrightarrow>
     min_samples (bconfig b) \<le> window_sample_count (window b) \<and>
     f64_ge (window_error_rate (window b)) (error_rate_threshold (bconfig b))"

definition record_outcome :: "outcome \<Rightarrow> instant \<Rightarrow> breaker \<Rightarrow> breaker" where
  "record_outcome oc now b =
     (if \<not> enabled (bconfig b) then b
      else
        (let is_failure = (oc = Failure);
             prev_state = state_of b;
             b1 = (case prev_state of
                     Closed \<Rightarrow>
                       (let b' = observe_sample is_failure now b
                        in if should_trip b' then trip prev_state ''trip'' now b' else b')
                   | HalfOpen \<Rightarrow>
                       (if is_failure then trip prev_state ''probe_failure'' now b
                        else close prev_state ''probe_success'' b)
                   | Open \<Rightarrow> observe_sample is_failure now b)
         in notify (OnOutcome oc (state_of b1)) b1))"

definition error_rate :: "instant \<Rightarrow> breaker \<Rightarrow> breaker \<times> f64" where
  "error_rate now b =
     (let w = window_evict (window b) (window_duration (bconfig b)) now
      in (b\<lparr>window := w\<rparr>, window_error_rate w))"

section \<open>The registry\<close>

text \<open>\<open>Arc\<close> handles are indices into the list of breakers the registry has created.\<close>

record registry =
  rconfig :: breaker_config
  breakers :: "string \<Rightarrow> nat option"
  heap :: "breaker list"

definition registry_new :: "breaker_config \<Rightarrow> registry" where
  "registry_new cfg = \<lparr>rconfig = cfg, breakers = Map.empty, heap = []\<rparr>"

definition registry_get :: "string \<Rightarrow> instant \<Rightarrow> registry \<Rightarrow> registry \<times> nat option" where
  "registry_get key now r =
     (if \<not> enabled (rconfig r) then (r, None)
      else (case breakers r key of
              Some cb \<Rightarrow> (r, Some cb)
            | None \<Rightarrow>
                (let cb = length (heap r)
                 in (r\<lparr>breakers := (breakers r)(key \<mapsto> cb),
                       heap := heap r @ [with_clock (rconfig r) now]\<rparr>, Some cb))))"

section \<open>Status classification\<close>

datatype disposition = Retryable | AuthRefresh | Terminal

record retry_policy =
  retryable :: "u16 list"
  auth_refresh :: "u16 list"
  terminal :: "u16 list"
  default_disposition :: disposition

definition classify :: "retry_policy \<Rightarrow> u16 \<Rightarrow> disposition option" where
  "classify p status =
     (if 200 \<le> status \<and> status < 300 then None
      else if status \<in> set (auth_refresh p) then Some AuthRefresh
      else if status \<in> set (terminal p) then Some Terminal
      else if status \<in> set (retryable p) \<or> (500 \<le> status \<and> status < 600) then Some Retryable
      else Some (default_disposition p))"

definition should_retry :: "retry_policy \<Rightarrow> u16 \<Rightarrow> bool" where
  "should_retry p status \<longleftrightarrow> classify p status = Some Retryable"

definition server_policy :: retry_policy where
  "server_policy = \<lparr>retryable = [429], auth_refresh = [], terminal = [],
     default_disposition = Terminal\<rparr>"

definition edge_client_policy :: retry_policy where
  "edge_client_policy = \<lparr>retryable = [429], auth_refresh = [], terminal = [525, 526],
     default_disposition = Terminal\<rparr>"

definition client_storage_policy :: retry_policy where
  "client_storage_policy = \<lparr>retryable = [], auth_refresh = [401],
     terminal = [400, 403, 404, 525, 526], default_disposition = Retryable\<rparr>"

text \<open>The gRPC status codes, in the order of their numbers.\<close>

datatype grpc_code =
    GOk | GCancelled | GUnknown | GInvalidArgument | GDeadlineExceeded | GNotFound
  | GAlreadyExists | GPermissionDenied | GResourceExhausted | GFailedPrecondition | GAborted
  | GOutOfRange | GUnimplemented | GInternal | GUnavailable | GDataLoss | GUnauthenticated

type_synonym grpc_retry_policy = "grpc_code list"

definition GRPC_DEFAULT :: grpc_retry_policy where
  "GRPC_DEFAULT = [GUnavailable, GUnknown]"

definition GRPC_PERMISSIVE :: grpc_retry_policy where
  "GRPC_PERMISSIVE = [GUnavailable, GUnknown, GInternal, GDeadlineExceeded]"

definition grpc_is_retryable :: "grpc_retry_policy \<Rightarrow> grpc_code \<Rightarrow> bool" where
  "grpc_is_retryable p c \<longleftrightarrow> c \<in> set p"

definition grpc_classify :: "grpc_retry_policy \<Rightarrow> grpc_code \<Rightarrow> disposition option" where
  "grpc_classify p code =
     (if code = GOk then None
      else if grpc_is_retryable p code then Some Retryable
      else Some Terminal)"

text \<open>The argument \<open>has_source\<close> is whether the \<open>tonic::Status\<close> carries a source error.\<close>

definition grpc_is_retryable_status :: "grpc_retry_policy \<Rightarrow> grpc_code \<Rightarrow> bool \<Rightarrow> bool" where
  "grpc_is_retryable_status p code has_source \<longleftrightarrow>
     grpc_is_retryable p code \<or>
     (has_source \<and> code \<in> {GInternal, GCancelled, GUnknown, GUnavailable})"


section \<open>Reachable states\<close>

text \<open>Calls and the passage of time, one whole call at a time.\<close>

inductive cb_step :: "breaker \<times> instant \<Rightarrow> breaker \<times> instant \<Rightarrow> bool" where
  tick: "t \<le> t' \<Longrightarrow> cb_step (b, t) (b, t')"
| step_check: "cb_step (b, t) (fst (check t b), t)"
| step_record: "cb_step (b, t) (record_outcome oc t b, t)"
| step_rate: "cb_step (b, t) (fst (error_rate t b), t)"

inductive cb_reach :: "breaker_config \<Rightarrow> breaker \<times> instant \<Rightarrow> bool" for cfg where
  init: "cb_reach cfg (with_clock cfg t, t)"
| step: "cb_reach cfg s \<Longrightarrow> cb_step s s' \<Longrightarrow> cb_reach cfg s'"

text \<open>A telemetry log is a path of the state machine: every reported change starts where the previous
  one ended.\<close>

fun replay :: "breaker_state \<Rightarrow> obs_event list \<Rightarrow> breaker_state option" where
  "replay s [] = Some s"
| "replay s (OnStateChange f t r # es) = (if f = s \<and> f \<noteq> t then replay t es else None)"
| "replay s (OnOutcome oc n # es) = replay s es"
| "replay s (OnProbeAdmission a # es) = replay s es"

lemma replay_append: "replay s (xs @ ys) = Option.bind (replay s xs) (\<lambda>t. replay t ys)"
  by (induction s xs rule: replay.induct) auto

definition breaker_inv :: "breaker \<Rightarrow> bool" where
  "breaker_inv b \<longleftrightarrow>
     bstate b \<in> {0, 1, 2} \<and>
     1 \<le> half_open_max_probes (bconfig b) \<and>
     (is_open b \<longleftrightarrow> state_of b = Open) \<and>
     (state_of b \<noteq> HalfOpen \<longrightarrow> half_open_probes b = 0) \<and>
     half_open_probes b \<le> half_open_max_probes (bconfig b) \<and>
     window_inv (window b) \<and>
     replay Closed (obs_log b) = Some (state_of b)"

named_theorems breaker_defs \<open>the definitions of the breaker's operations\<close>

declare check_def [breaker_defs] check_open_def [breaker_defs] still_open_def [breaker_defs]
  try_half_open_probe_def [breaker_defs] cas_state_def [breaker_defs] trip_def [breaker_defs]
  close_def [breaker_defs] record_outcome_def [breaker_defs] observe_sample_def [breaker_defs]
  error_rate_def [breaker_defs] notify_def [breaker_defs] Let_def [breaker_defs]

lemmas state_views = state_of_def is_open_def from_u8_def

lemma bstate_iff:
  assumes "bstate b \<in> {0, 1, 2}"
  shows "state_of b = s \<longleftrightarrow> bstate b = to_u8 s"
  using assms by (cases s) (auto simp: state_views)

lemma state_of_set [simp]:
  "state_of (b\<lparr>bstate := to_u8 s\<rparr>) = s"
  "state_of (b\<lparr>bstate := 0\<rparr>) = Closed"
  "state_of (b\<lparr>bstate := 1\<rparr>) = Open"
  "state_of (b\<lparr>bstate := 2\<rparr>) = HalfOpen"
  by (simp_all add: state_of_def) (simp_all add: from_u8_def)

lemma state_of_frames [simp]:
  "state_of (b\<lparr>window := w\<rparr>) = state_of b"
  "state_of (b\<lparr>half_open_probes := p\<rparr>) = state_of b"
  "state_of (b\<lparr>probe_claimed_at_millis := c\<rparr>) = state_of b"
  "state_of (b\<lparr>is_open_fast := f\<rparr>) = state_of b"
  "state_of (b\<lparr>opened_at_millis := m\<rparr>) = state_of b"
  "state_of (b\<lparr>obs_log := l\<rparr>) = state_of b"
  by (simp_all add: state_of_def)

lemma probe_slot_le:
  assumes "(p :: usize) < m"
  shows "p + 1 \<le> m"
  using word_add_one_less_no_wrap [OF assms] assms
  by (simp add: word_le_nat_alt word_less_nat_alt)

lemma breaker_inv_probe:
  assumes "breaker_inv b" and "state_of b = HalfOpen"
  shows "breaker_inv (fst (try_half_open_probe t b))"
proof -
  have "half_open_probes b < half_open_max_probes (bconfig b) \<Longrightarrow>
        half_open_probes b + 1 \<le> half_open_max_probes (bconfig b)"
    by (rule probe_slot_le)
  with assms show ?thesis
    by (auto simp: breaker_inv_def breaker_defs is_open_def replay_append)
qed

lemma breaker_inv_half_open:
  assumes "breaker_inv b" and "state_of b = Open"
  shows "breaker_inv (notify (OnStateChange Open HalfOpen r)
           (b\<lparr>bstate := to_u8 HalfOpen, is_open_fast := False\<rparr>))"
  using assms by (auto simp: breaker_inv_def notify_def is_open_def replay_append)

lemma cas_from_state:
  assumes "breaker_inv b" and "state_of b = s"
  shows "cas_state s s' b = (True, b\<lparr>bstate := to_u8 s'\<rparr>)"
  using assms bstate_iff [of b s] by (auto simp: cas_state_def breaker_inv_def)

lemma check_open_eq:
  assumes "breaker_inv b" and "state_of b = Open"
  shows "check_open t b =
    (if open_duration (bconfig b) \<le> open_elapsed b t
     then try_half_open_probe t
            (notify (OnStateChange Open HalfOpen ''open_elapsed'')
               (b\<lparr>bstate := to_u8 HalfOpen, is_open_fast := False\<rparr>))
     else (b, still_open b t))"
  using assms by (simp add: check_open_def cas_from_state)

lemma breaker_inv_check:
  assumes inv: "breaker_inv b"
  shows "breaker_inv (fst (check t b))"
proof (cases "state_of b")
  case Open
  have "breaker_inv (fst (check_open t b))"
    using breaker_inv_probe [OF breaker_inv_half_open [OF inv Open]] inv
    by (simp add: check_open_eq [OF inv Open] notify_def)
  with Open inv show ?thesis by (simp add: check_def)
next
  case HalfOpen
  with inv breaker_inv_probe [OF inv HalfOpen] show ?thesis by (simp add: check_def)
qed (use inv in \<open>simp add: check_def\<close>)

lemma breaker_inv_observe:
  "breaker_inv b \<Longrightarrow> breaker_inv (observe_sample f t b)"
  by (auto simp: breaker_inv_def observe_sample_def is_open_def
      intro: window_inv_push window_inv_evict)

lemma breaker_inv_trip:
  assumes "breaker_inv b" and "state_of b = prev" and "prev \<noteq> Open"
  shows "breaker_inv (trip prev r t b)"
  using assms
  by (auto simp: breaker_inv_def trip_def notify_def Let_def is_open_def replay_append)

lemma breaker_inv_close:
  assumes "breaker_inv b" and "state_of b = prev" and "prev \<noteq> Closed"
  shows "breaker_inv (close prev r b)"
  using assms
  by (auto simp: breaker_inv_def close_def notify_def Let_def is_open_def replay_append
      window_inv_clear)

lemma breaker_inv_outcome:
  "breaker_inv b \<Longrightarrow> breaker_inv (notify (OnOutcome oc s) b)"
  by (auto simp: breaker_inv_def notify_def is_open_def replay_append)

lemma state_of_observe [simp]: "state_of (observe_sample f t b) = state_of b"
  by (simp add: observe_sample_def)

lemma breaker_inv_record:
  assumes inv: "breaker_inv b"
  shows "breaker_inv (record_outcome oc t b)"
proof (cases "state_of b")
  case Closed
  then show ?thesis
    using inv breaker_inv_trip [of "observe_sample (oc = Failure) t b" Closed]
    by (auto simp: record_outcome_def Let_def intro!: breaker_inv_outcome breaker_inv_observe)
next
  case Open
  with inv show ?thesis
    by (auto simp: record_outcome_def Let_def intro!: breaker_inv_outcome breaker_inv_observe)
next
  case HalfOpen
  with inv breaker_inv_trip [OF inv HalfOpen] breaker_inv_close [OF inv HalfOpen] show ?thesis
    by (auto simp: record_outcome_def Let_def intro!: breaker_inv_outcome)
qed

lemma breaker_inv_rate: "breaker_inv b \<Longrightarrow> breaker_inv (fst (error_rate t b))"
  by (auto simp: breaker_inv_def error_rate_def Let_def is_open_def intro: window_inv_evict)

lemma breaker_inv_init: "breaker_inv (with_clock cfg t)"
  by (auto simp: breaker_inv_def with_clock_def state_views window_inv_new)

lemma cb_reach_inv: "cb_reach cfg s \<Longrightarrow> breaker_inv (fst s)"
proof (induction rule: cb_reach.induct)
  case (step s s')
  from step.hyps(2) step.IH show ?case
    by cases (auto simp: breaker_inv_check breaker_inv_record breaker_inv_rate)
qed (simp add: breaker_inv_init)

section \<open>Time\<close>

lemma unat_word_of_nat_le: "unat (word_of_nat n :: 'a::len word) \<le> n"
  by (simp add: unat_of_nat)

definition time_inv :: "breaker_config \<Rightarrow> breaker \<Rightarrow> instant \<Rightarrow> bool" where
  "time_inv cfg b t \<longleftrightarrow>
     baseline b \<le> t \<and> enabled (bconfig b) = enabled cfg \<and>
     open_duration (bconfig b) = open_duration cfg \<and>
     unat (opened_at_millis b) \<le> (t - baseline b) div 1000000 \<and>
     unat (probe_claimed_at_millis b) \<le> (t - baseline b) div 1000000"

lemma elapsed_le: "unat (elapsed_millis b t) \<le> (t - baseline b) div 1000000"
  by (simp add: elapsed_millis_def unat_word_of_nat_le)

lemma elapsed_millis_frame [simp]:
  "elapsed_millis (b\<lparr>bstate := s\<rparr>) t = elapsed_millis b t"
  "elapsed_millis (b\<lparr>is_open_fast := f\<rparr>) t = elapsed_millis b t"
  "elapsed_millis (b\<lparr>obs_log := l\<rparr>) t = elapsed_millis b t"
  "elapsed_millis (b\<lparr>half_open_probes := p\<rparr>) t = elapsed_millis b t"
  "elapsed_millis (b\<lparr>window := w\<rparr>) t = elapsed_millis b t"
  "elapsed_millis (b\<lparr>probe_claimed_at_millis := c\<rparr>) t = elapsed_millis b t"
  by (simp_all add: elapsed_millis_def)

lemma time_inv_probe: "time_inv cfg b t \<Longrightarrow> time_inv cfg (fst (try_half_open_probe t b)) t"
  by (auto simp: time_inv_def breaker_defs elapsed_le)

lemma time_inv_check: "time_inv cfg b t \<Longrightarrow> time_inv cfg (fst (check t b)) t"
proof -
  assume inv: "time_inv cfg b t"
  let ?b1 = "notify (OnStateChange Open HalfOpen ''open_elapsed'')
               (b\<lparr>bstate := to_u8 HalfOpen, is_open_fast := False\<rparr>)"
  have "time_inv cfg ?b1 t" using inv by (simp add: time_inv_def notify_def)
  then have "time_inv cfg (fst (try_half_open_probe t ?b1)) t"
    and "time_inv cfg (fst (try_half_open_probe t b)) t"
    using inv by (auto intro: time_inv_probe)
  with inv show ?thesis
    by (auto simp: check_def check_open_def cas_state_def split: breaker_state.splits)
qed

lemma time_inv_record: "time_inv cfg b t \<Longrightarrow> time_inv cfg (record_outcome oc t b) t"
  by (auto simp: time_inv_def record_outcome_def trip_def close_def notify_def observe_sample_def
      Let_def elapsed_le split: breaker_state.splits)

lemma time_inv_rate: "time_inv cfg b t \<Longrightarrow> time_inv cfg (fst (error_rate t b)) t"
  by (simp add: time_inv_def error_rate_def Let_def)

lemma cb_reach_time: "cb_reach cfg s \<Longrightarrow> time_inv cfg (fst s) (snd s)"
proof (induction rule: cb_reach.induct)
  case (init t)
  then show ?case by (simp add: time_inv_def with_clock_def)
next
  case (step s s')
  from step.hyps(2) step.IH show ?case
  proof cases
    case (tick t t' b)
    have "(t - baseline b) div 1000000 \<le> (t' - baseline b) div 1000000"
      using tick(3) by (intro div_le_mono) simp
    with tick step.IH show ?thesis by (auto simp: time_inv_def)
  qed (auto simp: time_inv_check time_inv_record time_inv_rate)
qed

lemma elapsed_after_cooldown:
  assumes "baseline b \<le> t" and "t + d + 1000000 \<le> t'"
    and "(t' - baseline b) div 1000000 < 2 ^ 64"
    and "m \<le> (t - baseline b) div 1000000"
  shows "d div 1000000 + 1 \<le> unat (elapsed_millis b t') - m"
proof -
  have e: "unat (elapsed_millis b t') = (t' - baseline b) div 1000000"
    unfolding elapsed_millis_def using assms(3) by (intro unat_word_of_nat_less) simp
  have "(t - baseline b) + (d + 1000000) \<le> t' - baseline b" using assms(1,2) by linarith
  then have "((t - baseline b) + (d + 1000000)) div 1000000 \<le> (t' - baseline b) div 1000000"
    by (rule div_le_mono)
  then show ?thesis using assms(4) e by linarith
qed

text \<open>One cool-down after its last event a breaker admits the next request, in every state: an open
  breaker goes half-open with a free slot, and a half-open one whose slots are all taken hands out an
  abandoned claim.\<close>

lemma probe_admitted_after_lease:
  assumes "lease_millis b \<le> saturating_sub (elapsed_millis b t) (probe_claimed_at_millis b)"
  shows "snd (try_half_open_probe t b) = Inr ()"
  using assms by (simp add: breaker_defs lease_millis_def)

lemma check_admits_after_cooldown:
  assumes st: "bstate b \<in> {0, 1, 2}" and tinv: "time_inv cfg b t"
    and later: "t + open_duration cfg + 1000000 \<le> t'"
    and range: "(t' - baseline b) div 1000000 < 2 ^ 64"
  shows "snd (check t' b) = Inr ()"
proof -
  let ?d = "open_duration cfg"
  have opened: "?d div 1000000 + 1 \<le> unat (elapsed_millis b t') - unat (opened_at_millis b)"
    and claimed: "?d div 1000000 + 1 \<le> unat (elapsed_millis b t') - unat (probe_claimed_at_millis b)"
    using tinv by (auto simp only: time_inv_def intro!: elapsed_after_cooldown [OF _ later range])
  have "unat (lease_millis b) \<le> ?d div 1000000"
    using tinv by (simp add: lease_millis_def time_inv_def unat_word_of_nat_le)
  then have lease: "lease_millis b \<le> saturating_sub (elapsed_millis b t') (probe_claimed_at_millis b)"
    using claimed by (simp add: word_le_nat_alt)
  show ?thesis
  proof (cases "state_of b")
    case Open
    have "?d \<le> open_elapsed b t'" using opened by (simp add: open_elapsed_def)
    moreover have "bstate b = 1" using Open st bstate_iff by simp
    ultimately show ?thesis
      using Open tinv lease
      by (simp add: check_def check_open_def cas_state_def time_inv_def probe_admitted_after_lease
          notify_def lease_millis_def)
  next
    case HalfOpen
    with lease show ?thesis by (simp add: check_def probe_admitted_after_lease)
  qed (simp add: check_def)
qed

section \<open>Probe accounting\<close>

fun run_checks :: "instant list \<Rightarrow> breaker \<Rightarrow> breaker \<times> check_result list" where
  "run_checks [] b = (b, [])"
| "run_checks (t # ts) b =
     (let (b1, r) = check t b; (b2, rs) = run_checks ts b1 in (b2, r # rs))"

definition admitted :: "check_result list \<Rightarrow> nat" where
  "admitted rs = length (filter (\<lambda>r. r = Inr ()) rs)"

lemma run_checks_Cons:
  "snd (run_checks (t # ts) b) = snd (check t b) # snd (run_checks ts (fst (check t b)))"
  by (simp add: split_beta Let_def)

lemma half_open_admissions:
  assumes "state_of b = HalfOpen" and "enabled (bconfig b)"
    and "half_open_probes b \<le> half_open_max_probes (bconfig b)"
    and "0 < half_open_max_probes (bconfig b)"
    and "half_open_probes b = 0 \<or>
         e \<le> unat (probe_claimed_at_millis b) \<and>
         unat (probe_claimed_at_millis b) < e + unat (lease_millis b)"
    and "\<forall>t\<in>set ts. e \<le> unat (elapsed_millis b t) \<and>
         unat (elapsed_millis b t) < e + unat (lease_millis b)"
  shows "admitted (snd (run_checks ts b)) =
         min (length ts) (unat (half_open_max_probes (bconfig b)) - unat (half_open_probes b))"
  using assms
proof (induction ts arbitrary: b)
  case Nil
  then show ?case by (simp add: admitted_def)
next
  case (Cons t ts)
  let ?m = "half_open_max_probes (bconfig b)"
  have chk: "check t b = try_half_open_probe t b" using Cons.prems(1,2) by (simp add: check_def)
  show ?case
  proof (cases "half_open_probes b < ?m")
    case True
    let ?b = "notify (OnProbeAdmission True) (b\<lparr>half_open_probes := half_open_probes b + 1,
                probe_claimed_at_millis := elapsed_millis b t\<rparr>)"
    have res: "check t b = (?b, Inr ())" using True unfolding chk by (simp add: try_half_open_probe_def notify_def Let_def)
    have succ: "unat (half_open_probes b + 1) = unat (half_open_probes b) + 1"
      by (rule word_add_one_less_no_wrap [OF True])
    have "admitted (snd (run_checks ts ?b)) = min (length ts) (unat ?m - (unat (half_open_probes b) + 1))"
      using Cons.IH [of ?b] Cons.prems True succ probe_slot_le [OF True]
      by (auto simp: notify_def lease_millis_def elapsed_millis_def)
    then show ?thesis
      using True by (simp add: run_checks_Cons res admitted_def word_less_nat_alt del: run_checks.simps)
  next
    case False
    have full: "unat (half_open_probes b) = unat ?m"
      using False Cons.prems(3) by (simp add: word_le_nat_alt word_less_nat_alt)
    moreover have "\<not> lease_millis b \<le> saturating_sub (elapsed_millis b t) (probe_claimed_at_millis b)"
      using Cons.prems(4,5,6) full by (auto simp: word_le_nat_alt word_less_nat_alt)
    ultimately have res: "check t b = (notify (OnProbeAdmission False) b,
        Inl \<lparr>retry_after = min HALF_OPEN_PROBE_BACKOFF (open_duration (bconfig b))\<rparr>)"
      using False unfolding chk by (simp add: try_half_open_probe_def notify_def Let_def lease_millis_def)
    have "admitted (snd (run_checks ts (notify (OnProbeAdmission False) b))) = 0"
      using Cons.IH [of "notify (OnProbeAdmission False) b"] Cons.prems full
      by (auto simp: notify_def lease_millis_def elapsed_millis_def)
    then show ?thesis
      using full by (simp add: run_checks_Cons res admitted_def del: run_checks.simps)
  qed
qed

section \<open>Outcome histories\<close>

text \<open>The abstract breaker remembers nothing but the samples it was given.\<close>

definition record_all :: "sample list \<Rightarrow> breaker \<Rightarrow> breaker" where
  "record_all ss b = foldl (\<lambda>b (t, f). record_outcome (if f then Failure else Success) t b) b ss"

definition recent :: "duration \<Rightarrow> sample list \<Rightarrow> sample list" where
  "recent d ss = foldl (\<lambda>xs s. evict_samples d (fst s) (push_samples MAX_WINDOW_ENTRIES xs s)) [] ss"

definition trips :: "breaker_config \<Rightarrow> sample list \<Rightarrow> bool" where
  "trips cfg xs \<longleftrightarrow>
     unat (min_samples cfg) \<le> length xs \<and>
     f64_ge (if xs = [] then Fin 0 else Fin (f64_quot (count_failures xs) (length xs)))
       (error_rate_threshold cfg)"

lemma recent_snoc:
  "recent d (ss @ [s]) = evict_samples d (fst s) (push_samples MAX_WINDOW_ENTRIES (recent d ss) s)"
  by (simp add: recent_def)

lemma should_trip_trips:
  "window_inv (window b) \<Longrightarrow> should_trip b \<longleftrightarrow> trips (bconfig b) (entries (window b))"
  by (simp add: should_trip_def trips_def word_le_nat_alt window_count_exact window_rate_exact)

lemma observe_sample_entries:
  assumes "window_inv (window b)"
  shows "window_inv (window (observe_sample f t b))"
    and "entries (window (observe_sample f t b)) =
      evict_samples (window_duration (bconfig b)) t
        (push_samples MAX_WINDOW_ENTRIES (entries (window b)) (t, f))"
  using sw.invar_observe [OF assms, of _ "(t, f)"] sw.samples_observe [OF assms, of _ "(t, f)"]
  by (simp_all add: observe_sample_def sw.observe_def)

lemma record_open:
  assumes "enabled (bconfig b)" "state_of b = Open"
  shows "record_outcome oc t b = notify (OnOutcome oc Open) (observe_sample (oc = Failure) t b)"
  using assms by (simp add: record_outcome_def)

lemma record_closed:
  assumes "enabled (bconfig b)" "state_of b = Closed"
  shows "record_outcome oc t b =
    (let b' = observe_sample (oc = Failure) t b;
         b'' = (if should_trip b' then trip Closed ''trip'' t b' else b')
     in notify (OnOutcome oc (state_of b'')) b'')"
  using assms by (simp add: record_outcome_def Let_def)

definition ever_trips :: "breaker_config \<Rightarrow> sample list \<Rightarrow> bool" where
  "ever_trips cfg ss \<longleftrightarrow> (\<exists>k\<in>{1..length ss}. trips cfg (recent (window_duration cfg) (take k ss)))"

definition hist_inv :: "breaker_config \<Rightarrow> sample list \<Rightarrow> breaker \<Rightarrow> bool" where
  "hist_inv cfg ss b \<longleftrightarrow>
     window_inv (window b) \<and>
     bconfig b = cfg\<lparr>half_open_max_probes := max (half_open_max_probes cfg) 1\<rparr> \<and>
     entries (window b) = recent (window_duration cfg) ss \<and>
     state_of b = (if ever_trips cfg ss then Open else Closed)"

lemma ever_trips_snoc:
  "ever_trips cfg (ss @ [s]) \<longleftrightarrow>
   ever_trips cfg ss \<or> trips cfg (recent (window_duration cfg) (ss @ [s]))"
  by (auto simp: ever_trips_def atLeastAtMostSuc_conv)

lemma hist_inv_step:
  assumes inv: "hist_inv cfg ss b" and en: "enabled cfg"
  shows "hist_inv cfg (ss @ [(t, f)]) (record_outcome (if f then Failure else Success) t b)"
proof -
  let ?oc = "if f then Failure else Success" and ?o = "observe_sample f t b"
  have obs: "window_inv (window ?o)" "entries (window ?o) = recent (window_duration cfg) (ss @ [(t, f)])"
    using inv observe_sample_entries [of b f t] by (simp_all add: hist_inv_def recent_snoc)
  have cfg: "bconfig ?o = cfg\<lparr>half_open_max_probes := max (half_open_max_probes cfg) 1\<rparr>"
    using inv by (simp add: hist_inv_def observe_sample_def)
  have trip: "should_trip ?o \<longleftrightarrow> trips cfg (recent (window_duration cfg) (ss @ [(t, f)]))"
    using should_trip_trips [OF obs(1)] obs(2) cfg by (simp add: trips_def)
  have oc: "(?oc = Failure) = f" by simp
  have enb: "enabled (bconfig b)" using inv en by (simp add: hist_inv_def)
  show ?thesis
  proof (cases "state_of b")
    case Open
    then show ?thesis
      using inv obs cfg record_open [OF enb Open, of ?oc t]
      unfolding hist_inv_def oc by (simp add: notify_def ever_trips_snoc split: if_splits)
  next
    case Closed
    then have "\<not> ever_trips cfg ss"
      using inv by (auto simp: hist_inv_def split: if_splits)
    then show ?thesis
      using obs cfg record_closed [OF enb Closed, of ?oc t] Closed trip
      unfolding hist_inv_def oc by (simp add: notify_def trip_def Let_def ever_trips_snoc)
  next
    case HalfOpen
    with inv show ?thesis by (auto simp: hist_inv_def split: if_splits)
  qed
qed

lemma record_all_hist:
  assumes "enabled cfg"
  shows "hist_inv cfg ss (record_all ss (with_clock cfg t0))"
proof (induction ss rule: rev_induct)
  case Nil
  show ?case
    by (simp add: hist_inv_def record_all_def with_clock_def recent_def window_inv_new state_views
        ever_trips_def)
       (simp add: window_new_def)
next
  case (snoc s ss)
  obtain t f where "s = (t, f)" by (cases s)
  with hist_inv_step [OF snoc.IH assms, of t f] show ?case by (simp add: record_all_def)
qed

lemma probe_admitted:
  "half_open_probes b < half_open_max_probes (bconfig b) \<Longrightarrow> try_half_open_probe t b \<noteq> (b', Inl r)"
  by (simp add: breaker_defs)

section \<open>Handles of the registry\<close>

fun registry_run :: "(string \<times> instant) list \<Rightarrow> registry \<Rightarrow> registry \<times> nat option list" where
  "registry_run [] r = (r, [])"
| "registry_run ((k, t) # cs) r =
     (let (r1, h) = registry_get k t r; (r2, hs) = registry_run cs r1 in (r2, h # hs))"

definition registry_inv :: "registry \<Rightarrow> bool" where
  "registry_inv r \<longleftrightarrow>
     inj_on (breakers r) (dom (breakers r)) \<and> (\<forall>h\<in>ran (breakers r). h < length (heap r))"

lemma registry_get_inv:
  assumes "registry_inv r" and "enabled (rconfig r)"
  shows "registry_inv (fst (registry_get k t r))"
    and "breakers r \<subseteq>\<^sub>m breakers (fst (registry_get k t r))"
    and "breakers (fst (registry_get k t r)) k = snd (registry_get k t r)"
    and "snd (registry_get k t r) \<noteq> None"
    and "rconfig (fst (registry_get k t r)) = rconfig r"
  using assms
  by (auto simp: registry_get_def registry_inv_def Let_def inj_on_def map_le_def ran_def less_Suc_eq
      split: option.splits)

lemma registry_run_spec:
  assumes "registry_inv r" and "enabled (rconfig r)" and "registry_run cs r = (r', hs)"
  shows "registry_inv r' \<and> breakers r \<subseteq>\<^sub>m breakers r' \<and> hs = map (\<lambda>c. breakers r' (fst c)) cs \<and> None \<notin> set hs"
  using assms
proof (induction cs arbitrary: r hs)
  case (Cons c cs)
  obtain k t where c: "c = (k, t)" by (cases c)
  obtain r1 h where get: "registry_get k t r = (r1, h)" by fastforce
  obtain hs' where run: "registry_run cs r1 = (r', hs')" "hs = h # hs'"
    using Cons.prems(3) get c by (auto split: prod.splits)
  note g = registry_get_inv [OF Cons.prems(1,2), of k t, unfolded get fst_conv snd_conv]
  have ih: "registry_inv r'" "breakers r1 \<subseteq>\<^sub>m breakers r'"
    "hs' = map (\<lambda>c. breakers r' (fst c)) cs" "None \<notin> set hs'"
    using Cons.IH [OF g(1) _ run(1)] g(5) Cons.prems(2) by auto
  have "breakers r' k = h" using g(3,4) ih(2) by (metis domIff map_le_def)
  with ih g c run show ?case using map_le_trans by auto
qed auto

text \<open>With the breaker enabled, any two calls of \<open>get\<close> on a registry return the same breaker exactly
  when they name the same key, and every call returns one.\<close>

theorem registry_handles:
  assumes "enabled cfg" and "registry_run cs (registry_new cfg) = (r, hs)"
    and "i < length cs" and "j < length cs"
  shows "hs ! i \<noteq> None \<and> (hs ! i = hs ! j \<longleftrightarrow> fst (cs ! i) = fst (cs ! j))"
proof -
  have "registry_inv (registry_new cfg)" by (simp add: registry_inv_def registry_new_def)
  then have spec: "registry_inv r" "hs = map (\<lambda>c. breakers r (fst c)) cs" "None \<notin> set hs"
    using registry_run_spec [OF _ _ assms(2)] assms(1) by (auto simp: registry_new_def)
  have "hs ! i \<in> set hs" "hs ! j \<in> set hs" using spec(2) assms(3,4) by auto
  then have "hs ! i \<noteq> None" "hs ! j \<noteq> None" using spec(3) by metis+
  moreover from this have "fst (cs ! i) \<in> dom (breakers r)" "fst (cs ! j) \<in> dom (breakers r)"
    using spec(2) assms(3,4) by (simp_all add: domIff)
  ultimately show ?thesis
    using spec(1,2) assms(3,4) by (simp add: registry_inv_def) (metis inj_onD)
qed

theorem registry_handles_witness:
  "snd (registry_run [(''a'', 1), (''b'', 2), (''a'', 3)] (registry_new server_config)) ! 0 =
   snd (registry_run [(''a'', 1), (''b'', 2), (''a'', 3)] (registry_new server_config)) ! 2"
  using registry_handles [of server_config "[(''a'', 1), (''b'', 2), (''a'', 3)]"
      "fst (registry_run [(''a'', 1), (''b'', 2), (''a'', 3)] (registry_new server_config))"
      "snd (registry_run [(''a'', 1), (''b'', 2), (''a'', 3)] (registry_new server_config))" 0 2]
  by (simp add: server_config_def del: registry_run.simps)

section \<open>Properties of the breaker\<close>



text \<open>C33: A fresh enabled breaker that only receives outcomes is open exactly when, after one of them,
  the samples still inside the window (at most the newest 10000) numbered at least \<open>min_samples\<close> and had a
  failure quotient, rounded to a double, of at least the threshold; otherwise it is closed. Its window then
  holds exactly these samples.\<close>

theorem record_history:
  assumes "enabled cfg"
  shows "state_of (record_all ss (with_clock cfg t0)) =
           (if \<exists>k\<in>{1..length ss}. trips cfg (recent (window_duration cfg) (take k ss))
            then Open else Closed) \<and>
         entries (window (record_all ss (with_clock cfg t0))) = recent (window_duration cfg) ss"
  using record_all_hist [OF assms, of ss t0] by (simp add: hist_inv_def ever_trips_def)

theorem record_history_witness:
  "enabled (server_config\<lparr>min_samples := 1\<rparr>) \<and>
   entries (window (record_all [(5, True)] (with_clock (server_config\<lparr>min_samples := 1\<rparr>) 5))) = [(5, True)]"
  using record_history [of "server_config\<lparr>min_samples := 1\<rparr>" "[(5, True)]" 5]
  by (simp add: server_config_def recent_def evict_samples_def push_samples_def
      MAX_WINDOW_ENTRIES_def)

text \<open>A rejected \<open>check\<close> changes nothing but the observer's log, and asks the caller to wait for a
  positive time of at most the cool-down.\<close>

theorem check_rejection:
  assumes "breaker_inv b" and "check t b = (b', Inl r)"
  shows "0 < retry_after r \<and> retry_after r \<le> open_duration (bconfig b) \<and>
         b'\<lparr>obs_log := []\<rparr> = b\<lparr>obs_log := []\<rparr>"
proof (cases "state_of b")
  case Open
  have slot: "half_open_probes b < half_open_max_probes (bconfig b)"
    using assms(1) Open by (auto simp: breaker_inv_def word_less_nat_alt word_le_nat_alt)
  show ?thesis
    using Open assms slot
    by (auto simp: check_def check_open_eq [OF assms(1) Open] probe_admitted still_open_def notify_def
        split: if_splits)
next
  case HalfOpen
  then show ?thesis
    using assms(2) by (cases "open_duration (bconfig b) = 0") 
      (auto simp: breaker_defs lease_millis_def HALF_OPEN_PROBE_BACKOFF_def split: if_splits)
qed (use assms(2) in \<open>auto simp: check_def split: if_splits\<close>)

definition open_example :: breaker where
  "open_example = trip Closed ''trip'' 0 (with_clock server_config 0)"

lemma open_example_check: "check (secs 4) open_example = (open_example, Inl \<lparr>retry_after = secs 6\<rparr>)"
  by (simp add: open_example_def breaker_defs with_clock_def server_config_def open_elapsed_def
      elapsed_millis_def state_views)

theorem check_rejection_witness:
  "0 < retry_after \<lparr>retry_after = secs 6\<rparr> \<and> secs 6 \<le> open_duration (bconfig open_example)"
proof -
  have "breaker_inv open_example"
    unfolding open_example_def by (rule breaker_inv_trip [OF breaker_inv_init]) (simp_all add: with_clock_def state_views)
  from check_rejection [OF this open_example_check] show ?thesis by simp
qed

text \<open>Inside one lease a half-open breaker admits exactly as many probes as it has free slots, however
  many callers ask: of \<open>n\<close> checks, \<open>min n (max - taken)\<close> succeed.\<close>

theorem half_open_exact:
  assumes "state_of b = HalfOpen" and "enabled (bconfig b)"
    and "half_open_probes b \<le> half_open_max_probes (bconfig b)"
    and "0 < half_open_max_probes (bconfig b)"
    and "half_open_probes b = 0 \<or>
         e \<le> unat (probe_claimed_at_millis b) \<and>
         unat (probe_claimed_at_millis b) < e + unat (lease_millis b)"
    and "\<forall>t\<in>set ts. e \<le> unat (elapsed_millis b t) \<and>
         unat (elapsed_millis b t) < e + unat (lease_millis b)"
  shows "admitted (snd (run_checks ts b)) =
         min (length ts) (unat (half_open_max_probes (bconfig b)) - unat (half_open_probes b))"
  by (rule half_open_admissions [OF assms])

definition half_open_example :: breaker where
  "half_open_example = (with_clock server_config 0)\<lparr>bstate := to_u8 HalfOpen\<rparr>"

theorem half_open_exact_witness:
  "admitted (snd (run_checks [1000000, 2000000, 3000000] half_open_example)) = 1"
  using half_open_exact [of half_open_example 0 "[1000000, 2000000, 3000000]"]
  by (simp add: half_open_example_def with_clock_def server_config_def elapsed_millis_def
      lease_millis_def state_views del: run_checks.simps)

end
