(* ===== verification/Breaker_Atomic.thy ===== *)
theory Breaker_Atomic
  imports Circuit_Breaker
begin

text \<open>
  The operations of \<open>breaker.rs\<close> split at their accesses to shared memory: every atomic load, store,
  read-modify-write and compare-exchange, every critical section of the window mutex and every reading
  of the clock is one step of a thread. Steps of different threads interleave freely (sequentially
  consistent memory). \<open>run_alone\<close> relates the steps to the whole-call functions of
  \<open>Circuit_Breaker\<close>; \<open>conc_reach\<close> is the set of states that any number of concurrent callers
  can reach.
\<close>

section \<open>Program counters\<close>

datatype pc =
    Idle
  | CkLoad | CkOpened | CkClock u64 | CkCas | CkFast | CkReload | CkReopened | CkReclock u64
  | PrClock | PrAdd u64 | PrClaim u64 | PrSub u64 | PrLoad u64 | PrCas u64 u64
  | Ret check_result
  | RcClock outcome | RcLoad outcome instant
  | RcWindowClosed outcome instant | RcWindowOpen outcome instant
  | TrState breaker_state string outcome | TrClock breaker_state string outcome
  | TrOpened breaker_state string outcome u64 | TrProbes breaker_state string outcome
  | TrFast breaker_state string outcome
  | ClState breaker_state string outcome | ClWindow breaker_state string outcome
  | ClProbes breaker_state string outcome | ClFast breaker_state string outcome
  | RcState outcome
  | Done

definition start_check :: "breaker \<Rightarrow> pc" where
  "start_check b = (if enabled (bconfig b) then CkLoad else Ret (Inr ()))"

definition start_record :: "outcome \<Rightarrow> breaker \<Rightarrow> pc" where
  "start_record oc b = (if enabled (bconfig b) then RcClock oc else Done)"

definition elapsed_since :: "breaker \<Rightarrow> instant \<Rightarrow> u64 \<Rightarrow> duration" where
  "elapsed_since b t opened = millis (unat (saturating_sub (elapsed_millis b t) opened))"

definition notify_change :: "breaker_state \<Rightarrow> breaker_state \<Rightarrow> string \<Rightarrow> breaker \<Rightarrow> breaker" where
  "notify_change prev new reason b =
     (if prev \<noteq> new then notify (OnStateChange prev new reason) b else b)"

fun tstep :: "instant \<Rightarrow> pc \<Rightarrow> breaker \<Rightarrow> pc \<times> breaker" where
  "tstep t CkLoad b =
     (case state_of b of Closed \<Rightarrow> (Ret (Inr ()), b) | Open \<Rightarrow> (CkOpened, b) | HalfOpen \<Rightarrow> (PrClock, b))"
| "tstep t CkOpened b = (CkClock (opened_at_millis b), b)"
| "tstep t (CkClock opened) b =
     (let elapsed = elapsed_since b t opened
      in if open_duration (bconfig b) \<le> elapsed then (CkCas, b)
         else (Ret (Inl \<lparr>retry_after = open_duration (bconfig b) - elapsed\<rparr>), b))"
| "tstep t CkCas b =
     (case cas_state Open HalfOpen b of (True, b') \<Rightarrow> (CkFast, b') | (False, b') \<Rightarrow> (CkReload, b'))"
| "tstep t CkFast b =
     (PrClock, notify (OnStateChange Open HalfOpen ''open_elapsed'') (b\<lparr>is_open_fast := False\<rparr>))"
| "tstep t CkReload b =
     (case state_of b of Closed \<Rightarrow> (Ret (Inr ()), b) | HalfOpen \<Rightarrow> (PrClock, b) | Open \<Rightarrow> (CkReopened, b))"
| "tstep t CkReopened b = (CkReclock (opened_at_millis b), b)"
| "tstep t (CkReclock opened) b =
     (Ret (Inl \<lparr>retry_after = open_duration (bconfig b) - elapsed_since b t opened\<rparr>), b)"
| "tstep t PrClock b = (PrAdd (elapsed_millis b t), b)"
| "tstep t (PrAdd now) b =
     (let prev = half_open_probes b; b' = b\<lparr>half_open_probes := prev + 1\<rparr>
      in if prev < half_open_max_probes (bconfig b) then (PrClaim now, b') else (PrSub now, b'))"
| "tstep t (PrClaim now) b =
     (Ret (Inr ()), notify (OnProbeAdmission True) (b\<lparr>probe_claimed_at_millis := now\<rparr>))"
| "tstep t (PrSub now) b = (PrLoad now, b\<lparr>half_open_probes := half_open_probes b - 1\<rparr>)"
| "tstep t (PrLoad now) b =
     (let claimed = probe_claimed_at_millis b
      in if lease_millis b \<le> saturating_sub now claimed then (PrCas now claimed, b)
         else (Ret (Inl \<lparr>retry_after = min HALF_OPEN_PROBE_BACKOFF (open_duration (bconfig b))\<rparr>),
               notify (OnProbeAdmission False) b))"
| "tstep t (PrCas now claimed) b =
     (if probe_claimed_at_millis b = claimed
      then (Ret (Inr ()), notify (OnProbeAdmission True) (b\<lparr>probe_claimed_at_millis := now\<rparr>))
      else (Ret (Inl \<lparr>retry_after = min HALF_OPEN_PROBE_BACKOFF (open_duration (bconfig b))\<rparr>),
            notify (OnProbeAdmission False) b))"
| "tstep t (RcClock oc) b = (RcLoad oc t, b)"
| "tstep t (RcLoad oc now) b =
     (case state_of b of
        Closed \<Rightarrow> (RcWindowClosed oc now, b)
      | HalfOpen \<Rightarrow>
          (if oc = Failure then (TrState HalfOpen ''probe_failure'' oc, b)
           else (ClState HalfOpen ''probe_success'' oc, b))
      | Open \<Rightarrow> (RcWindowOpen oc now, b))"
| "tstep t (RcWindowClosed oc now) b =
     (let b' = observe_sample (oc = Failure) now b
      in if should_trip b' then (TrState Closed ''trip'' oc, b') else (RcState oc, b'))"
| "tstep t (RcWindowOpen oc now) b = (RcState oc, observe_sample (oc = Failure) now b)"
| "tstep t (TrState prev r oc) b = (TrClock prev r oc, b\<lparr>bstate := to_u8 Open\<rparr>)"
| "tstep t (TrClock prev r oc) b = (TrOpened prev r oc (elapsed_millis b t), b)"
| "tstep t (TrOpened prev r oc m) b = (TrProbes prev r oc, b\<lparr>opened_at_millis := m\<rparr>)"
| "tstep t (TrProbes prev r oc) b = (TrFast prev r oc, b\<lparr>half_open_probes := 0\<rparr>)"
| "tstep t (TrFast prev r oc) b = (RcState oc, notify_change prev Open r (b\<lparr>is_open_fast := True\<rparr>))"
| "tstep t (ClState prev r oc) b = (ClWindow prev r oc, b\<lparr>bstate := to_u8 Closed\<rparr>)"
| "tstep t (ClWindow prev r oc) b = (ClProbes prev r oc, b\<lparr>window := window_clear (window b)\<rparr>)"
| "tstep t (ClProbes prev r oc) b = (ClFast prev r oc, b\<lparr>half_open_probes := 0\<rparr>)"
| "tstep t (ClFast prev r oc) b = (RcState oc, notify_change prev Closed r (b\<lparr>is_open_fast := False\<rparr>))"
| "tstep t (RcState oc) b = (Done, notify (OnOutcome oc (state_of b)) b)"
| "tstep t Idle b = (Idle, b)"
| "tstep t (Ret r) b = (Ret r, b)"
| "tstep t Done b = (Done, b)"

fun returned :: "pc \<Rightarrow> bool" where
  "returned (Ret r) = True"
| "returned Done = True"
| "returned _ = False"

fun run_alone :: "nat \<Rightarrow> instant \<Rightarrow> pc \<times> breaker \<Rightarrow> pc \<times> breaker" where
  "run_alone 0 t s = s"
| "run_alone (Suc n) t s = run_alone n t (tstep t (fst s) (snd s))"

section \<open>Concurrent callers\<close>

record csys =
  shared :: breaker
  clock :: instant
  threads :: "nat \<Rightarrow> pc"

datatype event = ECheck nat | ERecord nat outcome | ERun nat | EReturn nat | ETick duration

fun exec1 :: "event \<Rightarrow> csys \<Rightarrow> csys" where
  "exec1 (ECheck i) s =
     (if threads s i = Idle then s\<lparr>threads := (threads s)(i := start_check (shared s))\<rparr> else s)"
| "exec1 (ERecord i oc) s =
     (if threads s i = Idle then s\<lparr>threads := (threads s)(i := start_record oc (shared s))\<rparr> else s)"
| "exec1 (ERun i) s =
     (let (p, b) = tstep (clock s) (threads s i) (shared s)
      in s\<lparr>shared := b, threads := (threads s)(i := p)\<rparr>)"
| "exec1 (EReturn i) s =
     (if returned (threads s i) then s\<lparr>threads := (threads s)(i := Idle)\<rparr> else s)"
| "exec1 (ETick d) s = s\<lparr>clock := clock s + d\<rparr>"

definition csys_init :: "breaker_config \<Rightarrow> instant \<Rightarrow> csys" where
  "csys_init cfg t = \<lparr>shared = with_clock cfg t, clock = t, threads = (\<lambda>_. Idle)\<rparr>"

inductive conc_reach :: "breaker_config \<Rightarrow> csys \<Rightarrow> bool" for cfg where
  start: "conc_reach cfg (csys_init cfg t)"
| step: "conc_reach cfg s \<Longrightarrow> conc_reach cfg (exec1 e s)"

fun exec :: "event list \<Rightarrow> csys \<Rightarrow> csys" where
  "exec [] s = s"
| "exec (e # es) s = exec es (exec1 e s)"

lemma conc_reach_exec: "conc_reach cfg s \<Longrightarrow> conc_reach cfg (exec es s)"
  by (induction es arbitrary: s) (auto intro: conc_reach.step)

section \<open>A call that is not interrupted\<close>

lemma run_alone_numeral:
  "run_alone (numeral k) t s = run_alone (pred_numeral k) t (tstep t (fst s) (snd s))"
  by (simp add: numeral_eq_Suc)

lemma run_alone_ret [simp]: "run_alone n t (Ret r, b) = (Ret r, b)"
  by (induction n) simp_all

lemma run_alone_done [simp]: "run_alone n t (Done, b) = (Done, b)"
  by (induction n) simp_all

lemma run_alone_probe:
  assumes "5 \<le> n"
  shows "run_alone n t (PrClock, b) = (Ret (snd (try_half_open_probe t b)), fst (try_half_open_probe t b))"
proof -
  obtain m where "n = 5 + m" using assms le_Suc_ex by blast
  then have "n = Suc (Suc (Suc (Suc (Suc m))))" by simp
  then show ?thesis by (simp add: try_half_open_probe_def notify_def Let_def lease_millis_def)
qed

lemma run_alone_check_aux:
  assumes n: "5 \<le> n"
  shows "run_alone (Suc (Suc (Suc (Suc (Suc n))))) t (start_check b, b) =
    (Ret (snd (check t b)), fst (check t b))"
proof (cases "enabled (bconfig b)")
  case True
  show ?thesis
  proof (cases "state_of b")
    case Open
    then have "bstate b = 1"
      by (auto simp: state_views split: if_splits)
    with True Open n show ?thesis
      by (simp add: start_check_def check_def check_open_def still_open_def open_elapsed_def
          elapsed_since_def cas_state_def run_alone_probe Let_def)
  next
    case HalfOpen
    with True n show ?thesis
      using run_alone_probe [of "Suc (Suc (Suc (Suc n)))" t b]
      by (simp add: start_check_def check_def del: tstep.simps(9-14))
  qed (use True in \<open>simp add: start_check_def check_def\<close>)
qed (simp add: start_check_def check_def)

lemma run_alone_record_aux:
  "run_alone 9 t (start_record oc b, b) = (Done, record_outcome oc t b)"
proof (cases "enabled (bconfig b)")
  case True
  then show ?thesis
    by (cases "state_of b")
       (simp_all add: start_record_def record_outcome_def trip_def close_def notify_change_def Let_def
          run_alone_numeral)
qed (simp add: start_record_def record_outcome_def)

section \<open>Invariants of every interleaving\<close>

text \<open>What holds whatever the schedule: the state byte is one of the three states, the window's counter
  is exact, and no stored or carried time lies in the future.\<close>

fun pc_time :: "nat \<Rightarrow> pc \<Rightarrow> bool" where
  "pc_time e (PrAdd n) = (unat n \<le> e)"
| "pc_time e (PrClaim n) = (unat n \<le> e)"
| "pc_time e (PrSub n) = (unat n \<le> e)"
| "pc_time e (PrLoad n) = (unat n \<le> e)"
| "pc_time e (PrCas n c) = (unat n \<le> e)"
| "pc_time e (TrOpened p r oc m) = (unat m \<le> e)"
| "pc_time e _ = True"

definition shared_ok :: "breaker_config \<Rightarrow> instant \<Rightarrow> breaker \<Rightarrow> bool" where
  "shared_ok cfg t b \<longleftrightarrow>
     bstate b \<in> {0, 1, 2} \<and> window_inv (window b) \<and>
     1 \<le> half_open_max_probes (bconfig b) \<and> time_inv cfg b t"

definition elapsed_at :: "breaker \<Rightarrow> instant \<Rightarrow> nat" where
  "elapsed_at b t = (t - baseline b) div 1000000"

lemma window_inv_observe: "window_inv (window b) \<Longrightarrow> window_inv (window (observe_sample f t b))"
  by (simp add: observe_sample_def window_inv_push window_inv_evict)

lemma observe_frame [simp]:
  "bstate (observe_sample f t b) = bstate b"
  "bconfig (observe_sample f t b) = bconfig b"
  "baseline (observe_sample f t b) = baseline b"
  "opened_at_millis (observe_sample f t b) = opened_at_millis b"
  "probe_claimed_at_millis (observe_sample f t b) = probe_claimed_at_millis b"
  by (simp_all add: observe_sample_def)

lemma notify_frame [simp]:
  "bstate (notify e b) = bstate b"
  "bconfig (notify e b) = bconfig b"
  "baseline (notify e b) = baseline b"
  "window (notify e b) = window b"
  "opened_at_millis (notify e b) = opened_at_millis b"
  "probe_claimed_at_millis (notify e b) = probe_claimed_at_millis b"
  by (simp_all add: notify_def)

lemmas tstep_views = Let_def cas_state_def notify_change_def

lemma tstep_frame:
  "bconfig (snd (tstep t p b)) = bconfig b \<and> baseline (snd (tstep t p b)) = baseline b"
  by (cases p) (simp_all add: tstep_views split: breaker_state.split)

lemma tstep_bstate: "bstate b \<in> {0, 1, 2} \<Longrightarrow> bstate (snd (tstep t p b)) \<in> {0, 1, 2}"
  by (cases p) (auto simp: tstep_views split: breaker_state.split)

lemma tstep_window: "window_inv (window b) \<Longrightarrow> window_inv (window (snd (tstep t p b)))"
  by (cases p) (simp_all add: tstep_views window_inv_observe window_inv_clear split: breaker_state.split)

lemma tstep_times:
  assumes "pc_time (elapsed_at b t) p"
    and "unat (opened_at_millis b) \<le> elapsed_at b t" "unat (probe_claimed_at_millis b) \<le> elapsed_at b t"
  shows "unat (opened_at_millis (snd (tstep t p b))) \<le> elapsed_at b t"
    "unat (probe_claimed_at_millis (snd (tstep t p b))) \<le> elapsed_at b t"
  using assms by (cases p; simp add: tstep_views split: breaker_state.split)+

lemma tstep_pc_time:
  assumes "pc_time (elapsed_at b t) p"
  shows "pc_time (elapsed_at b t) (fst (tstep t p b))"
  using assms
  by (cases p)
     (simp_all add: tstep_views elapsed_at_def elapsed_le split: breaker_state.split)

lemma tstep_ok:
  assumes ok: "shared_ok cfg t b" and pc: "pc_time (elapsed_at b t) p"
  shows "shared_ok cfg t (snd (tstep t p b))"
proof -
  have "unat (opened_at_millis b) \<le> elapsed_at b t" "unat (probe_claimed_at_millis b) \<le> elapsed_at b t"
    using ok by (simp_all add: shared_ok_def time_inv_def elapsed_at_def)
  from tstep_times [OF pc this] ok show ?thesis
    using tstep_frame [of t p b] tstep_bstate [of b t p] tstep_window [of b t p]
    by (simp add: shared_ok_def time_inv_def elapsed_at_def)
qed

definition csys_ok :: "breaker_config \<Rightarrow> csys \<Rightarrow> bool" where
  "csys_ok cfg s \<longleftrightarrow>
     shared_ok cfg (clock s) (shared s) \<and>
     (\<forall>i. pc_time (elapsed_at (shared s) (clock s)) (threads s i))"

lemma pc_time_mono: "pc_time e p \<Longrightarrow> e \<le> e' \<Longrightarrow> pc_time e' p"
  by (cases p) auto

lemma shared_ok_init: "shared_ok cfg t (with_clock cfg t)"
  by (auto simp: shared_ok_def with_clock_def time_inv_def window_inv_new)

lemma csys_ok_run:
  assumes "csys_ok cfg s"
  shows "csys_ok cfg (exec1 (ERun i) s)"
  using assms tstep_ok [of cfg "clock s" "shared s" "threads s i"] tstep_frame
    tstep_pc_time [of "shared s" "clock s" "threads s i"]
  by (simp add: csys_ok_def elapsed_at_def case_prod_beta)

lemma csys_ok_tick:
  assumes "csys_ok cfg s"
  shows "csys_ok cfg (exec1 (ETick d) s)"
proof -
  let ?b = "shared s"
  have le: "(clock s - baseline ?b) div 1000000 \<le> (clock s + d - baseline ?b) div 1000000"
    by (intro div_le_mono) simp
  have "\<And>i. pc_time (elapsed_at ?b (clock s + d)) (threads s i)"
    using assms pc_time_mono le unfolding csys_ok_def elapsed_at_def by blast
  moreover have "shared_ok cfg (clock s + d) ?b"
    using assms le by (auto simp: csys_ok_def shared_ok_def time_inv_def)
  ultimately show ?thesis by (simp add: csys_ok_def)
qed

lemma csys_ok_exec1: "csys_ok cfg s \<Longrightarrow> csys_ok cfg (exec1 e s)"
proof (cases e)
  case (ERun i)
  assume "csys_ok cfg s"
  with ERun csys_ok_run show ?thesis by blast
next
  case (ETick d)
  assume "csys_ok cfg s"
  with ETick csys_ok_tick show ?thesis by blast
qed (auto simp: csys_ok_def start_check_def start_record_def)

lemma conc_reach_ok: "conc_reach cfg s \<Longrightarrow> csys_ok cfg s"
proof (induction rule: conc_reach.induct)
  case (start t)
  then show ?case using shared_ok_init by (simp add: csys_ok_def csys_init_def)
qed (rule csys_ok_exec1)

text \<open>Recovery does not depend on the probe counter, so it survives every race on it.\<close>

lemma conc_admits:
  assumes reach: "conc_reach cfg s" and later: "clock s + open_duration cfg + 1000000 \<le> t'"
    and range: "(t' - baseline (shared s)) div 1000000 < 2 ^ 64"
  shows "snd (check t' (shared s)) = Inr ()"
proof -
  have "shared_ok cfg (clock s) (shared s)"
    using conc_reach_ok [OF reach] by (simp add: csys_ok_def)
  then show ?thesis
    using check_admits_after_cooldown [OF _ _ later range] by (simp add: shared_ok_def)
qed

section \<open>Properties of concurrent use\<close>


text \<open>C8: However calls interleave and wherever callers are suspended or vanish, once a cool-down plus
  one millisecond has passed since the last step the next request is admitted: no race on the probe
  counter can wedge the breaker.\<close>

theorem conc_recovers:
  assumes "conc_reach cfg s" and "clock s + open_duration cfg + 1000000 \<le> t"
    and "(t - baseline (shared s)) div 1000000 < 2 ^ 64"
  shows "snd (check t (shared s)) = Inr ()"
  by (rule conc_admits [OF assms])

text \<open>The race of \<open>try_half_open_probe\<close> with \<open>trip\<close>: a second caller has added itself to the full
  counter, the first probe fails and resets the counter, then the second caller gives back its slot.\<close>

definition race_config :: breaker_config where
  "race_config = server_config\<lparr>min_samples := 1\<rparr>"

definition race_schedule :: "event list" where
  "race_schedule =
     ERecord 0 Failure # replicate 9 (ERun 0) @ [ETick (secs 10)] @
     ECheck 1 # replicate 8 (ERun 1) @ [EReturn 1] @
     ECheck 2 # replicate 3 (ERun 2) @
     ERecord 1 Failure # replicate 8 (ERun 1) @ [ERun 2]"

definition race_state :: csys where
  "race_state = exec race_schedule (csys_init race_config 0)"

lemma race_reach: "conc_reach race_config race_state"
  unfolding race_state_def by (rule conc_reach_exec [OF conc_reach.start])

theorem conc_recovers_witness:
  "snd (check (secs 30) (shared race_state)) = Inr ()"
  by (rule conc_recovers [OF race_reach]) code_simp+

text \<open>The probe counter is not safe under races: callers of a breaker with one probe slot can
  reach a state in which the breaker is open and \<open>half_open_probes\<close> has wrapped to \<open>usize::MAX\<close>, so the
  counter is not zero while open and the next half-open period starts without a free slot.\<close>

theorem probe_counter_wraps:
  "conc_reach race_config race_state \<and> state_of (shared race_state) = Open \<and>
   half_open_probes (shared race_state) = 2 ^ 64 - 1 \<and>
   returned (threads race_state 0) \<and> returned (threads race_state 1)"
  using race_reach by (intro conjI) (assumption, code_simp+)

section \<open>Progress of every caller\<close>

text \<open>The steps a call has still to take, at most.\<close>

fun pc_rank :: "pc \<Rightarrow> nat" where
  "pc_rank CkLoad = 10"
| "pc_rank CkOpened = 9"
| "pc_rank (CkClock _) = 8"
| "pc_rank CkCas = 7"
| "pc_rank CkFast = 6"
| "pc_rank CkReload = 6"
| "pc_rank CkReopened = 2"
| "pc_rank (CkReclock _) = 1"
| "pc_rank PrClock = 5"
| "pc_rank (PrAdd _) = 4"
| "pc_rank (PrClaim _) = 1"
| "pc_rank (PrSub _) = 3"
| "pc_rank (PrLoad _) = 2"
| "pc_rank (PrCas _ _) = 1"
| "pc_rank (RcClock _) = 9"
| "pc_rank (RcLoad _ _) = 8"
| "pc_rank (RcWindowClosed _ _) = 7"
| "pc_rank (RcWindowOpen _ _) = 2"
| "pc_rank (TrState _ _ _) = 6"
| "pc_rank (TrClock _ _ _) = 5"
| "pc_rank (TrOpened _ _ _ _) = 4"
| "pc_rank (TrProbes _ _ _) = 3"
| "pc_rank (TrFast _ _ _) = 2"
| "pc_rank (ClState _ _ _) = 5"
| "pc_rank (ClWindow _ _ _) = 4"
| "pc_rank (ClProbes _ _ _) = 3"
| "pc_rank (ClFast _ _ _) = 2"
| "pc_rank (RcState _) = 1"
| "pc_rank _ = 0"

lemma tstep_rank:
  "p \<noteq> Idle \<Longrightarrow> fst (tstep t p b) \<noteq> Idle \<and> pc_rank (fst (tstep t p b)) \<le> pc_rank p - 1"
  by (cases p) (auto simp: Let_def split: breaker_state.split if_splits prod.split bool.split)

lemma rank_returned: "p \<noteq> Idle \<Longrightarrow> pc_rank p = 0 \<longleftrightarrow> returned p"
  by (cases p) simp_all

lemma exec_rank:
  "EReturn i \<notin> set es \<Longrightarrow> threads s i \<noteq> Idle \<Longrightarrow>
   threads (exec es s) i \<noteq> Idle \<and> pc_rank (threads (exec es s) i) \<le> pc_rank (threads s i) - count_list es (ERun i)"
proof (induction es arbitrary: s)
  case (Cons e es)
  have "threads (exec1 e s) i \<noteq> Idle \<and>
      pc_rank (threads (exec1 e s) i) \<le> pc_rank (threads s i) - (if e = ERun i then 1 else 0)"
    using Cons.prems tstep_rank [of "threads s i" "clock s" "shared s"]
    by (cases e) (auto simp: Let_def case_prod_beta)
  with Cons.IH [of "exec1 e s"] Cons.prems(1) show ?case by (auto split: if_splits)
qed simp

text \<open>C39: Every call returns: from any state, a call that has started has returned once its thread has
  taken ten steps, whatever the other threads do in between, so no caller can be kept in a loop by others.\<close>

theorem calls_return:
  assumes "threads s i = Idle" "EReturn i \<notin> set es" "10 \<le> count_list es (ERun i)"
    and "start \<in> {ECheck i, ERecord i oc}"
  shows "returned (threads (exec (start # es) s) i)"
proof -
  have "threads (exec1 start s) i \<noteq> Idle \<and> pc_rank (threads (exec1 start s) i) \<le> 10"
    using assms(1,4) by (auto simp: start_check_def start_record_def split: if_splits)
  with exec_rank [OF assms(2), of "exec1 start s"] assms(3)
  have "threads (exec es (exec1 start s)) i \<noteq> Idle" "pc_rank (threads (exec es (exec1 start s)) i) = 0"
    by auto
  then show ?thesis using rank_returned by simp
qed

theorem calls_return_witness:
  "returned (threads (exec (ECheck 0 # concat (replicate 10 [ERun 0, ERun 1])) (csys_init race_config 0)) 0)"
proof (rule calls_return)
  show "threads (csys_init race_config 0) 0 = Idle" by (simp add: csys_init_def)
  show "10 \<le> count_list (concat (replicate 10 [ERun 0, ERun 1])) (ERun 0)"
    "EReturn 0 \<notin> set (concat (replicate 10 [ERun 0, ERun 1]))"
    by (simp_all add: numeral_eq_Suc)
qed simp

end
