(* ===== verification/Patch_Parser.thy ===== *)
theory Patch_Parser
  imports Rust_Std
begin

text \<open>
  The parser of the \<open>apply_patch\<close> tool, \<open>codex/apply_patch/parser.rs\<close>. A line is the byte list of
  a \<open>str\<close>; a path is kept as the text of its header. \<open>parse_one_hunk\<close> takes the first line of its
  non-empty slice separately. The theory shows that the parser consumes at least one and at most all of
  the lines it is given (so its loops end and no slice is out of range), what shape every parsed hunk
  has, and that a printed patch parses back to the hunks it was printed from.
\<close>

section \<open>Markers and types\<close>

definition BEGIN_PATCH_MARKER :: string where "BEGIN_PATCH_MARKER = ''*** Begin Patch''"
definition END_PATCH_MARKER :: string where "END_PATCH_MARKER = ''*** End Patch''"
definition ADD_FILE_MARKER :: string where "ADD_FILE_MARKER = ''*** Add File: ''"
definition DELETE_FILE_MARKER :: string where "DELETE_FILE_MARKER = ''*** Delete File: ''"
definition UPDATE_FILE_MARKER :: string where "UPDATE_FILE_MARKER = ''*** Update File: ''"
definition MOVE_TO_MARKER :: string where "MOVE_TO_MARKER = ''*** Move to: ''"
definition EOF_MARKER :: string where "EOF_MARKER = ''*** End of File''"
definition CHANGE_CONTEXT_MARKER :: string where "CHANGE_CONTEXT_MARKER = ''@@ ''"
definition EMPTY_CHANGE_CONTEXT_MARKER :: string where "EMPTY_CHANGE_CONTEXT_MARKER = ''@@''"

lemmas markers = BEGIN_PATCH_MARKER_def END_PATCH_MARKER_def ADD_FILE_MARKER_def
  DELETE_FILE_MARKER_def UPDATE_FILE_MARKER_def MOVE_TO_MARKER_def EOF_MARKER_def
  CHANGE_CONTEXT_MARKER_def EMPTY_CHANGE_CONTEXT_MARKER_def

datatype parse_error =
    InvalidPatchError string
  | InvalidHunkError string nat

record update_file_chunk =
  change_context :: "string option"
  old_lines :: "string list"
  new_lines :: "string list"
  is_end_of_file :: bool

datatype hunk =
    AddFile string string
  | DeleteFile string
  | UpdateFile string "string option" "update_file_chunk list"

record parsed_patch =
  hunks :: "hunk list"
  patch_text :: string

datatype parse_mode = Strict | Lenient

section \<open>Boundaries\<close>

definition check_start_and_end_lines_strict ::
  "string option \<Rightarrow> string option \<Rightarrow> parse_error + unit" where
  "check_start_and_end_lines_strict first_line last_line =
     (case (map_option trim first_line, map_option trim last_line) of
        (Some first, lst) \<Rightarrow>
          (if first = BEGIN_PATCH_MARKER \<and> lst = Some END_PATCH_MARKER then Inr ()
           else if first \<noteq> BEGIN_PATCH_MARKER
           then Inl (InvalidPatchError (''The first line of the patch must be '' @ quoted ''*** Begin Patch''))
           else Inl (InvalidPatchError (''The last line of the patch must be '' @ quoted ''*** End Patch'')))
      | (None, _) \<Rightarrow>
          Inl (InvalidPatchError (''The last line of the patch must be '' @ quoted ''*** End Patch'')))"

definition check_patch_boundaries_strict :: "string list \<Rightarrow> parse_error + unit" where
  "check_patch_boundaries_strict ls =
     (if ls = [] then check_start_and_end_lines_strict None None
      else check_start_and_end_lines_strict (Some (hd ls)) (Some (last ls)))"

definition check_patch_boundaries_lenient ::
  "string list \<Rightarrow> parse_error \<Rightarrow> parse_error + string list" where
  "check_patch_boundaries_lenient original_lines e =
     (if 2 \<le> length original_lines \<and>
         hd original_lines \<in> {''<<EOF'', ''<<'' @ quoted ''EOF'', ''<<'' @ dq # ''EOF'' @ [dq]} \<and>
         ends_with (last original_lines) ''EOF'' \<and> 4 \<le> length original_lines
      then (let inner_lines = butlast (tl original_lines)
            in case check_patch_boundaries_strict inner_lines of
                 Inr _ \<Rightarrow> Inr inner_lines
               | Inl e' \<Rightarrow> Inl e')
      else Inl e)"

section \<open>Hunks\<close>

fun chunk_loop ::
  "string list \<Rightarrow> nat \<Rightarrow> nat \<Rightarrow> update_file_chunk \<Rightarrow> parse_error + update_file_chunk \<times> nat" where
  "chunk_loop [] line_number n chunk = Inr (chunk, n)"
| "chunk_loop (line # ls) line_number n chunk =
     (if line = EOF_MARKER then
        (if n = 0
         then Inl (InvalidHunkError ''Update hunk does not contain any lines'' (line_number + 1))
         else Inr (chunk\<lparr>is_end_of_file := True\<rparr>, n + 1))
      else
        (case line of
           [] \<Rightarrow> chunk_loop ls line_number (n + 1)
                   (chunk\<lparr>old_lines := old_lines chunk @ [[]], new_lines := new_lines chunk @ [[]]\<rparr>)
         | c # rest \<Rightarrow>
             (if c = CHR '' '' then chunk_loop ls line_number (n + 1)
                   (chunk\<lparr>old_lines := old_lines chunk @ [rest], new_lines := new_lines chunk @ [rest]\<rparr>)
              else if c = CHR ''+'' then chunk_loop ls line_number (n + 1)
                   (chunk\<lparr>new_lines := new_lines chunk @ [rest]\<rparr>)
              else if c = CHR ''-'' then chunk_loop ls line_number (n + 1)
                   (chunk\<lparr>old_lines := old_lines chunk @ [rest]\<rparr>)
              else if n = 0 then
                Inl (InvalidHunkError
                  (''Unexpected line found in update hunk: '' @ quoted line @
                   ''. Every line should start with '' @ quoted '' '' @ '' (context line), '' @
                   quoted ''+'' @ '' (added line), or '' @ quoted ''-'' @ '' (removed line)'')
                  (line_number + 1))
              else Inr (chunk, n))))"

definition parse_update_file_chunk ::
  "string list \<Rightarrow> nat \<Rightarrow> bool \<Rightarrow> parse_error + update_file_chunk \<times> nat" where
  "parse_update_file_chunk ls line_number allow_missing_context =
     (case ls of
        [] \<Rightarrow> Inl (InvalidHunkError ''Update hunk does not contain any lines'' line_number)
      | l0 # _ \<Rightarrow>
          (let header =
             (if l0 = EMPTY_CHANGE_CONTEXT_MARKER then Inr (None, 1)
              else (case strip_prefix l0 CHANGE_CONTEXT_MARKER of
                      Some ctx \<Rightarrow> Inr (Some ctx, 1)
                    | None \<Rightarrow>
                        (if \<not> allow_missing_context
                         then Inl (InvalidHunkError
                           (''Expected update hunk to start with a @@ context marker, got: '' @ quoted l0)
                           line_number)
                         else Inr (None, 0))))
           in case header of
                Inl e \<Rightarrow> Inl e
              | Inr (ctx, start_index) \<Rightarrow>
                  (if length ls \<le> start_index
                   then Inl (InvalidHunkError ''Update hunk does not contain any lines'' (line_number + 1))
                   else (case chunk_loop (drop start_index ls) line_number 0
                                \<lparr>change_context = ctx, old_lines = [], new_lines = [], is_end_of_file = False\<rparr> of
                           Inl e \<Rightarrow> Inl e
                         | Inr (chunk, parsed) \<Rightarrow> Inr (chunk, parsed + start_index)))))"

lemma chunk_loop_consumed:
  "chunk_loop ls k n c = Inr (c', m) \<Longrightarrow> n \<le> m \<and> m \<le> n + length ls \<and> (n = 0 \<and> ls \<noteq> [] \<longrightarrow> 0 < m)"
  by (induction ls k n c rule: chunk_loop.induct) (fastforce split: if_splits list.splits)+

lemma chunk_consumed:
  "parse_update_file_chunk ls k a = Inr (c, m) \<Longrightarrow> 0 < m \<and> m \<le> length ls"
  by (auto simp: parse_update_file_chunk_def Let_def split: list.splits if_splits option.splits sum.splits
      dest!: chunk_loop_consumed)

text \<open>The loop over the chunks of an \<open>Update File\<close> hunk.\<close>

function update_chunks ::
  "string list \<Rightarrow> nat \<Rightarrow> nat \<Rightarrow> update_file_chunk list \<Rightarrow>
   parse_error + update_file_chunk list \<times> nat" where
  "update_chunks [] line_number parsed chunks = Inr (chunks, parsed)"
| "update_chunks (l # ls) line_number parsed chunks =
     (if trim l = [] then update_chunks ls line_number (parsed + 1) chunks
      else if starts_with l ''***'' then Inr (chunks, parsed)
      else (case parse_update_file_chunk (l # ls) (line_number + parsed) (chunks = []) of
              Inl e \<Rightarrow> Inl e
            | Inr (chunk, n) \<Rightarrow>
                update_chunks (drop n (l # ls)) line_number (parsed + n) (chunks @ [chunk])))"
  by pat_completeness auto
termination
  by (relation "measure (\<lambda>(ls, _, _, _). length ls)") (auto dest: chunk_consumed)

definition parse_one_hunk :: "string \<Rightarrow> string list \<Rightarrow> nat \<Rightarrow> parse_error + hunk \<times> nat" where
  "parse_one_hunk l0 rest line_number =
     (let first_line = trim l0 in
      case strip_prefix first_line ADD_FILE_MARKER of
        Some path \<Rightarrow>
          (let added = takeWhile (\<lambda>l. starts_with l ''+'') rest
           in Inr (AddFile path (concat (map (\<lambda>l. tl l @ [nl]) added)), 1 + length added))
      | None \<Rightarrow>
        (case strip_prefix first_line DELETE_FILE_MARKER of
           Some path \<Rightarrow> Inr (DeleteFile path, 1)
         | None \<Rightarrow>
           (case strip_prefix first_line UPDATE_FILE_MARKER of
              Some path \<Rightarrow>
                (let move_path =
                       (case rest of [] \<Rightarrow> None | x # _ \<Rightarrow> strip_prefix x MOVE_TO_MARKER);
                     skip = (if move_path = None then 0 else 1)
                 in case update_chunks (drop skip rest) line_number (1 + skip) [] of
                      Inl e \<Rightarrow> Inl e
                    | Inr (chunks, parsed) \<Rightarrow>
                        (if chunks = []
                         then Inl (InvalidHunkError
                                (''Update file hunk for path '' @ quoted path @ '' is empty'') line_number)
                         else Inr (UpdateFile path move_path chunks, parsed)))
            | None \<Rightarrow>
                Inl (InvalidHunkError
                  (quoted first_line @ '' is not a valid hunk header. Valid hunk headers: '' @
                   quoted ''*** Add File: {path}'' @ '', '' @ quoted ''*** Delete File: {path}'' @ '', '' @
                   quoted ''*** Update File: {path}'')
                  line_number))))"

lemma update_chunks_consumed:
  "update_chunks ls k p cs = Inr (cs', m) \<Longrightarrow> p \<le> m \<and> m \<le> p + length ls"
proof (induction ls k p cs rule: update_chunks.induct)
  case (2 l ls k p cs)
  show ?case
  proof (cases "trim l = [] \<or> starts_with l ''***''")
    case True
    with 2 show ?thesis by (auto split: if_splits)
  next
    case False
    then obtain c n where c: "parse_update_file_chunk (l # ls) (k + p) (cs = []) = Inr (c, n)"
      using "2.prems" by (auto split: sum.splits)
    with False "2.IH"(2) [OF _ _ c refl] "2.prems" chunk_consumed [OF c] show ?thesis by auto
  qed
qed simp

lemma parse_one_hunk_consumed:
  "parse_one_hunk l0 rest k = Inr (h, n) \<Longrightarrow> 0 < n \<and> n \<le> Suc (length rest)"
  by (auto simp: parse_one_hunk_def Let_def length_takeWhile_le simp del: update_chunks.simps
      split: option.splits sum.splits list.splits if_splits dest!: update_chunks_consumed)

function parse_hunks :: "string list \<Rightarrow> nat \<Rightarrow> parse_error + hunk list" where
  "parse_hunks [] line_number = Inr []"
| "parse_hunks (l # ls) line_number =
     (case parse_one_hunk l ls line_number of
        Inl e \<Rightarrow> Inl e
      | Inr (h, n) \<Rightarrow>
          (case parse_hunks (drop n (l # ls)) (line_number + n) of
             Inl e \<Rightarrow> Inl e
           | Inr hs \<Rightarrow> Inr (h # hs)))"
  by pat_completeness auto
termination
  by (relation "measure (\<lambda>(ls, _). length ls)") (auto dest: parse_one_hunk_consumed)

definition parse_patch_text :: "string \<Rightarrow> parse_mode \<Rightarrow> parse_error + parsed_patch" where
  "parse_patch_text patch mode =
     (let ls = str_lines (trim patch);
          body = (case check_patch_boundaries_strict ls of
                    Inr _ \<Rightarrow> Inr ls
                  | Inl e \<Rightarrow>
                      (case mode of
                         Strict \<Rightarrow> Inl e
                       | Lenient \<Rightarrow> check_patch_boundaries_lenient ls e))
      in case body of
           Inl e \<Rightarrow> Inl e
         | Inr ls' \<Rightarrow>
             (case parse_hunks (butlast (tl ls')) 2 of
                Inl e \<Rightarrow> Inl e
              | Inr hs \<Rightarrow> Inr \<lparr>hunks = hs, patch_text = join [nl] ls'\<rparr>))"

definition parse_patch :: "string \<Rightarrow> parse_error + parsed_patch" where
  "parse_patch patch = parse_patch_text patch Lenient"

section \<open>The shape of parsed hunks\<close>

definition chunk_shape :: "update_file_chunk \<Rightarrow> bool" where
  "chunk_shape c \<longleftrightarrow> old_lines c \<noteq> [] \<or> new_lines c \<noteq> []"

fun hunk_shape :: "hunk \<Rightarrow> bool" where
  "hunk_shape (AddFile p s) = (s = [] \<or> last s = nl)"
| "hunk_shape (DeleteFile p) = True"
| "hunk_shape (UpdateFile p m cs) = (cs \<noteq> [] \<and> (\<forall>c\<in>set cs. chunk_shape c))"

lemma chunk_loop_shape:
  "chunk_loop ls k n c = Inr (c', m) \<Longrightarrow> 0 < n \<longrightarrow> chunk_shape c \<Longrightarrow> 0 < m \<Longrightarrow> chunk_shape c'"
  by (induction ls k n c rule: chunk_loop.induct) (auto simp: chunk_shape_def split: if_splits list.splits)

lemma chunk_shape_parsed: "parse_update_file_chunk ls k a = Inr (c, m) \<Longrightarrow> chunk_shape c"
proof -
  assume p: "parse_update_file_chunk ls k a = Inr (c, m)"
  then have "\<exists>body ctx n. body \<noteq> [] \<and> chunk_loop body k 0
      \<lparr>change_context = ctx, old_lines = [], new_lines = [], is_end_of_file = False\<rparr> = Inr (c, n)"
    by (auto simp: parse_update_file_chunk_def Let_def simp del: chunk_loop.simps
        split: list.splits if_splits option.splits sum.splits)
  then obtain body ctx n where i: "body \<noteq> []"
    "chunk_loop body k 0
      \<lparr>change_context = ctx, old_lines = [], new_lines = [], is_end_of_file = False\<rparr> = Inr (c, n)"
    by blast
  have "0 < n" using chunk_loop_consumed [OF i(2)] i(1) by auto
  with chunk_loop_shape [OF i(2)] show ?thesis by simp
qed

lemma update_chunks_shape:
  "update_chunks ls k p cs = Inr (cs', m) \<Longrightarrow> \<forall>c\<in>set cs. chunk_shape c \<Longrightarrow> \<forall>c\<in>set cs'. chunk_shape c"
proof (induction ls k p cs rule: update_chunks.induct)
  case (2 l ls k p cs)
  show ?case
  proof (cases "trim l = [] \<or> starts_with l ''***''")
    case True
    with 2 show ?thesis by (auto split: if_splits)
  next
    case False
    then obtain c n where c: "parse_update_file_chunk (l # ls) (k + p) (cs = []) = Inr (c, n)"
      using "2.prems" by (auto split: sum.splits)
    with False "2.IH"(2) [OF _ _ c refl] "2.prems" chunk_shape_parsed [OF c] show ?thesis by auto
  qed
qed simp

lemma parse_one_hunk_shape: "parse_one_hunk l0 rest k = Inr (h, n) \<Longrightarrow> hunk_shape h"
proof -
  have "s = [] \<or> last s = nl" if "s = concat (map (\<lambda>l. tl l @ [nl]) ls)" for s and ls :: "string list"
    using that by (induction ls arbitrary: s rule: rev_induct) auto
  then show "parse_one_hunk l0 rest k = Inr (h, n) \<Longrightarrow> hunk_shape h"
    by (auto simp: parse_one_hunk_def Let_def simp del: update_chunks.simps
        split: option.splits sum.splits if_splits dest!: update_chunks_shape)
qed

lemma parse_hunks_shape: "parse_hunks ls k = Inr hs \<Longrightarrow> \<forall>h\<in>set hs. hunk_shape h"
proof (induction ls k arbitrary: hs rule: parse_hunks.induct)
  case (2 l ls k)
  then obtain h n hs' where h: "parse_one_hunk l ls k = Inr (h, n)"
    "parse_hunks (drop n (l # ls)) (k + n) = Inr hs'" "hs = h # hs'"
    by (auto split: sum.splits)
  with "2.IH" [OF h(1) refl h(2)] parse_one_hunk_shape show ?case by auto
qed simp

lemma boundaries_length: "check_patch_boundaries_strict ls = Inr () \<Longrightarrow> 2 \<le> length ls"
  by (cases ls; cases "tl ls")
     (auto simp: check_patch_boundaries_strict_def check_start_and_end_lines_strict_def markers
        Suc_le_eq split: if_splits)

section \<open>Printing patches\<close>

definition render_chunk :: "update_file_chunk \<Rightarrow> string list" where
  "render_chunk c =
     (case change_context c of
        None \<Rightarrow> EMPTY_CHANGE_CONTEXT_MARKER
      | Some ctx \<Rightarrow> CHANGE_CONTEXT_MARKER @ ctx) #
     map ((#) CHR ''-'') (old_lines c) @ map ((#) CHR ''+'') (new_lines c) @
     (if is_end_of_file c then [EOF_MARKER] else [])"

fun render_hunk :: "hunk \<Rightarrow> string list" where
  "render_hunk (AddFile p s) = (ADD_FILE_MARKER @ p) # map ((#) CHR ''+'') (butlast (split_on nl s))"
| "render_hunk (DeleteFile p) = [DELETE_FILE_MARKER @ p]"
| "render_hunk (UpdateFile p m cs) =
     (UPDATE_FILE_MARKER @ p) # (case m of None \<Rightarrow> [] | Some q \<Rightarrow> [MOVE_TO_MARKER @ q]) @
     concat (map render_chunk cs)"

definition render_lines :: "hunk list \<Rightarrow> string list" where
  "render_lines hs = BEGIN_PATCH_MARKER # concat (map render_hunk hs) @ [END_PATCH_MARKER]"

definition render :: "hunk list \<Rightarrow> string" where
  "render hs = join [nl] (render_lines hs)"

definition wf_path :: "string \<Rightarrow> bool" where
  "wf_path p \<longleftrightarrow> p \<noteq> [] \<and> line_ok p \<and> trim_end p = p"

definition wf_chunk :: "update_file_chunk \<Rightarrow> bool" where
  "wf_chunk c \<longleftrightarrow>
     chunk_shape c \<and> (\<forall>l\<in>set (old_lines c) \<union> set (new_lines c). line_ok l) \<and>
     (case change_context c of None \<Rightarrow> True | Some l \<Rightarrow> line_ok l)"

fun wf_hunk :: "hunk \<Rightarrow> bool" where
  "wf_hunk (AddFile p s) = (wf_path p \<and> cr \<notin> set s \<and> (s = [] \<or> last s = nl))"
| "wf_hunk (DeleteFile p) = wf_path p"
| "wf_hunk (UpdateFile p m cs) =
     (wf_path p \<and> (case m of None \<Rightarrow> True | Some q \<Rightarrow> line_ok q) \<and> cs \<noteq> [] \<and> (\<forall>c\<in>set cs. wf_chunk c))"

section \<open>Parsing what was printed\<close>

text \<open>A line that ends a chunk: the header of the next chunk or of the next hunk.\<close>

definition stops :: "string list \<Rightarrow> bool" where
  "stops ls \<longleftrightarrow>
     (case ls of
        [] \<Rightarrow> True
      | l # _ \<Rightarrow> l \<noteq> EOF_MARKER \<and> (case l of [] \<Rightarrow> False | c # _ \<Rightarrow> c \<in> {CHR ''@'', CHR ''*''}))"

definition header_next :: "string list \<Rightarrow> bool" where
  "header_next ls \<longleftrightarrow>
     (case ls of [] \<Rightarrow> True | l # _ \<Rightarrow> l \<noteq> EOF_MARKER \<and> \<not> starts_with l MOVE_TO_MARKER \<and> starts_with l ''***'')"

lemma header_next_stops: "header_next ls \<Longrightarrow> stops ls"
  by (auto simp: header_next_def stops_def prefix_def split: list.splits)

lemma chunk_loop_minus:
  "chunk_loop (map ((#) CHR ''-'') os @ ls) k n c =
   chunk_loop ls k (n + length os) (c\<lparr>old_lines := old_lines c @ os\<rparr>)"
  by (induction os arbitrary: n c) (simp_all add: EOF_MARKER_def)

lemma chunk_loop_plus:
  "chunk_loop (map ((#) CHR ''+'') ns @ ls) k n c =
   chunk_loop ls k (n + length ns) (c\<lparr>new_lines := new_lines c @ ns\<rparr>)"
  by (induction ns arbitrary: n c) (simp_all add: EOF_MARKER_def)

lemma chunk_loop_stop: "stops ls \<Longrightarrow> 0 < n \<Longrightarrow> chunk_loop ls k n c = Inr (c, n)"
  by (cases ls) (auto simp: stops_def split: list.splits)

lemma parse_chunk_header:
  assumes "body \<noteq> []"
  shows "parse_update_file_chunk
      ((case ctx of None \<Rightarrow> EMPTY_CHANGE_CONTEXT_MARKER | Some x \<Rightarrow> CHANGE_CONTEXT_MARKER @ x) # body) k a =
    (case chunk_loop body k 0
        \<lparr>change_context = ctx, old_lines = [], new_lines = [], is_end_of_file = False\<rparr> of
       Inl e \<Rightarrow> Inl e | Inr (c, n) \<Rightarrow> Inr (c, n + Suc 0))"
proof (cases ctx)
  case None
  with assms show ?thesis by (cases body) (simp_all add: parse_update_file_chunk_def del: chunk_loop.simps)
next
  case (Some x)
  have "CHANGE_CONTEXT_MARKER @ x \<noteq> EMPTY_CHANGE_CONTEXT_MARKER" by (simp add: markers)
  with Some assms show ?thesis
    by (cases body) (simp_all add: parse_update_file_chunk_def del: chunk_loop.simps)
qed

lemma chunk_loop_render:
  assumes "chunk_shape c" and "stops rest"
  shows "chunk_loop (tl (render_chunk c) @ rest) k 0
      \<lparr>change_context = change_context c, old_lines = [], new_lines = [], is_end_of_file = False\<rparr> =
    Inr (c, length (tl (render_chunk c)))"
proof -
  have n: "0 < length (old_lines c) + length (new_lines c)"
    using assms(1) by (auto simp: chunk_shape_def)
  show ?thesis
  proof (cases "is_end_of_file c")
    case True
    with n show ?thesis by (simp add: render_chunk_def chunk_loop_minus chunk_loop_plus)
  next
    case False
    with n assms(2) show ?thesis
      by (simp add: render_chunk_def chunk_loop_minus chunk_loop_plus chunk_loop_stop del: chunk_loop.simps)
  qed
qed

lemma parse_render_chunk:
  assumes "chunk_shape c" and "stops rest"
  shows "parse_update_file_chunk (render_chunk c @ rest) k a = Inr (c, length (render_chunk c))"
proof -
  have "tl (render_chunk c) @ rest \<noteq> []" using assms(1) by (auto simp: render_chunk_def chunk_shape_def)
  from parse_chunk_header [OF this, of "change_context c" k a] chunk_loop_render [OF assms, of k]
  show ?thesis by (simp add: render_chunk_def del: chunk_loop.simps)
qed

lemma trim_nonempty: "l \<noteq> [] \<Longrightarrow> hd l \<notin> ws_bytes \<Longrightarrow> trim l \<noteq> []"
  using trim_keeps [of "hd l" l] by (cases l) auto

lemma ascii_not_ws: "CHR ''@'' \<notin> ws_bytes" "CHR ''*'' \<notin> ws_bytes" "CHR ''h'' \<notin> ws_bytes"
  "CHR ''F'' \<notin> ws_bytes"
  by (simp_all add: ws_bytes_def ws_seqs_def)

lemma trim_marker [simp]: "trim (CHR ''@'' # l) \<noteq> []" "trim (CHR ''*'' # l) \<noteq> []"
  by (rule trim_nonempty, simp_all add: ascii_not_ws)+

lemma render_chunk_head:
  "\<exists>l ls. render_chunk c = l # ls \<and> trim l \<noteq> [] \<and> \<not> starts_with l ''***'' \<and> stops (l # ls')"
  by (auto simp: render_chunk_def stops_def markers split: option.splits)

lemma stops_chunks:
  assumes "stops rest"
  shows "stops (concat (map render_chunk cs) @ rest)"
proof (cases cs)
  case (Cons c cs')
  obtain l ls where l: "render_chunk c = l # ls" "stops (l # ls')" for ls'
    using render_chunk_head [of c] by (metis list.inject)
  with Cons show ?thesis by simp
qed (use assms in simp)

lemma update_chunks_render:
  assumes "\<forall>c\<in>set cs. chunk_shape c" and "header_next rest"
  shows "update_chunks (concat (map render_chunk cs) @ rest) k p acc =
    Inr (acc @ cs, p + length (concat (map render_chunk cs)))"
  using assms
proof (induction cs arbitrary: p acc)
  case Nil
  then show ?case
    by (cases rest) (auto simp: header_next_def prefix_def)
next
  case (Cons c cs)
  let ?r = "concat (map render_chunk cs) @ rest"
  obtain l ls where l: "render_chunk c = l # ls" "trim l \<noteq> []" "\<not> starts_with l ''***''"
    using render_chunk_head by blast
  have "stops ?r" using Cons.prems(2) by (intro stops_chunks header_next_stops)
  then have "parse_update_file_chunk (l # ls @ ?r) (k + p) (acc = []) = Inr (c, Suc (length ls))"
    using parse_render_chunk [of c ?r] Cons.prems(1) l(1) by simp
  with l Cons.IH [of "p + Suc (length ls)" "acc @ [c]"] Cons.prems show ?case by simp
qed

lemma header_trim: "wf_path p \<Longrightarrow> m \<in> {ADD_FILE_MARKER, DELETE_FILE_MARKER, UPDATE_FILE_MARKER} \<Longrightarrow> trim (m @ p) = m @ p"
proof -
  assume p: "wf_path p" and m: "m \<in> {ADD_FILE_MARKER, DELETE_FILE_MARKER, UPDATE_FILE_MARKER}"
  have "trim_start (m @ p) = m @ p" using m by (intro trim_start_id) (auto simp: markers ws_leads_def)
  moreover have "trim_end (m @ p) = m @ p"
    using p m by (intro trim_end_append) (auto simp: wf_path_def markers ascii_def)
  ultimately show ?thesis by (simp add: trim_def)
qed

lemma strip_distinct_markers [simp]:
  "strip_prefix (DELETE_FILE_MARKER @ p) ADD_FILE_MARKER = None"
  "strip_prefix (UPDATE_FILE_MARKER @ p) ADD_FILE_MARKER = None"
  "strip_prefix (UPDATE_FILE_MARKER @ p) DELETE_FILE_MARKER = None"
  by (simp_all add: strip_prefix_def markers)

lemma concat_lines:
  "s = [] \<or> last s = nl \<Longrightarrow> concat (map (\<lambda>l. l @ [nl]) (butlast (split_on nl s))) = s"
proof -
  have *: "concat (map (\<lambda>l. l @ [nl]) (butlast ps)) @ last ps = join [nl] ps" if "ps \<noteq> []" for ps
    using that by (induction "[nl]" ps rule: join.induct) auto
  assume s: "s = [] \<or> last s = nl"
  have "last (split_on nl s) = []"
  proof (cases "last (split_on nl s) = []")
    case False
    then have "last s = last (last (split_on nl s))"
      using * [of "split_on nl s"] by (metis join_split_on last_appendR split_on_nonempty)
    moreover have "nl \<notin> set (last (split_on nl s))" by (rule split_on_no_sep [of _ _ s]) simp
    moreover have "s \<noteq> []" using False by auto
    ultimately show ?thesis using s False by (metis last_in_set)
  qed simp
  with * [of "split_on nl s"] show ?thesis by simp
qed

lemma header_next_no_plus: "header_next rest \<Longrightarrow> rest = [] \<or> \<not> starts_with (hd rest) ''+''"
  by (auto simp: header_next_def prefix_def split: list.splits)

lemma parse_render_hunk:
  assumes "wf_hunk h" and "header_next rest"
  shows "parse_one_hunk (hd (render_hunk h)) (tl (render_hunk h) @ rest) k = Inr (h, length (render_hunk h))"
proof (cases h)
  case (AddFile p s)
  let ?ls = "butlast (split_on nl s)"
  have "takeWhile (\<lambda>l. starts_with l ''+'') (map ((#) CHR ''+'') ?ls @ rest) = map ((#) CHR ''+'') ?ls"
    using header_next_no_plus [OF assms(2)] by (intro takeWhile_append_stop) auto
  moreover have "concat (map ((\<lambda>l. tl l @ [nl]) \<circ> (#) CHR ''+'') ?ls) = s"
    using concat_lines assms(1) AddFile by (simp add: comp_def)
  ultimately show ?thesis
    using assms(1) AddFile by (simp add: parse_one_hunk_def header_trim Let_def)
next
  case (DeleteFile p)
  with assms(1) show ?thesis by (simp add: parse_one_hunk_def header_trim Let_def)
next
  case (UpdateFile p m cs)
  have cs: "cs \<noteq> []" "\<forall>c\<in>set cs. chunk_shape c" using assms(1) UpdateFile by (auto simp: wf_chunk_def)
  obtain c cs' where "cs = c # cs'" using cs(1) by (cases cs) auto
  then have "strip_prefix (hd (concat (map render_chunk cs) @ rest)) MOVE_TO_MARKER = None"
    by (auto simp: render_chunk_def strip_prefix_def markers split: option.splits)
  moreover have "concat (map render_chunk cs) \<noteq> []" using \<open>cs = c # cs'\<close> by (simp add: render_chunk_def)
  ultimately show ?thesis
    using assms UpdateFile cs update_chunks_render [OF cs(2) assms(2)]
    by (cases m; cases "concat (map render_chunk cs) @ rest")
       (simp_all add: parse_one_hunk_def header_trim Let_def del: update_chunks.simps)
qed

lemma header_next_hunks: "header_next (concat (map render_hunk hs))"
proof (cases hs)
  case (Cons h hs')
  then show ?thesis by (cases h) (auto simp: header_next_def markers)
qed (simp add: header_next_def)

lemma parse_hunks_render: "\<forall>h\<in>set hs. wf_hunk h \<Longrightarrow> parse_hunks (concat (map render_hunk hs)) k = Inr hs"
proof (induction hs arbitrary: k)
  case (Cons h hs)
  obtain l ls where l: "render_hunk h = l # ls" by (cases h) auto
  have "parse_one_hunk l (ls @ concat (map render_hunk hs)) k = Inr (h, Suc (length ls))"
    using parse_render_hunk [of h "concat (map render_hunk hs)" k] Cons.prems header_next_hunks l by simp
  with Cons l show ?case by simp
qed simp

lemma line_ok_Cons [simp]: "line_ok (c # l) \<longleftrightarrow> c \<noteq> nl \<and> c \<noteq> cr \<and> line_ok l"
  by (auto simp: line_ok_def)

lemma line_ok_append [simp]: "line_ok (l @ m) \<longleftrightarrow> line_ok l \<and> line_ok m"
  by (auto simp: line_ok_def)

lemma line_ok_Nil [simp]: "line_ok []"
  by (simp add: line_ok_def)

lemma line_ok_markers [simp]: "line_ok BEGIN_PATCH_MARKER" "line_ok END_PATCH_MARKER"
  "line_ok ADD_FILE_MARKER" "line_ok DELETE_FILE_MARKER" "line_ok UPDATE_FILE_MARKER"
  "line_ok MOVE_TO_MARKER" "line_ok EOF_MARKER" "line_ok CHANGE_CONTEXT_MARKER"
  "line_ok EMPTY_CHANGE_CONTEXT_MARKER"
  by (simp_all add: markers)

lemma line_ok_render_chunk: "wf_chunk c \<Longrightarrow> \<forall>l\<in>set (render_chunk c). line_ok l"
  by (auto simp: render_chunk_def wf_chunk_def split: option.splits)

lemma split_lines_ok: "cr \<notin> set s \<Longrightarrow> l \<in> set (split_on nl s) \<Longrightarrow> line_ok l"
proof -
  assume "cr \<notin> set s" and l: "l \<in> set (split_on nl s)"
  moreover have "set l \<subseteq> set s"
    using l by (induction s arbitrary: l) (auto split: if_splits list.splits, fastforce+)
  ultimately show ?thesis using split_on_no_sep [OF l] by (auto simp: line_ok_def)
qed

lemma line_ok_render_hunk: "wf_hunk h \<Longrightarrow> \<forall>l\<in>set (render_hunk h). line_ok l"
proof (cases h)
  case (AddFile p s)
  assume "wf_hunk h"
  with AddFile show ?thesis by (auto simp: wf_path_def split_lines_ok dest: in_set_butlastD)
next
  case (UpdateFile p m cs)
  assume "wf_hunk h"
  with UpdateFile line_ok_render_chunk show ?thesis by (auto simp: wf_path_def split: option.splits)
qed (auto simp: wf_path_def)

lemma render_lines_ok: "\<forall>h\<in>set hs. wf_hunk h \<Longrightarrow> \<forall>l\<in>set (render_lines hs). line_ok l"
  using line_ok_render_hunk by (auto simp: render_lines_def)

lemma trim_id: "s \<noteq> [] \<Longrightarrow> hd s \<notin> ws_leads \<Longrightarrow> last s \<notin> ws_bytes \<Longrightarrow> trim s = s"
  by (simp add: trim_def trim_start_id trim_end_id)

lemma last_join: "ls \<noteq> [] \<Longrightarrow> last ls \<noteq> [] \<Longrightarrow> last (join [nl] ls) = last (last ls) \<and> join [nl] ls \<noteq> []"
  by (induction "[nl]" ls rule: join.induct) auto

lemma hd_join: "ls \<noteq> [] \<Longrightarrow> hd ls \<noteq> [] \<Longrightarrow> hd (join [nl] ls) = hd (hd ls)"
  by (cases "([nl], ls)" rule: join.cases) auto

lemma trim_marker_lines [simp]: "trim BEGIN_PATCH_MARKER = BEGIN_PATCH_MARKER" "trim END_PATCH_MARKER = END_PATCH_MARKER"
  by (rule trim_id; simp add: markers ws_leads_def ascii_not_ws)+

lemma boundaries_render: "check_patch_boundaries_strict (render_lines hs) = Inr ()"
  by (simp add: check_patch_boundaries_strict_def check_start_and_end_lines_strict_def render_lines_def)

lemma lines_of_joined:
  assumes "\<forall>l\<in>set ls. line_ok l" "ls \<noteq> []" "hd ls \<noteq> []" "last ls \<noteq> []"
    and "hd (hd ls) \<notin> ws_leads" "last (last ls) \<notin> ws_bytes"
  shows "str_lines (trim (join [nl] ls)) = ls"
  using assms last_join [of ls] hd_join [of ls] by (simp add: trim_id str_lines_join)

lemma join_snoc: "ls \<noteq> [] \<Longrightarrow> join sep (ls @ [l]) = join sep ls @ sep @ l"
  by (induction sep ls rule: join.induct) auto

lemma heredoc_not_begin: "trim ''<<EOF'' \<noteq> BEGIN_PATCH_MARKER"
  by (subst trim_id) (simp_all add: markers ws_leads_def ascii_not_ws)

section \<open>Properties of the parser\<close>

text \<open>C31: A patch printed from well-formed hunks (paths without trailing white space, lines without line
  breaks, non-empty chunks) parses to exactly these hunks, also when it is wrapped in a here-document.\<close>

theorem patch_roundtrip:
  assumes "\<forall>h\<in>set hs. wf_hunk h"
  shows "parse_patch (render hs) = Inr \<lparr>hunks = hs, patch_text = render hs\<rparr> \<and>
         parse_patch (''<<EOF'' @ [nl] @ render hs @ [nl] @ ''EOF'') =
           Inr \<lparr>hunks = hs, patch_text = render hs\<rparr>"
proof
  have body: "parse_hunks (butlast (tl (render_lines hs))) 2 = Inr hs"
    using parse_hunks_render [OF assms] by (simp add: render_lines_def)
  have ok: "\<forall>l\<in>set (render_lines hs). line_ok l" by (rule render_lines_ok [OF assms])
  have "str_lines (trim (render hs)) = render_lines hs"
    unfolding render_def using ok
    by (rule lines_of_joined) (simp_all add: render_lines_def markers ws_leads_def ascii_not_ws)
  then show "parse_patch (render hs) = Inr \<lparr>hunks = hs, patch_text = render hs\<rparr>"
    using body boundaries_render [of hs] by (simp add: parse_patch_def parse_patch_text_def render_def Let_def)
  have ne: "render_lines hs \<noteq> []" and two: "2 \<le> length (render_lines hs)"
    by (simp_all add: render_lines_def)
  let ?ls = "''<<EOF'' # render_lines hs @ [''EOF'']"
  have "join [nl] ?ls = ''<<EOF'' @ [nl] @ render hs @ [nl] @ ''EOF''"
    using join_snoc [of "render_lines hs" "[nl]" "''EOF''"] ne by (simp add: render_def join_Cons)
  moreover have "str_lines (trim (join [nl] ?ls)) = ?ls"
    using ok by (intro lines_of_joined) (auto simp: ws_leads_def ascii_not_ws)
  moreover have "check_patch_boundaries_strict ?ls =
      Inl (InvalidPatchError (''The first line of the patch must be '' @ quoted ''*** Begin Patch''))"
    by (simp add: check_patch_boundaries_strict_def check_start_and_end_lines_strict_def heredoc_not_begin)
  moreover have "check_patch_boundaries_lenient ?ls e = Inr (render_lines hs)" for e
    using boundaries_render [of hs] ne two by (simp add: check_patch_boundaries_lenient_def Let_def)
  ultimately show "parse_patch (''<<EOF'' @ [nl] @ render hs @ [nl] @ ''EOF'') =
      Inr \<lparr>hunks = hs, patch_text = render hs\<rparr>"
    using body by (simp add: parse_patch_def parse_patch_text_def render_def Let_def)
qed

definition example_hunks :: "hunk list" where
  "example_hunks =
     [AddFile ''a.txt'' (''one'' @ [nl]), DeleteFile ''b.txt'',
      UpdateFile ''c.txt'' (Some ''d.txt'')
        [\<lparr>change_context = Some ''fn f'', old_lines = [''x''], new_lines = [''y'', []],
          is_end_of_file = True\<rparr>]]"

theorem patch_roundtrip_witness:
  "parse_patch (render example_hunks) = Inr \<lparr>hunks = example_hunks, patch_text = render example_hunks\<rparr>"
proof -
  have "trim_end ''a.txt'' = ''a.txt''" "trim_end ''b.txt'' = ''b.txt''" "trim_end ''c.txt'' = ''c.txt''"
    by (rule trim_end_id; simp add: ws_bytes_def ws_seqs_def)+
  then have "\<forall>h\<in>set example_hunks. wf_hunk h"
    by (simp add: example_hunks_def wf_path_def wf_chunk_def chunk_shape_def line_ok_def)
  from patch_roundtrip [OF this] show ?thesis by simp
qed

text \<open>Whatever text is parsed, every resulting update has at least one chunk, every chunk adds,
  removes or keeps at least one line, and the contents of an added file are empty or end in a newline.\<close>

theorem parse_patch_shape:
  assumes "parse_patch s = Inr p" and "h \<in> set (hunks p)"
  shows "hunk_shape h"
proof -
  obtain ls where "parse_hunks ls 2 = Inr (hunks p)"
    using assms(1)
    by (auto simp: parse_patch_def parse_patch_text_def Let_def split: sum.splits)
  with parse_hunks_shape assms(2) show ?thesis by blast
qed

definition example_update :: hunk where
  "example_update = UpdateFile ''f'' None
     [\<lparr>change_context = None, old_lines = [''x''], new_lines = [''x''], is_end_of_file = False\<rparr>]"

definition example_update_text :: string where
  "example_update_text =
     join [nl] [''*** Begin Patch'', ''*** Update File: f'', '' x'', ''*** End Patch'']"

theorem parse_patch_shape_witness: "hunk_shape example_update"
proof (rule parse_patch_shape)
  show "parse_patch example_update_text =
      Inr \<lparr>hunks = [example_update], patch_text = example_update_text\<rparr>"
    by code_simp
qed simp

end
