(* ===== verification/Patch_Apply.thy ===== *)
theory Patch_Apply
  imports Patch_Parser
begin

text \<open>
  Applying parsed chunks to the text of a file: \<open>seek_sequence.rs\<close> (finding lines with decreasing
  strictness) and \<open>apply.rs\<close> (from chunks to replacements to new contents). \<open>Vec::insert\<close> panics
  beyond the end, which is the fault \<open>Panic\<close>. The text \<open>diagnostics.rs\<close> appends to error messages is
  an argument \<open>diag\<close>. The locale \<open>line_seeker\<close> is what \<open>compute_replacements\<close> relies on of the
  search; \<open>seek_sequence\<close> is its interpretation.
\<close>

section \<open>seek\_sequence.rs\<close>

definition norm_table :: "(string \<times> char) list" where
  "norm_table =
     map (\<lambda>b. ([CHR 0xE2, CHR 0x80, b], CHR ''-''))
       [CHR 0x90, CHR 0x91, CHR 0x92, CHR 0x93, CHR 0x94, CHR 0x95] @
     [([CHR 0xE2, CHR 0x88, CHR 0x92], CHR ''-'')] @
     map (\<lambda>b. ([CHR 0xE2, CHR 0x80, b], sq)) [CHR 0x98, CHR 0x99, CHR 0x9A, CHR 0x9B] @
     map (\<lambda>b. ([CHR 0xE2, CHR 0x80, b], dq)) [CHR 0x9C, CHR 0x9D, CHR 0x9E, CHR 0x9F] @
     [([CHR 0xC2, CHR 0xA0], CHR '' '')] @
     map (\<lambda>b. ([CHR 0xE2, CHR 0x80, b], CHR '' ''))
       [CHR 0x82, CHR 0x83, CHR 0x84, CHR 0x85, CHR 0x86, CHR 0x87, CHR 0x88, CHR 0x89, CHR 0x8A, CHR 0xAF] @
     [([CHR 0xE2, CHR 0x81, CHR 0x9F], CHR '' ''), ([CHR 0xE3, CHR 0x80, CHR 0x80], CHR '' '')]"

lemma norm_table_nonempty: "List.find P norm_table = Some (w, r) \<Longrightarrow> 0 < length w"
  by (auto simp: norm_table_def find_Some_iff dest!: nth_mem split: if_splits)

function norm_chars :: "string \<Rightarrow> string" where
  "norm_chars [] = []"
| "norm_chars (c # s) =
     (case List.find (\<lambda>(w, r). prefix w (c # s)) norm_table of
        Some (w, r) \<Rightarrow> r # norm_chars (drop (length w) (c # s))
      | None \<Rightarrow> c # norm_chars s)"
  by pat_completeness auto
termination
  by (relation "measure length") (auto dest: norm_table_nonempty)

definition normalise :: "string \<Rightarrow> string" where
  "normalise s = norm_chars (trim s)"

fun all_match :: "(string \<Rightarrow> string) \<Rightarrow> string list \<Rightarrow> nat \<Rightarrow> string list \<Rightarrow> bool" where
  "all_match f ls i [] = True"
| "all_match f ls i (pat # pats) = (f (ls ! i) = f pat \<and> all_match f ls (Suc i) pats)"

definition seek_pass :: "(nat \<Rightarrow> bool) \<Rightarrow> nat \<Rightarrow> nat \<Rightarrow> nat option" where
  "seek_pass matches first_i last_i = List.find matches [first_i ..< Suc last_i]"

definition seek_sequence :: "string list \<Rightarrow> string list \<Rightarrow> nat \<Rightarrow> bool \<Rightarrow> nat option" where
  "seek_sequence ls pattern start eof =
     (if pattern = [] then Some start
      else if length ls < length pattern then None
      else
        (let search_start =
               (if eof \<and> length pattern \<le> length ls then length ls - length pattern else start);
             final = length ls - length pattern
         in case seek_pass (\<lambda>i. take (length pattern) (drop i ls) = pattern) search_start final of
              Some i \<Rightarrow> Some i
            | None \<Rightarrow>
            (case seek_pass (\<lambda>i. all_match trim_end ls i pattern) search_start final of
               Some i \<Rightarrow> Some i
             | None \<Rightarrow>
             (case seek_pass (\<lambda>i. all_match trim ls i pattern) search_start final of
                Some i \<Rightarrow> Some i
              | None \<Rightarrow> seek_pass (\<lambda>i. all_match normalise ls i pattern) search_start final))))"

section \<open>apply.rs\<close>

type_synonym replacement = "nat \<times> nat \<times> string list"

type_synonym diagnose = "string list \<Rightarrow> string list \<Rightarrow> string \<Rightarrow> nat \<Rightarrow> string"

datatype apply_patch_error = Parse parse_error | ComputeReplacements string

datatype fault = Panic | Fault apply_patch_error

definition seek_context ::
  "(string list \<Rightarrow> string list \<Rightarrow> nat \<Rightarrow> bool \<Rightarrow> nat option) \<Rightarrow> string list \<Rightarrow> nat \<Rightarrow>
   update_file_chunk \<Rightarrow> nat option" where
  "seek_context seek ls line_index chunk =
     (case change_context chunk of
        None \<Rightarrow> Some line_index
      | Some ctx_line \<Rightarrow> map_option Suc (seek ls [ctx_line] line_index False))"

definition ends_empty :: "string list \<Rightarrow> bool" where
  "ends_empty ls \<longleftrightarrow> ls \<noteq> [] \<and> last ls = []"

definition insertion_idx :: "string list \<Rightarrow> nat" where
  "insertion_idx ls = (if ends_empty ls then length ls - 1 else length ls)"

definition locate ::
  "(string list \<Rightarrow> string list \<Rightarrow> nat \<Rightarrow> bool \<Rightarrow> nat option) \<Rightarrow> string list \<Rightarrow> nat \<Rightarrow>
   update_file_chunk \<Rightarrow> replacement option" where
  "locate seek ls line_index chunk =
     (let pattern = old_lines chunk; new_slice = new_lines chunk
      in case seek ls pattern line_index (is_end_of_file chunk) of
           Some start_idx \<Rightarrow> Some (start_idx, length pattern, new_slice)
         | None \<Rightarrow>
             (if ends_empty pattern then
                (let pattern' = butlast pattern;
                     new_slice' = (if ends_empty new_slice then butlast new_slice else new_slice)
                 in map_option (\<lambda>start_idx. (start_idx, length pattern', new_slice'))
                      (seek ls pattern' line_index (is_end_of_file chunk)))
              else None))"

fun compute_loop ::
  "(string list \<Rightarrow> string list \<Rightarrow> nat \<Rightarrow> bool \<Rightarrow> nat option) \<Rightarrow> diagnose \<Rightarrow> string list \<Rightarrow> string \<Rightarrow> nat \<Rightarrow>
   update_file_chunk list \<Rightarrow> apply_patch_error + replacement list" where
  "compute_loop seek diag ls path line_index [] = Inr []"
| "compute_loop seek diag ls path line_index (chunk # chunks) =
     (case seek_context seek ls line_index chunk of
        None \<Rightarrow>
          (let ctx_line = the (change_context chunk)
           in Inl (ComputeReplacements
                (''Failed to find context '' @ quoted ctx_line @ '' in '' @ path @ [nl, nl] @
                 diag ls [ctx_line] path line_index)))
      | Some line_index' \<Rightarrow>
          (if old_lines chunk = [] then
             map_sum id ((#) (insertion_idx ls, 0, new_lines chunk))
               (compute_loop seek diag ls path line_index' chunks)
           else
             (case locate seek ls line_index' chunk of
                Some (start_idx, len, new_slice) \<Rightarrow>
                  map_sum id ((#) (start_idx, len, new_slice))
                    (compute_loop seek diag ls path (start_idx + len) chunks)
              | None \<Rightarrow>
                  Inl (ComputeReplacements
                    (''Failed to find expected lines in '' @ path @ '':'' @ [nl] @
                     join [nl] (old_lines chunk) @ [nl, nl] @
                     diag ls (old_lines chunk) path line_index')))))"

definition compute_replacements ::
  "diagnose \<Rightarrow> string list \<Rightarrow> string \<Rightarrow> update_file_chunk list \<Rightarrow>
   apply_patch_error + replacement list" where
  "compute_replacements diag ls path chunks =
     map_sum id (sort_key fst) (compute_loop seek_sequence diag ls path 0 chunks)"

fun remove_lines :: "nat \<Rightarrow> nat \<Rightarrow> string list \<Rightarrow> string list" where
  "remove_lines start_idx 0 ls = ls"
| "remove_lines start_idx (Suc n) ls =
     remove_lines start_idx n
       (if start_idx < length ls then take start_idx ls @ drop (Suc start_idx) ls else ls)"

definition vec_insert :: "nat \<Rightarrow> 'a \<Rightarrow> 'a list \<Rightarrow> 'a list option" where
  "vec_insert i x ls = (if i \<le> length ls then Some (take i ls @ x # drop i ls) else None)"

fun insert_lines :: "nat \<Rightarrow> string list \<Rightarrow> string list \<Rightarrow> string list option" where
  "insert_lines i [] ls = Some ls"
| "insert_lines i (x # xs) ls = Option.bind (vec_insert i x ls) (insert_lines (Suc i) xs)"

fun apply_loop :: "replacement list \<Rightarrow> string list \<Rightarrow> string list option" where
  "apply_loop [] ls = Some ls"
| "apply_loop ((start_idx, old_len, new_segment) # rs) ls =
     Option.bind (insert_lines start_idx new_segment (remove_lines start_idx old_len ls))
       (apply_loop rs)"

definition apply_replacements :: "string list \<Rightarrow> replacement list \<Rightarrow> string list option" where
  "apply_replacements ls replacements = apply_loop (rev replacements) ls"

definition content_lines :: "string \<Rightarrow> string list" where
  "content_lines content =
     (let ls = split_on nl content in if ends_empty ls then butlast ls else ls)"

definition finish_lines :: "string list \<Rightarrow> string" where
  "finish_lines ls = join [nl] (if ends_empty ls then ls else ls @ [[]])"

definition derive_new_contents ::
  "diagnose \<Rightarrow> string \<Rightarrow> string \<Rightarrow> update_file_chunk list \<Rightarrow> fault + string" where
  "derive_new_contents diag original_content path chunks =
     (let original_lines = content_lines original_content
      in case compute_replacements diag original_lines path chunks of
           Inl e \<Rightarrow> Inl (Fault e)
         | Inr replacements \<Rightarrow>
             (case apply_replacements original_lines replacements of
                None \<Rightarrow> Inl Panic
              | Some ls \<Rightarrow> Inr (finish_lines ls)))"

text \<open>The reference: one pass over the file, copying what lies between replacements.\<close>

fun splice :: "nat \<Rightarrow> replacement list \<Rightarrow> string list \<Rightarrow> string list" where
  "splice pos [] ls = drop pos ls"
| "splice pos ((s, n, new) # rs) ls = take (s - pos) (drop pos ls) @ new @ splice (s + n) rs ls"

fun disjoint :: "nat \<Rightarrow> replacement list \<Rightarrow> nat \<Rightarrow> bool" where
  "disjoint pos [] len = (pos \<le> len)"
| "disjoint pos ((s, n, new) # rs) len = (pos \<le> s \<and> disjoint (s + n) rs len)"

section \<open>What the search finds\<close>

definition window :: "(string \<Rightarrow> string) \<Rightarrow> string list \<Rightarrow> string list \<Rightarrow> nat \<Rightarrow> bool" where
  "window f ls pattern i \<longleftrightarrow> map f (take (length pattern) (drop i ls)) = map f pattern"

definition strictness :: "(string \<Rightarrow> string) list" where
  "strictness = [id, trim_end, trim, normalise]"

lemma all_match_window:
  "i + length pattern \<le> length ls \<Longrightarrow> all_match f ls i pattern \<longleftrightarrow> window f ls pattern i"
proof (induction pattern arbitrary: i)
  case (Cons p ps)
  then have "drop i ls = ls ! i # drop (Suc i) ls" by (simp add: Cons_nth_drop_Suc)
  with Cons show ?case by (simp add: window_def)
qed (simp add: window_def)

definition search_start :: "string list \<Rightarrow> string list \<Rightarrow> nat \<Rightarrow> bool \<Rightarrow> nat" where
  "search_start ls pattern start eof = (if eof then length ls - length pattern else start)"

definition seek_ranked :: "string list \<Rightarrow> string list \<Rightarrow> nat \<Rightarrow> (string \<Rightarrow> string) \<Rightarrow> nat option" where
  "seek_ranked ls pattern a f = List.find (window f ls pattern) [a ..< Suc (length ls - length pattern)]"

lemma seek_pass_window:
  assumes "length pattern \<le> length ls"
  shows "seek_pass (\<lambda>i. all_match f ls i pattern) a (length ls - length pattern) = seek_ranked ls pattern a f"
  unfolding seek_pass_def seek_ranked_def
  by (rule find_cong) (use assms in \<open>auto simp: all_match_window\<close>)

lemma seek_pass_exact:
  "seek_pass (\<lambda>i. take (length pattern) (drop i ls) = pattern) a (length ls - length pattern) =
   seek_ranked ls pattern a id"
  unfolding seek_pass_def seek_ranked_def by (rule find_cong) (auto simp: window_def)

lemma seek_sequence_ranked:
  assumes "pattern \<noteq> []" and "length pattern \<le> length ls"
  shows "seek_sequence ls pattern start eof =
    fold (\<lambda>f r. case r of Some i \<Rightarrow> Some i | None \<Rightarrow> seek_ranked ls pattern (search_start ls pattern start eof) f)
      strictness None"
  using assms
  by (auto simp: seek_sequence_def search_start_def strictness_def seek_pass_exact seek_pass_window Let_def
      split: option.splits)

lemma seek_ranked_Some:
  "seek_ranked ls pattern a f = Some i \<longleftrightarrow>
   a \<le> i \<and> i \<le> length ls - length pattern \<and> window f ls pattern i \<and>
   (\<forall>j. a \<le> j \<and> j < i \<longrightarrow> \<not> window f ls pattern j)"
proof -
  let ?xs = "[a ..< Suc (length ls - length pattern)]"
  have "seek_ranked ls pattern a f = Some i \<longleftrightarrow>
      (\<exists>n<length ?xs. window f ls pattern (?xs ! n) \<and> i = ?xs ! n \<and> (\<forall>m<n. \<not> window f ls pattern (?xs ! m)))"
    by (auto simp: seek_ranked_def find_Some_iff simp del: upt_Suc)
  also have "\<dots> \<longleftrightarrow> a \<le> i \<and> i \<le> length ls - length pattern \<and> window f ls pattern i \<and>
      (\<forall>j. a \<le> j \<and> j < i \<longrightarrow> \<not> window f ls pattern j)"
  proof
    assume "\<exists>n<length ?xs. window f ls pattern (?xs ! n) \<and> i = ?xs ! n \<and> (\<forall>m<n. \<not> window f ls pattern (?xs ! m))"
    then obtain n where n: "n < length ?xs" "window f ls pattern (a + n)" "i = a + n"
      "\<forall>m<n. \<not> window f ls pattern (a + m)"
      by (auto simp del: upt_Suc)
    moreover have "\<not> window f ls pattern j" if "a \<le> j" "j < i" for j
      using n(3,4) that by (metis le_Suc_ex nat_add_left_cancel_less)
    ultimately show "a \<le> i \<and> i \<le> length ls - length pattern \<and> window f ls pattern i \<and>
      (\<forall>j. a \<le> j \<and> j < i \<longrightarrow> \<not> window f ls pattern j)"
      by (auto simp del: upt_Suc)
  next
    assume r: "a \<le> i \<and> i \<le> length ls - length pattern \<and> window f ls pattern i \<and>
      (\<forall>j. a \<le> j \<and> j < i \<longrightarrow> \<not> window f ls pattern j)"
    then show "\<exists>n<length ?xs. window f ls pattern (?xs ! n) \<and> i = ?xs ! n \<and> (\<forall>m<n. \<not> window f ls pattern (?xs ! m))"
      by (intro exI [of _ "i - a"]) (auto simp del: upt_Suc)
  qed
  finally show ?thesis .
qed

lemma seek_ranked_None:
  "seek_ranked ls pattern a f = None \<longleftrightarrow>
   (\<forall>i. a \<le> i \<and> i \<le> length ls - length pattern \<longrightarrow> \<not> window f ls pattern i)"
  by (auto simp: seek_ranked_def find_None_iff_all simp del: upt_Suc)

definition found_at :: "string list \<Rightarrow> string list \<Rightarrow> nat \<Rightarrow> nat \<Rightarrow> bool" where
  "found_at ls pattern a i \<longleftrightarrow>
     (\<exists>k<length strictness.
        seek_ranked ls pattern a (strictness ! k) = Some i \<and>
        (\<forall>k'<k. seek_ranked ls pattern a (strictness ! k') = None))"

lemma fold_first_Some:
  "fold (\<lambda>f r. case r of Some i \<Rightarrow> Some i | None \<Rightarrow> g f) fs None = Some i \<longleftrightarrow>
   (\<exists>k<length fs. g (fs ! k) = Some i \<and> (\<forall>k'<k. g (fs ! k') = None))"
proof (induction fs)
  case (Cons f fs)
  have kept: "fold (\<lambda>f r. case r of Some i \<Rightarrow> Some i | None \<Rightarrow> g f) gs (Some x) = Some x" for gs x
    by (induction gs) auto
  show ?case
  proof (cases "g f")
    case None
    with Cons show ?thesis by (simp add: Ex_less_Suc2 All_less_Suc2)
  next
    case (Some x)
    then have "(\<exists>k<length (f # fs). g ((f # fs) ! k) = Some i \<and> (\<forall>k'<k. g ((f # fs) ! k') = None)) \<longleftrightarrow> x = i"
      by (auto simp: Ex_less_Suc2 All_less_Suc2)
    with Some kept show ?thesis by simp
  qed
qed simp

lemma seek_sequence_found:
  assumes "pattern \<noteq> []" and "length pattern \<le> length ls"
  shows "seek_sequence ls pattern start eof = Some i \<longleftrightarrow>
    found_at ls pattern (search_start ls pattern start eof) i"
  unfolding seek_sequence_ranked [OF assms] found_at_def by (rule fold_first_Some)

section \<open>The contract of the search\<close>

locale line_seeker =
  fixes seek :: "string list \<Rightarrow> string list \<Rightarrow> nat \<Rightarrow> bool \<Rightarrow> nat option"
  assumes seek_empty: "seek ls [] start eof = Some start"
    and seek_bound: "seek ls pattern start eof = Some i \<Longrightarrow> pattern \<noteq> [] \<Longrightarrow> i + length pattern \<le> length ls"
    and seek_after: "seek ls pattern start False = Some i \<Longrightarrow> start \<le> i"
begin

lemma context_bound:
  assumes "seek_context seek ls idx c = Some idx'" and "idx \<le> length ls"
  shows "idx \<le> idx' \<and> idx' \<le> length ls"
  using assms
  by (auto simp: seek_context_def split: option.splits dest: seek_after seek_bound)

lemma locate_bound:
  assumes "locate seek ls idx c = Some (s, n, new)" and "idx \<le> length ls"
  shows "s + n \<le> length ls \<and> (\<not> is_end_of_file c \<longrightarrow> idx \<le> s)"
proof -
  obtain p where p: "seek ls p idx (is_end_of_file c) = Some s" "n = length p"
    using assms(1) by (auto simp: locate_def Let_def split: option.splits if_splits)
  show ?thesis
  proof (cases "p = []")
    case True
    with p assms(2) show ?thesis by (auto simp: seek_empty)
  next
    case False
    with p show ?thesis
      by (cases "is_end_of_file c") (auto dest: seek_bound seek_after)
  qed
qed

text \<open>Every replacement starts inside the file, also those that overlap.\<close>

lemma compute_loop_bound:
  "compute_loop seek diag ls path idx cs = Inr rs \<Longrightarrow> idx \<le> length ls \<Longrightarrow> \<forall>(s, n, new)\<in>set rs. s + n \<le> length ls"
proof (induction cs arbitrary: idx rs)
  case (Cons c cs)
  from Cons.prems(1) obtain idx' where ctx: "seek_context seek ls idx c = Some idx'"
    by (auto simp: Let_def split: option.splits)
  then have idx': "idx' \<le> length ls" using context_bound Cons.prems(2) by blast
  show ?case
  proof (cases "old_lines c = []")
    case True
    with ctx Cons.prems(1) obtain rs' where "compute_loop seek diag ls path idx' cs = Inr rs'"
      "rs = (insertion_idx ls, 0, new_lines c) # rs'"
      by (cases "compute_loop seek diag ls path idx' cs") auto
    with Cons.IH [OF _ idx'] show ?thesis by (auto simp: insertion_idx_def)
  next
    case False
    with ctx Cons.prems(1) obtain s n new where loc: "locate seek ls idx' c = Some (s, n, new)"
      by (auto split: option.splits)
    then have b: "s + n \<le> length ls" using locate_bound idx' by blast
    with False ctx loc Cons.prems(1) obtain rs' where "compute_loop seek diag ls path (s + n) cs = Inr rs'"
      "rs = (s, n, new) # rs'"
      by (cases "compute_loop seek diag ls path (s + n) cs") auto
    with Cons.IH [OF _ b] b show ?thesis by auto
  qed
qed simp

text \<open>Chunks that remove lines and are not pinned to the end of the file are placed one after the other.\<close>

lemma compute_loop_disjoint:
  "compute_loop seek diag ls path idx cs = Inr rs \<Longrightarrow> idx \<le> length ls \<Longrightarrow>
   \<forall>c\<in>set cs. old_lines c \<noteq> [] \<and> \<not> is_end_of_file c \<Longrightarrow> disjoint idx rs (length ls)"
proof (induction cs arbitrary: idx rs)
  case (Cons c cs)
  from Cons.prems(1) obtain idx' where ctx: "seek_context seek ls idx c = Some idx'"
    by (auto simp: Let_def split: option.splits)
  then have idx': "idx \<le> idx'" "idx' \<le> length ls" using context_bound Cons.prems(2) by blast+
  from ctx Cons.prems(1,3) obtain s n new where loc: "locate seek ls idx' c = Some (s, n, new)"
    by (auto split: option.splits)
  then have b: "s + n \<le> length ls" "idx' \<le> s" using locate_bound idx' Cons.prems(3) by auto
  with ctx loc Cons.prems(1,3) obtain rs' where "compute_loop seek diag ls path (s + n) cs = Inr rs'"
    "rs = (s, n, new) # rs'"
    by (cases "compute_loop seek diag ls path (s + n) cs") auto
  with Cons.IH [OF _ b(1)] Cons.prems(3) b(2) idx'(1) show ?case by simp
qed simp

end

interpretation seq: line_seeker seek_sequence
proof unfold_locales
  fix ls pattern start eof i
  show "seek_sequence ls [] start eof = Some start" by (simp add: seek_sequence_def)
  {
    assume s: "seek_sequence ls pattern start eof = Some i" "pattern \<noteq> []"
    then have len: "length pattern \<le> length ls" by (auto simp: seek_sequence_def split: if_splits)
    with s seek_sequence_found show "i + length pattern \<le> length ls"
      by (fastforce simp: found_at_def seek_ranked_Some)
  }
  {
    assume s: "seek_sequence ls pattern start False = Some i"
    show "start \<le> i"
    proof (cases "pattern = []")
      case False
      with s have len: "length pattern \<le> length ls" by (auto simp: seek_sequence_def split: if_splits)
      with s False seek_sequence_found show ?thesis
        by (fastforce simp: found_at_def seek_ranked_Some search_start_def)
    qed (use s in \<open>simp add: seek_sequence_def\<close>)
  }
qed

section \<open>Applying replacements\<close>

lemma remove_lines_eq: "s \<le> length ls \<Longrightarrow> remove_lines s n ls = take s ls @ drop (s + n) ls"
proof (induction n arbitrary: ls)
  case (Suc n)
  show ?case
  proof (cases "s < length ls")
    case True
    with Suc.IH [of "take s ls @ drop (Suc s) ls"] show ?thesis by (simp add: min_def add.commute)
  next
    case False
    with Suc show ?thesis by simp
  qed
qed simp

lemma insert_lines_eq: "i \<le> length ls \<Longrightarrow> insert_lines i xs ls = Some (take i ls @ xs @ drop i ls)"
  by (induction xs arbitrary: i ls) (simp_all add: vec_insert_def min_def)

lemma apply_step:
  "s \<le> length ls \<Longrightarrow>
   insert_lines s new (remove_lines s n ls) = Some (take s ls @ new @ drop (s + n) ls)"
  by (simp add: remove_lines_eq insert_lines_eq min_def)

lemma apply_loop_total:
  assumes "sorted_wrt (\<ge>) (map fst rs)" and "\<forall>r\<in>set rs. fst r \<le> length ls"
  shows "\<exists>out. apply_loop rs ls = Some out"
  using assms
proof (induction rs arbitrary: ls)
  case (Cons r rs)
  obtain s n new where r: "r = (s, n, new)" by (cases r)
  let ?ls = "take s ls @ new @ drop (s + n) ls"
  have "\<forall>q\<in>set rs. fst q \<le> length ?ls" using Cons.prems r by auto
  with Cons r show ?case by (simp add: apply_step)
qed simp

lemma disjoint_le: "disjoint pos rs len \<Longrightarrow> pos \<le> len"
  by (induction pos rs len rule: disjoint.induct) auto

lemma apply_loop_append: "apply_loop (xs @ ys) ls = Option.bind (apply_loop xs ls) (apply_loop ys)"
  by (induction xs ls rule: apply_loop.induct) (auto split: bind_splits)

lemma apply_loop_splice:
  "disjoint pos rs (length ls) \<Longrightarrow> apply_loop (rev rs) ls = Some (take pos ls @ splice pos rs ls)"
proof (induction pos rs "length ls" rule: disjoint.induct)
  case (2 pos s n new rs)
  then have le: "pos \<le> s" "s + n \<le> length ls" using disjoint_le by auto
  have "take s ls = take pos ls @ take (s - pos) (drop pos ls)"
    using le by (metis le_add_diff_inverse take_add)
  with 2 le show ?case by (simp add: apply_loop_append apply_step min_def)
qed simp

lemma disjoint_sorted: "disjoint pos rs len \<Longrightarrow> sorted (map fst rs) \<and> (\<forall>r\<in>set rs. pos \<le> fst r)"
  by (induction pos rs len rule: disjoint.induct) fastforce+

lemma sorted_compute:
  assumes "compute_replacements diag ls path cs = Inr rs"
  shows "sorted (map fst rs)" and "\<forall>r\<in>set rs. fst r \<le> length ls"
proof -
  obtain rs0 where rs0: "compute_loop seek_sequence diag ls path 0 cs = Inr rs0" "rs = sort_key fst rs0"
    using assms by (cases "compute_loop seek_sequence diag ls path 0 cs") (auto simp: compute_replacements_def)
  then show "sorted (map fst rs)" by simp
  show "\<forall>r\<in>set rs. fst r \<le> length ls"
    using seq.compute_loop_bound [OF rs0(1)] rs0(2) by fastforce
qed

lemma apply_computed:
  assumes "compute_replacements diag ls path cs = Inr rs"
  shows "\<exists>out. apply_replacements ls rs = Some out"
proof -
  have "sorted_wrt (\<ge>) (map fst (rev rs))"
    using sorted_compute(1) [OF assms] by (simp add: rev_map [symmetric] sorted_wrt_rev)
  then show ?thesis
    unfolding apply_replacements_def using sorted_compute(2) [OF assms] by (intro apply_loop_total) auto
qed

lemma derive_not_Panic: "derive_new_contents diag content path chunks \<noteq> Inl Panic"
  using apply_computed by (fastforce simp: derive_new_contents_def Let_def split: sum.splits option.splits)

definition similar :: "string list \<Rightarrow> string list \<Rightarrow> nat \<Rightarrow> bool" where
  "similar ls pattern i \<longleftrightarrow> (\<exists>f\<in>set strictness. window f ls pattern i)"

definition placed :: "string list \<Rightarrow> update_file_chunk \<Rightarrow> replacement \<Rightarrow> bool" where
  "placed ls c r \<longleftrightarrow>
     (case r of (s, n, new) \<Rightarrow>
        n = length (old_lines c) \<and> new = new_lines c \<and> similar ls (old_lines c) s \<or>
        ends_empty (old_lines c) \<and> n = length (old_lines c) - 1 \<and> similar ls (butlast (old_lines c)) s \<and>
        new = (if ends_empty (new_lines c) then butlast (new_lines c) else new_lines c))"

lemma seek_similar: "seek_sequence ls p idx eof = Some s \<Longrightarrow> similar ls p s"
proof (cases "p = []")
  case True
  then show ?thesis by (auto simp: similar_def window_def strictness_def)
next
  case False
  assume s: "seek_sequence ls p idx eof = Some s"
  with False have len: "length p \<le> length ls" by (auto simp: seek_sequence_def split: if_splits)
  with s False seek_sequence_found obtain k where "k < length strictness" "window (strictness ! k) ls p s"
    by (fastforce simp: found_at_def seek_ranked_Some)
  then show ?thesis by (auto simp: similar_def)
qed

lemma locate_placed: "locate seek_sequence ls idx c = Some r \<Longrightarrow> placed ls c r"
  by (auto simp: locate_def placed_def Let_def split: option.splits if_splits dest: seek_similar)

lemma compute_loop_placed:
  "compute_loop seek_sequence diag ls path idx cs = Inr rs \<Longrightarrow> \<forall>c\<in>set cs. old_lines c \<noteq> [] \<Longrightarrow>
   list_all2 (placed ls) cs rs"
proof (induction cs arbitrary: idx rs)
  case (Cons c cs)
  from Cons.prems(1) obtain idx' where ctx: "seek_context seek_sequence ls idx c = Some idx'"
    by (auto simp: Let_def split: option.splits)
  from ctx Cons.prems obtain s n new where loc: "locate seek_sequence ls idx' c = Some (s, n, new)"
    by (auto split: option.splits)
  with ctx Cons.prems obtain rs' where "compute_loop seek_sequence diag ls path (s + n) cs = Inr rs'"
    "rs = (s, n, new) # rs'"
    by (cases "compute_loop seek_sequence diag ls path (s + n) cs") auto
  with Cons.IH Cons.prems(2) locate_placed [OF loc] show ?case by auto
qed simp

lemma derive_from_loop:
  assumes "compute_loop seek_sequence diag (content_lines content) path 0 cs = Inr rs"
    and "disjoint 0 rs (length (content_lines content))"
  shows "derive_new_contents diag content path cs = Inr (finish_lines (splice 0 rs (content_lines content)))"
proof -
  have "sort_key fst rs = rs" using disjoint_sorted [OF assms(2)] by (simp add: sort_key_id_if_sorted)
  with assms show ?thesis
    by (simp add: derive_new_contents_def compute_replacements_def apply_replacements_def
        apply_loop_splice Let_def)
qed

section \<open>Properties of patch application\<close>

text \<open>The search returns position \<open>i\<close> exactly when, for one of the four comparisons in the order
  exact, without trailing white space, without surrounding white space, with normalised punctuation, \<open>i\<close>
  is the first window from the starting position on that matches the pattern, and no window at all matches
  under a stricter comparison.\<close>

theorem seek_sequence_spec:
  assumes "pattern \<noteq> []" and "length pattern \<le> length ls"
  shows "seek_sequence ls pattern start eof = Some i \<longleftrightarrow>
    (let a = (if eof then length ls - length pattern else start);
         final = length ls - length pattern
     in \<exists>k<length strictness.
          a \<le> i \<and> i \<le> final \<and> window (strictness ! k) ls pattern i \<and>
          (\<forall>j. a \<le> j \<and> j < i \<longrightarrow> \<not> window (strictness ! k) ls pattern j) \<and>
          (\<forall>k'<k. \<forall>j. a \<le> j \<and> j \<le> final \<longrightarrow> \<not> window (strictness ! k') ls pattern j))"
  unfolding seek_sequence_found [OF assms] found_at_def seek_ranked_Some seek_ranked_None
  by (simp add: search_start_def Let_def)

theorem seek_sequence_spec_witness:
  "seek_sequence [''a'', ''b '', ''b''] [''b''] 0 False = Some 2"
proof -
  have "\<not> window (strictness ! 0) [''a'', ''b '', ''b''] [''b''] j" if "j < 2" for j
    using that by (cases j) (auto simp: window_def strictness_def)
  then show ?thesis
    by (intro iffD2 [OF seek_sequence_spec])
       (auto simp: Let_def window_def strictness_def intro!: exI [of _ 0])
qed

text \<open>C35: Applying the replacements computed from any chunks never indexes beyond the end of the file, also
  when replacements overlap: \<open>derive_new_contents\<close> ends with new contents or an error message.\<close>

theorem derive_never_panics: "derive_new_contents diag content path chunks \<noteq> Inl Panic"
  by (rule derive_not_Panic)


definition example_chunk :: update_file_chunk where
  "example_chunk = \<lparr>change_context = None, old_lines = [''b''], new_lines = [''c'', ''d''], is_end_of_file = False\<rparr>"


text \<open>A file cut into the blocks the chunks expect and what lies between them; each block is the first
  verbatim occurrence after the previous one.\<close>

fun cut_verbatim :: "string list \<Rightarrow> (string list \<times> update_file_chunk) list \<Rightarrow> string list \<Rightarrow> bool" where
  "cut_verbatim rest [] post = (rest = post)"
| "cut_verbatim rest ((pre, c) # segs) post =
     (change_context c = None \<and> \<not> is_end_of_file c \<and> old_lines c \<noteq> [] \<and>
      prefix (pre @ old_lines c) rest \<and>
      (\<forall>j\<in>{..<length pre}. take (length (old_lines c)) (drop j rest) \<noteq> old_lines c) \<and>
      cut_verbatim (drop (length pre + length (old_lines c)) rest) segs post)"

lemma seek_verbatim:
  assumes "prefix (pre @ p) (drop idx ls)" and "p \<noteq> []"
    and "\<forall>j\<in>{..<length pre}. take (length p) (drop j (drop idx ls)) \<noteq> p"
  shows "seek_sequence ls p idx False = Some (idx + length pre)"
proof -
  obtain post where d: "drop idx ls = pre @ p @ post" using assms(1) by (auto simp: prefix_def)
  then have len: "idx + length pre + length p + length post = length ls"
    using assms(2) by (metis append.assoc append_is_Nil_conv drop_eq_Nil length_append length_drop
        le_add_diff_inverse nat_le_linear add.assoc)
  have "drop (idx + length pre) ls = drop (length pre) (drop idx ls)" by (simp add: add.commute)
  then have "window id ls p (idx + length pre)" by (simp add: window_def d)
  moreover have "\<not> window id ls p j" if "idx \<le> j" "j < idx + length pre" for j
  proof -
    have "j = (j - idx) + idx" using that by simp
    with that assms(3) show ?thesis
      by (metis add.commute drop_drop id_apply lessThan_iff less_diff_conv2 list.map_id window_def)
  qed
  ultimately have "seek_ranked ls p idx id = Some (idx + length pre)"
    using len by (simp add: seek_ranked_Some)
  then have "found_at ls p idx (idx + length pre)"
    unfolding found_at_def by (intro exI [of _ 0]) (simp add: strictness_def)
  with seek_sequence_found [of p ls idx False] assms(2) len show ?thesis by (simp add: search_start_def)
qed

lemma compute_verbatim:
  assumes "cut_verbatim (drop idx ls) segs post" and "idx \<le> length ls"
  shows "\<exists>rs. compute_loop seek_sequence diag ls path idx (map snd segs) = Inr rs \<and>
    disjoint idx rs (length ls) \<and>
    splice idx rs ls = concat (map (\<lambda>(pre, c). pre @ new_lines c) segs) @ post"
  using assms
proof (induction segs arbitrary: idx)
  case (Cons seg segs)
  obtain pre c where seg: "seg = (pre, c)" by (cases seg)
  let ?s = "idx + length pre" and ?n = "length (old_lines c)"
  have pc: "prefix (pre @ old_lines c) (drop idx ls)" using Cons.prems(1) seg by simp
  have seek: "seek_sequence ls (old_lines c) idx False = Some ?s"
    using Cons.prems(1) seg by (intro seek_verbatim) auto
  have b: "?s + ?n \<le> length ls"
    using prefix_length_le [OF pc] Cons.prems(2) by simp
  have "cut_verbatim (drop (?s + ?n) ls) segs post"
    using Cons.prems(1) seg by (simp add: add.commute add.left_commute)
  then obtain rs where rs: "compute_loop seek_sequence diag ls path (?s + ?n) (map snd segs) = Inr rs"
    "disjoint (?s + ?n) rs (length ls)"
    "splice (?s + ?n) rs ls = concat (map (\<lambda>(pre, c). pre @ new_lines c) segs) @ post"
    using Cons.IH b by blast
  have "take (length pre) (drop idx ls) = pre" using pc by (auto simp: prefix_def)
  then show ?case
    using Cons.prems(1) seg seek rs
    by (intro exI [of _ "(?s, ?n, new_lines c) # rs"]) (simp add: seek_context_def locate_def Let_def)
qed simp

text \<open>A patch whose chunks quote the file verbatim, each at its first occurrence after the previous
  one, always applies, and exactly the quoted blocks are exchanged for the new lines.\<close>

theorem derive_verbatim:
  assumes "cut_verbatim (content_lines content) segs post"
  shows "derive_new_contents diag content path (map snd segs) =
    Inr (finish_lines (concat (map (\<lambda>(pre, c). pre @ new_lines c) segs) @ post))"
proof -
  obtain rs where
    "compute_loop seek_sequence diag (content_lines content) path 0 (map snd segs) = Inr rs"
    "disjoint 0 rs (length (content_lines content))"
    "splice 0 rs (content_lines content) = concat (map (\<lambda>(pre, c). pre @ new_lines c) segs) @ post"
    using compute_verbatim [of 0 "content_lines content" segs post] assms by auto
  with derive_from_loop show ?thesis by fastforce
qed

theorem derive_verbatim_witness:
  "derive_new_contents (\<lambda>_ _ _ _. []) [CHR ''a'', nl, CHR ''b'', nl, CHR ''e'', nl] ''f'' [example_chunk] =
   Inr [CHR ''a'', nl, CHR ''c'', nl, CHR ''d'', nl, CHR ''e'', nl]"
  using derive_verbatim [of "[CHR ''a'', nl, CHR ''b'', nl, CHR ''e'', nl]" "[([''a''], example_chunk)]" "[''e'']"]
  by (simp add: example_chunk_def content_lines_def ends_empty_def finish_lines_def)

text \<open>An added line can be lost. A chunk that replaces the blank last line, followed by a chunk that
  only adds lines, gives overlapping replacements, and the removal of the first takes away what the second
  has inserted.\<close>

theorem pure_addition_lost:
  "derive_new_contents diag (''a'' @ [nl, nl]) path
     [\<lparr>change_context = None, old_lines = [''a'', []], new_lines = [''b''], is_end_of_file = False\<rparr>,
      \<lparr>change_context = None, old_lines = [], new_lines = [''c''], is_end_of_file = False\<rparr>] =
   Inr (''b'' @ [nl])"
proof -
  have "seek_sequence [''a'', []] [''a'', []] 0 False = Some 0" by code_simp
  then show ?thesis
    by (simp add: derive_new_contents_def compute_replacements_def content_lines_def ends_empty_def
        seek_context_def locate_def insertion_idx_def apply_replacements_def vec_insert_def
        finish_lines_def Let_def)
qed

text \<open>With \<open>eof\<close> the search looks at the last window only and does not fall back to the given start:
  it succeeds just when the pattern matches the end of the file under one of the comparisons.\<close>

theorem seek_eof_no_fallback:
  assumes "pattern \<noteq> []" and "length pattern \<le> length ls"
  shows "seek_sequence ls pattern start True =
    (if \<exists>f\<in>set strictness. window f ls pattern (length ls - length pattern)
     then Some (length ls - length pattern) else None)"
proof -
  have r: "seek_ranked ls pattern (length ls - length pattern) f =
      (if window f ls pattern (length ls - length pattern) then Some (length ls - length pattern) else None)" for f
    by (simp add: seek_ranked_def)
  show ?thesis
    unfolding seek_sequence_ranked [OF assms] search_start_def by (simp add: r strictness_def)
qed

theorem seek_eof_no_fallback_witness:
  "seek_sequence [''a'', ''b''] [''a''] 0 True = None"
proof -
  have "\<not> (\<exists>f\<in>set strictness. window f [''a'', ''b''] [''a''] 1)"
    by code_simp
  with seek_eof_no_fallback [of "[''a'']" "[''a'', ''b'']" 0] show ?thesis by simp
qed

end
