(* ===== verification/File_Store.thy ===== *)
theory File_Store
  imports Rust_Std
begin

text \<open>
  Paths and the \<open>AsyncFileSystem\<close> interface (\<open>computer/types.rs\<close>) as the tools use it. A resolved path is
  the list of its components: \<open>Path\<close> compares, hashes and iterates components, which leaves out empty ones
  and \<open>.\<close> but keeps \<open>..\<close>. The locale \<open>file_store\<close> is what a tool relies on of a store; it is
  interpreted by the two in-process implementations, \<open>MockFs\<close> (\<open>computer/local/mock_fs.rs\<close>) and the
  store pinned to the plan file, \<open>AnchoredPlanFs\<close> (\<open>computer/local/plan_file.rs\<close>).
\<close>

section \<open>Paths\<close>

type_synonym path = "string list"

definition path_components :: "string \<Rightarrow> path" where
  "path_components s = filter (\<lambda>c. c \<noteq> [] \<and> c \<noteq> ''.'') (split_on CHR ''/'' s)"

definition path_join :: "path \<Rightarrow> string \<Rightarrow> path" where
  "path_join base s =
     (if starts_with s ''/'' then path_components s else base @ path_components s)"

definition path_display :: "path \<Rightarrow> string" where
  "path_display p = CHR ''/'' # join ''/'' p"

definition file_name :: "path \<Rightarrow> string option" where
  "file_name p = (if p = [] \<or> last p = ''..'' then None else Some (last p))"

definition path_parent :: "path \<Rightarrow> path option" where
  "path_parent p = (if p = [] then None else Some (butlast p))"

text \<open>\<open>lock_path_for_path\<close>: the canonical spelling of a path whose existing components are resolved by
  \<open>canon\<close> as they are walked.\<close>

fun lock_path_loop :: "(path \<Rightarrow> path option) \<Rightarrow> path \<Rightarrow> string list \<Rightarrow> path" where
  "lock_path_loop canon resolved [] = resolved"
| "lock_path_loop canon resolved (c # cs) =
     (if c = ''..'' then lock_path_loop canon (butlast resolved) cs
      else lock_path_loop canon
             (case canon (resolved @ [c]) of Some q \<Rightarrow> q | None \<Rightarrow> resolved @ [c]) cs)"

definition lock_path_for_path :: "(path \<Rightarrow> path option) \<Rightarrow> path \<Rightarrow> path" where
  "lock_path_for_path canon p = lock_path_loop canon [] p"

section \<open>The interface\<close>

text \<open>Errors are the text their \<open>Display\<close> prints. \<open>create_parents\<close> is \<open>create_dir_all\<close> on the
  parent directory.\<close>

record 's fs_ops =
  read_file :: "'s \<Rightarrow> path \<Rightarrow> string + string"
  write_file :: "'s \<Rightarrow> path \<Rightarrow> string \<Rightarrow> string + 's"
  delete_file :: "'s \<Rightarrow> path \<Rightarrow> string + 's"
  create_parents :: "'s \<Rightarrow> path \<Rightarrow> string + 's"

definition text_of :: "string + string \<Rightarrow> string option" where
  "text_of r = (case r of Inl e \<Rightarrow> None | Inr c \<Rightarrow> Some c)"

definition view :: "'s fs_ops \<Rightarrow> 's \<Rightarrow> path \<Rightarrow> string option" where
  "view ops s p = text_of (read_file ops s p)"

locale file_store =
  fixes ops :: "'s fs_ops"
  assumes view_write: "write_file ops s p d = Inr s' \<Longrightarrow> view ops s' = (view ops s)(p := Some d)"
    and view_delete: "delete_file ops s p = Inr s' \<Longrightarrow> view ops s' = (view ops s)(p := None)"
    and view_parents: "create_parents ops s p = Inr s' \<Longrightarrow> view ops s' = view ops s"

section \<open>MockFs\<close>

type_synonym mock_fs = "path \<Rightarrow> string option"

definition mock_ops :: "mock_fs fs_ops" where
  "mock_ops =
     \<lparr>read_file = (\<lambda>files p. case files p of
         None \<Rightarrow> Inl (''IO Error: File not found: '' @ path_display p) | Some d \<Rightarrow> Inr d),
      write_file = (\<lambda>files p d. Inr (files(p \<mapsto> d))),
      delete_file = (\<lambda>files p. Inr (files(p := None))),
      create_parents = (\<lambda>files p. Inr files)\<rparr>"

lemma view_mock [simp]: "view mock_ops files = files"
  by (rule ext) (simp add: view_def text_of_def mock_ops_def split: option.splits)

interpretation mock: file_store mock_ops
  by unfold_locales (auto simp: fun_eq_iff, auto simp: mock_ops_def)

section \<open>AnchoredPlanFs\<close>

text \<open>What a name of the pinned directory can be: absent, a regular file with one link, or something
  \<open>open_existing\<close> refuses (a symbolic link, a directory, a file with several links).\<close>

datatype dir_entry = Missing | Regular string | Irregular

definition open_existing :: "dir_entry \<Rightarrow> string + string" where
  "open_existing e =
     (case e of
        Missing \<Rightarrow> Inl ''IO Error: No such file or directory (os error 2)''
      | Regular d \<Rightarrow> Inr d
      | Irregular \<Rightarrow> Inl ''IO Error: plan file must be a regular file with one link'')"

definition anchored_validate :: "path \<Rightarrow> path \<Rightarrow> string + unit" where
  "anchored_validate plan_path p =
     (if p = plan_path then Inr () else Inl ''IO Error: target is outside the pinned plan file'')"

definition anchored_read :: "path \<Rightarrow> (path \<Rightarrow> dir_entry) \<Rightarrow> path \<Rightarrow> string + string" where
  "anchored_read plan_path s p =
     (case anchored_validate plan_path p of Inl e \<Rightarrow> Inl e | Inr _ \<Rightarrow> open_existing (s plan_path))"

definition anchored_write ::
  "path \<Rightarrow> (path \<Rightarrow> dir_entry) \<Rightarrow> path \<Rightarrow> string \<Rightarrow> string + (path \<Rightarrow> dir_entry)" where
  "anchored_write plan_path s p d =
     (case anchored_validate plan_path p of
        Inl e \<Rightarrow> Inl e
      | Inr _ \<Rightarrow>
          (case s plan_path of
             Irregular \<Rightarrow> Inl ''IO Error: plan file must be a regular file with one link''
           | _ \<Rightarrow> Inr (s(plan_path := Regular d))))"

definition anchored_ops :: "path \<Rightarrow> (path \<Rightarrow> dir_entry) fs_ops" where
  "anchored_ops plan_path =
     \<lparr>read_file = anchored_read plan_path,
      write_file = anchored_write plan_path,
      delete_file = (\<lambda>s p. Inl ''IO Error: plan file deletion is not permitted''),
      create_parents = (\<lambda>s p. Inr s)\<rparr>"

interpretation anchored: file_store "anchored_ops plan_path" for plan_path
proof unfold_locales
  fix s p d s'
  assume "write_file (anchored_ops plan_path) s p d = Inr s'"
  then have "p = plan_path" "s' = s(plan_path := Regular d)"
    by (auto simp: anchored_ops_def anchored_write_def anchored_validate_def split: if_splits dir_entry.splits)
  then show "view (anchored_ops plan_path) s' = (view (anchored_ops plan_path) s)(p := Some d)"
    by (auto simp: view_def text_of_def anchored_ops_def anchored_read_def anchored_validate_def
        open_existing_def)
qed (auto simp: anchored_ops_def)

lemma anchored_write_frame:
  "write_file (anchored_ops plan_path) s p d = Inr s' \<Longrightarrow> p = plan_path \<and> (\<exists>e. s' = s(plan_path := e))"
  by (auto simp: anchored_ops_def anchored_write_def anchored_validate_def split: if_splits dir_entry.splits)

section \<open>UTF-8\<close>

text \<open>One decoding step: whether the text starts with a well-formed character, and its length, or that
  of the maximal ill-formed part that \<open>from_utf8_lossy\<close> replaces.\<close>

abbreviation byte :: "char \<Rightarrow> nat" where "byte c \<equiv> of_char c"

definition cont :: "char \<Rightarrow> bool" where
  "cont c \<longleftrightarrow> 0x80 \<le> byte c \<and> byte c \<le> 0xBF"

definition second_ok :: "char \<Rightarrow> char \<Rightarrow> bool" where
  "second_ok b1 b2 \<longleftrightarrow>
     (if byte b1 = 0xE0 then 0xA0 \<le> byte b2 \<and> byte b2 \<le> 0xBF
      else if byte b1 = 0xED then 0x80 \<le> byte b2 \<and> byte b2 \<le> 0x9F
      else if byte b1 = 0xF0 then 0x90 \<le> byte b2 \<and> byte b2 \<le> 0xBF
      else if byte b1 = 0xF4 then 0x80 \<le> byte b2 \<and> byte b2 \<le> 0x8F
      else cont b2)"

fun conts :: "nat \<Rightarrow> string \<Rightarrow> nat" where
  "conts n [] = 0"
| "conts n (c # s) = (if n = 0 \<or> \<not> cont c then 0 else Suc (conts (n - 1) s))"

definition utf8_step :: "char \<Rightarrow> string \<Rightarrow> bool \<times> nat" where
  "utf8_step b s =
     (if byte b < 0x80 then (True, 1)
      else
        (let need = (if 0xC2 \<le> byte b \<and> byte b \<le> 0xDF then 1
                     else if 0xE0 \<le> byte b \<and> byte b \<le> 0xEF then 2
                     else if 0xF0 \<le> byte b \<and> byte b \<le> 0xF4 then 3 else 0)
         in if need = 0 then (False, 1)
            else (case s of
                    [] \<Rightarrow> (False, 1)
                  | b2 # s' \<Rightarrow>
                      (if second_ok b b2
                       then (let k = 1 + conts (need - 1) s' in (k = need, 1 + k))
                       else (False, 1)))))"

lemma utf8_step_pos: "utf8_step b s = (good, n) \<Longrightarrow> 0 < n"
  by (auto simp: utf8_step_def Let_def split: list.splits if_splits)

function utf8_valid :: "string \<Rightarrow> bool" where
  "utf8_valid [] = True"
| "utf8_valid (b # s) =
     (case utf8_step b s of (good, n) \<Rightarrow> good \<and> utf8_valid (drop n (b # s)))"
  by pat_completeness auto
termination
  by (relation "measure length") (auto dest: utf8_step_pos [OF sym])

function from_utf8_lossy :: "string \<Rightarrow> string" where
  "from_utf8_lossy [] = []"
| "from_utf8_lossy (b # s) =
     (case utf8_step b s of
        (good, n) \<Rightarrow>
          (if good then take n (b # s) else [CHR 0xEF, CHR 0xBF, CHR 0xBD]) @
          from_utf8_lossy (drop n (b # s)))"
  by pat_completeness auto
termination
  by (relation "measure length") (auto dest: utf8_step_pos [OF sym])

definition from_utf8 :: "string \<Rightarrow> string option" where
  "from_utf8 bytes = (if utf8_valid bytes then Some bytes else None)"

lemma from_utf8_lossy_valid: "utf8_valid s \<Longrightarrow> from_utf8_lossy s = s"
  by (induction s rule: utf8_valid.induct) (auto split: prod.splits)

end
