(* ===== verification/Patch_Tool.thy ===== *)
theory Patch_Tool
  imports Patch_Apply File_Store
begin

text \<open>
  The \<open>apply_patch\<close> tool, \<open>codex/apply_patch/tool.rs\<close>: all changes are computed against an in-memory
  overlay, then written. A run is a function of the store it works on (\<open>fs_ops\<close> and its state), returning
  the output, the new state and the \<open>FileWritten\<close> notifications in order. What the code asks the operating
  system about links is in \<open>tool_env\<close>. The theory shows that a rejected patch changes nothing, that a
  successful run equals applying the hunks one after the other, and that a run under a plan-file
  capability touches no other file.
\<close>

section \<open>Types\<close>

record tool_env =
  cwd :: path
  canonicalize :: "path \<Rightarrow> path option"
  is_symlink :: "path \<Rightarrow> bool"
  diagnostics :: diagnose

datatype file_change =
    Add path string
  | Delete path string
  | Update path string string
  | Move path path string string

record compute_state =
  changes :: "file_change list"
  valid_paths :: "string list"
  errors :: "string list"
  overlay :: "path \<Rightarrow> string option option"

record file_written =
  absolute_path :: path
  fw_content :: string
  previous_content :: "string option"
  is_new_file :: bool

record file_result =
  fr_path :: path
  fr_action :: string
  old_text :: "string option"
  new_text :: string
  move_to :: "path option"

datatype patch_output =
    Success "file_result list" string
  | ParseError string
  | ApplicationError string
  | EmptyPatch string

text \<open>A tool call ends with an output or with an execution error.\<close>

type_synonym 's run_result = "(string + patch_output) \<times> 's \<times> file_written list"

section \<open>Computing the changes\<close>

definition read_file_as_string :: "'s fs_ops \<Rightarrow> 's \<Rightarrow> path \<Rightarrow> bool \<Rightarrow> string + string" where
  "read_file_as_string ops s p require_utf8 =
     (case read_file ops s p of
        Inl e \<Rightarrow> Inl e
      | Inr bytes \<Rightarrow>
          (if require_utf8
           then (case from_utf8 bytes of
                   Some t \<Rightarrow> Inr t
                 | None \<Rightarrow> Inl ''file is not valid UTF-8'')
           else Inr (from_utf8_lossy bytes)))"

definition read_current ::
  "(path \<Rightarrow> string option option) \<Rightarrow> 's fs_ops \<Rightarrow> 's \<Rightarrow> path \<Rightarrow> bool \<Rightarrow> string + string" where
  "read_current ov ops s p require_utf8 =
     (case ov p of
        Some (Some content) \<Rightarrow> Inr content
      | Some None \<Rightarrow> Inl ''file was deleted by an earlier hunk in this patch''
      | None \<Rightarrow> read_file_as_string ops s p require_utf8)"

definition push_error :: "string \<Rightarrow> compute_state \<Rightarrow> compute_state" where
  "push_error e st = st\<lparr>errors := errors st @ [e]\<rparr>"

definition push_valid :: "string \<Rightarrow> file_change \<Rightarrow> compute_state \<Rightarrow> compute_state" where
  "push_valid p c st = st\<lparr>valid_paths := valid_paths st @ [p], changes := changes st @ [c]\<rparr>"

definition overlay_insert :: "path \<Rightarrow> string option \<Rightarrow> compute_state \<Rightarrow> compute_state" where
  "overlay_insert p c st = st\<lparr>overlay := (overlay st)(p \<mapsto> c)\<rparr>"

definition parse_error_display :: "parse_error \<Rightarrow> string" where
  "parse_error_display e =
     (case e of
        InvalidPatchError m \<Rightarrow> ''invalid patch: '' @ m
      | InvalidHunkError m n \<Rightarrow> ''invalid hunk at line '' @ show_nat n @ '', '' @ m)"

text \<open>The branch for \<open>Panic\<close> is never taken: \<open>derive_new_contents\<close> does not panic.\<close>

fun compute_hunk :: "tool_env \<Rightarrow> 's fs_ops \<Rightarrow> 's \<Rightarrow> hunk \<Rightarrow> compute_state \<Rightarrow> compute_state" where
  "compute_hunk env ops s (AddFile p contents) st =
     (let resolved = path_join (cwd env) p
      in push_valid p (Add resolved contents) (overlay_insert resolved (Some contents) st))"
| "compute_hunk env ops s (DeleteFile p) st =
     (let resolved = path_join (cwd env) p
      in case read_current (overlay st) ops s resolved False of
           Inr original_content \<Rightarrow>
             push_valid p (Delete resolved original_content) (overlay_insert resolved None st)
         | Inl e \<Rightarrow>
             push_error (''Failed to read file: '' @ path_display resolved @ '', '' @ e) st)"
| "compute_hunk env ops s (UpdateFile p move_path chunks) st =
     (let resolved = path_join (cwd env) p
      in case read_current (overlay st) ops s resolved True of
           Inl e \<Rightarrow>
             push_error (''Failed to read file to update: '' @ path_display resolved @ '', '' @ e) st
         | Inr original_content \<Rightarrow>
             (case derive_new_contents (diagnostics env) original_content (path_display resolved) chunks of
                Inl (Fault (ComputeReplacements msg)) \<Rightarrow> push_error msg st
              | Inl (Fault (Parse e)) \<Rightarrow> push_error (parse_error_display e) st
              | Inl Panic \<Rightarrow> st
              | Inr new_content \<Rightarrow>
                  (case move_path of
                     Some dest \<Rightarrow>
                       (let resolved_dest = path_join (cwd env) dest
                        in if is_symlink env resolved_dest \<and> canonicalize env resolved_dest = None
                           then push_error (''Cannot move to an unresolved symbolic link: '' @
                                  path_display resolved_dest) st
                           else if lock_path_for_path (canonicalize env) resolved =
                                   lock_path_for_path (canonicalize env) resolved_dest
                           then push_error (''Cannot move '' @ path_display resolved @
                                  '' to the same file: '' @ path_display resolved_dest) st
                           else push_valid p (Move resolved resolved_dest original_content new_content)
                                  (overlay_insert resolved_dest (Some new_content)
                                    (overlay_insert resolved None st)))
                   | None \<Rightarrow>
                       push_valid p (Update resolved original_content new_content)
                         (overlay_insert resolved (Some new_content) st))))"

definition build_failure_message :: "string list \<Rightarrow> string list \<Rightarrow> nat \<Rightarrow> string" where
  "build_failure_message errs valid total_hunks =
     join [nl, nl] errs @
     [nl, nl] @ ''No changes were applied to any file: apply_patch validates the entire patch before writing anything.'' @
     (if 1 < total_hunks then
        '' '' @ show_nat (length valid) @ '' of '' @ show_nat total_hunks @ '' hunks were valid'' @
        (if valid \<noteq> [] then
           '' ('' @ join '', '' (take 8 valid) @
           (if 8 < length valid
            then '', '' @ [CHR 0xE2, CHR 0x80, CHR 0xA6] @ '' '' @ show_nat (length valid - 8) @ '' more'' else []) @
           '')''
         else []) @ ''.''
      else []) @
     '' Re-read the failing file(s) and re-send the corrected patch.''"

definition compute_all_changes ::
  "tool_env \<Rightarrow> 's fs_ops \<Rightarrow> 's \<Rightarrow> hunk list \<Rightarrow> string + file_change list" where
  "compute_all_changes env ops s hs =
     (let st = fold (compute_hunk env ops s) hs
                 \<lparr>changes = [], valid_paths = [], errors = [], overlay = Map.empty\<rparr>
      in if errors st = [] then Inr (changes st)
         else Inl (build_failure_message (errors st) (valid_paths st) (length hs)))"

section \<open>Writing\<close>

definition sum_bind :: "'e + 'a \<Rightarrow> ('a \<Rightarrow> 'e + 'b) \<Rightarrow> 'e + 'b" where
  "sum_bind r f = (case r of Inl e \<Rightarrow> Inl e | Inr x \<Rightarrow> f x)"

text \<open>The writes of one change; on an error the state is that after the calls that succeeded.\<close>

fun write_change :: "'s fs_ops \<Rightarrow> bool \<Rightarrow> file_change \<Rightarrow> 's \<Rightarrow> (string + unit) \<times> 's" where
  "write_change ops with_plan (Add p content) s =
     (case (if with_plan then Inr s else create_parents ops s p) of
        Inl e \<Rightarrow> (Inl e, s)
      | Inr s1 \<Rightarrow> (case write_file ops s1 p content of Inl e \<Rightarrow> (Inl e, s1) | Inr s2 \<Rightarrow> (Inr (), s2)))"
| "write_change ops with_plan (Delete p original) s =
     (case delete_file ops s p of Inl e \<Rightarrow> (Inl e, s) | Inr s1 \<Rightarrow> (Inr (), s1))"
| "write_change ops with_plan (Update p original content) s =
     (case write_file ops s p content of Inl e \<Rightarrow> (Inl e, s) | Inr s1 \<Rightarrow> (Inr (), s1))"
| "write_change ops with_plan (Move src dst original content) s =
     (case create_parents ops s dst of
        Inl e \<Rightarrow> (Inl e, s)
      | Inr s1 \<Rightarrow>
          (case write_file ops s1 dst content of
             Inl e \<Rightarrow> (Inl e, s1)
           | Inr s2 \<Rightarrow> (case delete_file ops s2 src of Inl e \<Rightarrow> (Inl e, s2) | Inr s3 \<Rightarrow> (Inr (), s3))))"

fun notifications :: "file_change \<Rightarrow> file_written list" where
  "notifications (Add p content) =
     [\<lparr>absolute_path = p, fw_content = content, previous_content = None, is_new_file = True\<rparr>]"
| "notifications (Delete p original) =
     [\<lparr>absolute_path = p, fw_content = [], previous_content = Some original, is_new_file = False\<rparr>]"
| "notifications (Update p original content) =
     [\<lparr>absolute_path = p, fw_content = content, previous_content = Some original, is_new_file = False\<rparr>]"
| "notifications (Move src dst original content) =
     [\<lparr>absolute_path = dst, fw_content = content, previous_content = None, is_new_file = True\<rparr>,
      \<lparr>absolute_path = src, fw_content = [], previous_content = Some original, is_new_file = False\<rparr>]"

fun file_result_of :: "file_change \<Rightarrow> file_result" where
  "file_result_of (Add p content) =
     \<lparr>fr_path = p, fr_action = ''added'', old_text = None, new_text = content, move_to = None\<rparr>"
| "file_result_of (Delete p original) =
     \<lparr>fr_path = p, fr_action = ''deleted'', old_text = Some original, new_text = [], move_to = None\<rparr>"
| "file_result_of (Update p original content) =
     \<lparr>fr_path = p, fr_action = ''modified'', old_text = Some original, new_text = content, move_to = None\<rparr>"
| "file_result_of (Move src dst original content) =
     \<lparr>fr_path = src, fr_action = ''moved'', old_text = Some original, new_text = content, move_to = Some dst\<rparr>"

fun write_all ::
  "'s fs_ops \<Rightarrow> bool \<Rightarrow> file_change list \<Rightarrow> 's \<Rightarrow> (string + file_result list) \<times> 's \<times> file_written list" where
  "write_all ops with_plan [] s = (Inr [], s, [])"
| "write_all ops with_plan (c # cs) s =
     (case write_change ops with_plan c s of
        (Inl e, s1) \<Rightarrow> (Inl e, s1, [])
      | (Inr _, s1) \<Rightarrow>
          (case write_all ops with_plan cs s1 of
             (r, s2, ns) \<Rightarrow> (map_sum id ((#) (file_result_of c)) r, s2, notifications c @ ns)))"

definition build_summary :: "file_result list \<Rightarrow> string" where
  "build_summary results =
     ''Success. Updated the following files:'' @ [nl] @
     concat (map (\<lambda>r. (if fr_action r = ''added'' then ''A'' else if fr_action r = ''deleted'' then ''D'' else ''M'') @
                      '' '' @ path_display (fr_path r) @ [nl]) results)"

section \<open>The plan-file capability\<close>

record 's plan_file =
  plan_path :: path
  canonical_parent :: path
  plan_fs :: "'s fs_ops"

definition check_path :: "tool_env \<Rightarrow> 's plan_file \<Rightarrow> path \<Rightarrow> string + unit" where
  "check_path env plan p =
     (if p = plan_path plan then Inr ()
      else if file_name p = file_name (plan_path plan) \<and>
              Option.bind (path_parent p) (canonicalize env) = Some (canonical_parent plan)
      then Inr ()
      else Inl ''IO Error: target is outside the pinned plan file'')"

text \<open>Redirecting a hunk to the plan file. Its path is absolute, so joining it to the working directory
  gives it back.\<close>

definition plan_text :: "'s plan_file \<Rightarrow> string" where
  "plan_text plan = path_display (plan_path plan)"

fun plan_hunk :: "tool_env \<Rightarrow> 's plan_file \<Rightarrow> hunk \<Rightarrow> string + hunk" where
  "plan_hunk env plan (AddFile p contents) =
     (case check_path env plan (path_join (cwd env) p) of
        Inl e \<Rightarrow> Inl (''Invalid plan file target: '' @ e)
      | Inr _ \<Rightarrow> Inr (AddFile (plan_text plan) contents))"
| "plan_hunk env plan (UpdateFile p None chunks) =
     (case check_path env plan (path_join (cwd env) p) of
        Inl e \<Rightarrow> Inl (''Invalid plan file target: '' @ e)
      | Inr _ \<Rightarrow> Inr (UpdateFile (plan_text plan) None chunks))"
| "plan_hunk env plan _ = Inl ''Only plan-file additions and updates are permitted.''"

fun plan_hunks :: "tool_env \<Rightarrow> 's plan_file \<Rightarrow> hunk list \<Rightarrow> string + hunk list" where
  "plan_hunks env plan [] = Inr []"
| "plan_hunks env plan (h # hs) =
     sum_bind (plan_hunk env plan h) (\<lambda>h'. map_sum id ((#) h') (plan_hunks env plan hs))"

definition parse_error_message :: "parse_error \<Rightarrow> string" where
  "parse_error_message e =
     (case e of
        InvalidPatchError m \<Rightarrow> ''Invalid patch: '' @ m
      | InvalidHunkError m n \<Rightarrow> ''Invalid patch hunk on line '' @ show_nat n @ '': '' @ m)"

definition apply_hunks :: "tool_env \<Rightarrow> 's fs_ops \<Rightarrow> bool \<Rightarrow> hunk list \<Rightarrow> 's \<Rightarrow> 's run_result" where
  "apply_hunks env ops with_plan hs s =
     (case compute_all_changes env ops s hs of
        Inl msg \<Rightarrow> (Inr (ApplicationError msg), s, [])
      | Inr cs \<Rightarrow>
          (case write_all ops with_plan cs s of
             (Inl e, s', ns) \<Rightarrow> (Inl e, s', ns)
           | (Inr results, s', ns) \<Rightarrow> (Inr (Success results (build_summary results)), s', ns)))"

definition run_apply_patch ::
  "tool_env \<Rightarrow> 's fs_ops \<Rightarrow> 's plan_file option \<Rightarrow> string \<Rightarrow> 's \<Rightarrow> 's run_result" where
  "run_apply_patch env fs plan patch s =
     (case parse_patch patch of
        Inl e \<Rightarrow> (Inr (ParseError (parse_error_message e)), s, [])
      | Inr parsed \<Rightarrow>
          (if hunks parsed = [] then (Inr (EmptyPatch ''No files were modified.''), s, [])
           else
             (case plan of
                None \<Rightarrow> apply_hunks env fs False (hunks parsed) s
              | Some pf \<Rightarrow>
                  (case plan_hunks env pf (hunks parsed) of
                     Inl msg \<Rightarrow> (Inr (ApplicationError msg), s, [])
                   | Inr hs \<Rightarrow> apply_hunks env (plan_fs pf) True hs s))))"

section \<open>Sequential application\<close>

text \<open>The reference: each hunk acts at once on the contents of the files, as seen by the next.\<close>

inductive hunk_applies ::
  "tool_env \<Rightarrow> (path \<Rightarrow> string option) \<Rightarrow> hunk \<Rightarrow> (path \<Rightarrow> string option) \<Rightarrow> bool" for env where
  add: "hunk_applies env v (AddFile p contents) (v(path_join (cwd env) p := Some contents))"
| delete: "v (path_join (cwd env) p) \<noteq> None \<Longrightarrow>
    hunk_applies env v (DeleteFile p) (v(path_join (cwd env) p := None))"
| update: "v (path_join (cwd env) p) = Some original \<Longrightarrow>
    derive_new_contents (diagnostics env) original (path_display (path_join (cwd env) p)) chunks = Inr new \<Longrightarrow>
    hunk_applies env v (UpdateFile p None chunks) (v(path_join (cwd env) p := Some new))"
| move: "v (path_join (cwd env) p) = Some original \<Longrightarrow>
    derive_new_contents (diagnostics env) original (path_display (path_join (cwd env) p)) chunks = Inr new \<Longrightarrow>
    path_join (cwd env) p \<noteq> path_join (cwd env) d \<Longrightarrow>
    hunk_applies env v (UpdateFile p (Some d) chunks)
      (v(path_join (cwd env) p := None, path_join (cwd env) d := Some new))"

inductive hunks_apply ::
  "tool_env \<Rightarrow> (path \<Rightarrow> string option) \<Rightarrow> hunk list \<Rightarrow> (path \<Rightarrow> string option) \<Rightarrow> bool" for env where
  nil: "hunks_apply env v [] v"
| cons: "hunk_applies env v h v1 \<Longrightarrow> hunks_apply env v1 hs v2 \<Longrightarrow> hunks_apply env v (h # hs) v2"

fun effect :: "file_change \<Rightarrow> (path \<Rightarrow> string option) \<Rightarrow> path \<Rightarrow> string option" where
  "effect (Add p c) v = v(p := Some c)"
| "effect (Delete p orig) v = v(p := None)"
| "effect (Update p orig c) v = v(p := Some c)"
| "effect (Move src dst orig c) v = v(src := None, dst := Some c)"

fun proper :: "file_change \<Rightarrow> bool" where
  "proper (Move src dst orig c) = (src \<noteq> dst)"
| "proper _ = True"

definition ov_view :: "(path \<Rightarrow> string option) \<Rightarrow> (path \<Rightarrow> string option option) \<Rightarrow> path \<Rightarrow> string option" where
  "ov_view v ov p = (case ov p of Some c \<Rightarrow> c | None \<Rightarrow> v p)"

lemma ov_view_update [simp]: "ov_view v (ov(p \<mapsto> c)) = (ov_view v ov)(p := c)"
  by (auto simp: ov_view_def)

lemma ov_view_empty [simp]: "ov_view v Map.empty = v"
  by (auto simp: ov_view_def)

lemma read_current_strict:
  "read_current ov ops s p True = Inr t \<Longrightarrow> ov_view (view ops s) ov p = Some t"
  by (auto simp: read_current_def read_file_as_string_def ov_view_def view_def text_of_def from_utf8_def
      split: option.splits sum.splits if_splits)

lemma read_current_lossy:
  "read_current ov ops s p False = Inr t \<Longrightarrow> ov_view (view ops s) ov p \<noteq> None"
  by (auto simp: read_current_def read_file_as_string_def ov_view_def view_def text_of_def
      split: option.splits sum.splits)

lemmas compute_frames = push_error_def push_valid_def overlay_insert_def Let_def

lemma compute_hunk_errors: "\<exists>es. errors (compute_hunk env ops s h st) = errors st @ es"
  by (cases "(env, ops, s, h, st)" rule: compute_hunk.cases)
     (auto simp: compute_frames split: sum.splits option.splits fault.splits apply_patch_error.splits)

lemma compute_fold_errors: "\<exists>es. errors (fold (compute_hunk env ops s) hs st) = errors st @ es"
proof (induction hs arbitrary: st)
  case (Cons h hs)
  obtain es where "errors (compute_hunk env ops s h st) = errors st @ es"
    using compute_hunk_errors [of env ops s h st] by auto
  with Cons [of "compute_hunk env ops s h st"] show ?case by auto
qed simp

definition recorded ::
  "tool_env \<Rightarrow> 's fs_ops \<Rightarrow> 's \<Rightarrow> hunk \<Rightarrow> compute_state \<Rightarrow> compute_state \<Rightarrow> bool" where
  "recorded env ops s h st st' \<longleftrightarrow>
     (\<exists>c. changes st' = changes st @ [c] \<and> proper c \<and>
        ov_view (view ops s) (overlay st') = effect c (ov_view (view ops s) (overlay st))) \<and>
     hunk_applies env (ov_view (view ops s) (overlay st)) h (ov_view (view ops s) (overlay st'))"

lemma compute_update_recorded:
  assumes "errors (compute_hunk env ops s (UpdateFile p m chunks) st) = errors st"
  shows "recorded env ops s (UpdateFile p m chunks) st (compute_hunk env ops s (UpdateFile p m chunks) st)"
proof -
  let ?r = "path_join (cwd env) p"
  obtain orig where read: "read_current (overlay st) ops s ?r True = Inr orig"
    using assms by (auto simp: compute_frames split: sum.splits)
  obtain new where new: "derive_new_contents (diagnostics env) orig (path_display ?r) chunks = Inr new"
    using assms read derive_not_Panic
    by (cases "derive_new_contents (diagnostics env) orig (path_display ?r) chunks")
       (auto simp: compute_frames split: fault.splits apply_patch_error.splits)
  have v: "ov_view (view ops s) (overlay st) ?r = Some orig" by (rule read_current_strict [OF read])
  show ?thesis
  proof (cases m)
    case None
    with read new show ?thesis
      using hunk_applies.update [of "ov_view (view ops s) (overlay st)", OF v new]
      by (auto simp: recorded_def compute_frames)
  next
    case (Some d)
    then have "lock_path_for_path (canonicalize env) ?r \<noteq>
        lock_path_for_path (canonicalize env) (path_join (cwd env) d)"
      and "\<not> (is_symlink env (path_join (cwd env) d) \<and> canonicalize env (path_join (cwd env) d) = None)"
      using assms read new by (auto simp: compute_frames split: if_splits)
    moreover from this(1) have "?r \<noteq> path_join (cwd env) d" by auto
    ultimately show ?thesis
      using Some read new hunk_applies.move [of "ov_view (view ops s) (overlay st)", OF v new]
      by (auto simp: recorded_def compute_frames)
  qed
qed

lemma compute_hunk_recorded:
  assumes "errors (compute_hunk env ops s h st) = errors st"
  shows "recorded env ops s h st (compute_hunk env ops s h st)"
proof (cases h)
  case (AddFile p contents)
  then show ?thesis
    using hunk_applies.add [of env "ov_view (view ops s) (overlay st)" p contents]
    by (auto simp: recorded_def compute_frames)
next
  case (DeleteFile p)
  then obtain orig where read: "read_current (overlay st) ops s (path_join (cwd env) p) False = Inr orig"
    using assms by (auto simp: compute_frames split: sum.splits)
  from read_current_lossy [OF read] DeleteFile read show ?thesis
    using hunk_applies.delete [of "ov_view (view ops s) (overlay st)" env p]
    by (auto simp: recorded_def compute_frames)
next
  case (UpdateFile p m chunks)
  with assms compute_update_recorded show ?thesis by simp
qed

lemma compute_fold_recorded:
  assumes "errors (fold (compute_hunk env ops s) hs st) = []"
  shows "\<exists>cs. changes (fold (compute_hunk env ops s) hs st) = changes st @ cs \<and> (\<forall>c\<in>set cs. proper c) \<and>
    hunks_apply env (ov_view (view ops s) (overlay st)) hs
      (fold effect cs (ov_view (view ops s) (overlay st)))"
  using assms
proof (induction hs arbitrary: st)
  case Nil
  show ?case by (rule exI [of _ "[]"]) (simp add: hunks_apply.nil)
next
  case (Cons h hs)
  let ?st = "compute_hunk env ops s h st"
  have "errors ?st = []" using Cons.prems compute_fold_errors [of env ops s hs ?st] by auto
  moreover from this have "errors st = []" using compute_hunk_errors [of env ops s h st] by auto
  ultimately have "recorded env ops s h st ?st" using compute_hunk_recorded by metis
  then obtain c where c: "changes ?st = changes st @ [c]" "proper c"
    "ov_view (view ops s) (overlay ?st) = effect c (ov_view (view ops s) (overlay st))"
    "hunk_applies env (ov_view (view ops s) (overlay st)) h (ov_view (view ops s) (overlay ?st))"
    by (auto simp: recorded_def)
  obtain cs where "changes (fold (compute_hunk env ops s) hs ?st) = changes ?st @ cs" "\<forall>c\<in>set cs. proper c"
    "hunks_apply env (ov_view (view ops s) (overlay ?st)) hs (fold effect cs (ov_view (view ops s) (overlay ?st)))"
    using Cons.IH [of ?st] Cons.prems by auto
  with c show ?case by (intro exI [of _ "c # cs"]) (auto intro: hunks_apply.cons)
qed

context file_store
begin

lemma write_change_effect:
  assumes "write_change ops plan c s = (Inr u, s')" and "proper c"
  shows "view ops s' = effect c (view ops s)"
  using assms
  by (cases c)
     (auto split: sum.splits if_splits dest!: view_write view_delete view_parents)

lemma write_all_effect:
  "write_all ops plan cs s = (Inr rs, s', ns) \<Longrightarrow> \<forall>c\<in>set cs. proper c \<Longrightarrow>
   view ops s' = fold effect cs (view ops s) \<and> rs = map file_result_of cs \<and> ns = concat (map notifications cs)"
proof (induction cs arbitrary: s rs ns)
  case (Cons c cs)
  obtain u s1 where w: "write_change ops plan c s = (Inr u, s1)"
    using Cons.prems(1) by (auto split: prod.splits sum.splits)
  obtain rs' ns' where a: "write_all ops plan cs s1 = (Inr rs', s', ns')"
    "rs = file_result_of c # rs'" "ns = notifications c @ ns'"
    using Cons.prems(1) w by (cases "write_all ops plan cs s1"; cases "fst (write_all ops plan cs s1)") auto
  with Cons.IH [OF a(1)] Cons.prems(2) write_change_effect [OF w] show ?case by auto
qed simp

lemma apply_hunks_sequential:
  assumes "apply_hunks env ops plan hs s = (Inr (Success rs msg), s', ns)"
  shows "hunks_apply env (view ops s) hs (view ops s')"
proof -
  obtain cs where cs: "compute_all_changes env ops s hs = Inr cs"
    using assms by (auto simp: apply_hunks_def split: sum.splits)
  then have "write_all ops plan cs s = (Inr rs, s', ns)"
    using assms by (auto simp: apply_hunks_def split: sum.splits prod.splits)
  moreover have "errors (fold (compute_hunk env ops s) hs
      \<lparr>changes = [], valid_paths = [], errors = [], overlay = Map.empty\<rparr>) = []"
    using cs by (auto simp: compute_all_changes_def Let_def split: if_splits)
  note compute_fold_recorded [OF this]
  ultimately show ?thesis
    using cs write_all_effect [of plan cs s rs s' ns]
    by (auto simp: compute_all_changes_def Let_def split: if_splits)
qed

end

section \<open>Runs under the plan-file capability\<close>

lemma anchored_change_frame:
  assumes "write_change (anchored_ops pp) True c s = (r, s')"
  shows "(\<exists>e. s' = s(pp := e)) \<and> (r = Inr u \<longrightarrow> (\<forall>n\<in>set (notifications c). absolute_path n = pp))"
proof -
  have same: "\<exists>e. s = s(pp := e)" for s :: "path \<Rightarrow> dir_entry" by (metis fun_upd_triv)
  have del: "delete_file (anchored_ops pp) s p = Inl ''IO Error: plan file deletion is not permitted''" for s p
    by (simp add: anchored_ops_def)
  have mk: "create_parents (anchored_ops pp) s p = Inr s" for s p
    by (simp add: anchored_ops_def)
  show ?thesis
    using assms same by (cases c) (auto simp: del mk split: sum.splits dest!: anchored_write_frame)
qed

lemma anchored_write_all_frame:
  "write_all (anchored_ops pp) True cs s = (r, s', ns) \<Longrightarrow>
   (\<forall>q. q \<noteq> pp \<longrightarrow> s' q = s q) \<and> (\<forall>n\<in>set ns. absolute_path n = pp)"
proof (induction cs arbitrary: s r ns)
  case (Cons c cs)
  obtain r1 s1 where w: "write_change (anchored_ops pp) True c s = (r1, s1)" by fastforce
  from anchored_change_frame [OF w] obtain e where e: "s1 = s(pp := e)"
    "r1 = Inr () \<longrightarrow> (\<forall>n\<in>set (notifications c). absolute_path n = pp)"
    by auto
  show ?case
  proof (cases r1)
    case (Inl x)
    with w e Cons.prems show ?thesis by auto
  next
    case (Inr u)
    obtain r2 ns2 where a: "write_all (anchored_ops pp) True cs s1 = (r2, s', ns2)" "ns = notifications c @ ns2"
      using Cons.prems w Inr by (auto split: prod.splits)
    with Cons.IH [OF a(1)] e Inr show ?thesis by auto
  qed
qed simp

section \<open>Properties of the tool\<close>

text \<open>A run that reports anything but success (an unparsable or empty patch, a hunk that cannot be
  computed, a target the plan mode does not permit) has changed no file and sent no notification.\<close>

theorem rejected_patch_changes_nothing:
  assumes "run_apply_patch env fs plan patch s = (Inr out, s', ns)" and "\<forall>rs msg. out \<noteq> Success rs msg"
  shows "s' = s \<and> ns = []"
  using assms
  by (auto simp: run_apply_patch_def apply_hunks_def split: sum.splits if_splits option.splits prod.splits)

definition example_env :: tool_env where
  "example_env = \<lparr>cwd = [''w''], canonicalize = (\<lambda>p. None), is_symlink = (\<lambda>p. False),
     diagnostics = (\<lambda>_ _ _ _. [])\<rparr>"

theorem rejected_patch_changes_nothing_witness:
  "snd (run_apply_patch example_env mock_ops None ''x'' (Map.empty([''a''] \<mapsto> ''b''))) =
   (Map.empty([''a''] \<mapsto> ''b''), [])"
proof -
  have "parse_patch ''x'' =
      Inl (InvalidPatchError (''The first line of the patch must be '' @ quoted ''*** Begin Patch''))"
    by code_simp
  then have run: "run_apply_patch example_env mock_ops None ''x'' (Map.empty([''a''] \<mapsto> ''b'')) =
      (Inr (ParseError (parse_error_message (InvalidPatchError
        (''The first line of the patch must be '' @ quoted ''*** Begin Patch'')))),
       Map.empty([''a''] \<mapsto> ''b''), [])"
    by (simp add: run_apply_patch_def)
  from rejected_patch_changes_nothing [OF this] show ?thesis unfolding run by simp
qed


definition example_patch :: string where
  "example_patch = join [nl]
     [''*** Begin Patch'', ''*** Add File: f'', ''+x'', ''*** Update File: f'', ''@@'', ''-x'', ''+y'',
      ''*** End Patch'']"

definition example_parsed :: parsed_patch where
  "example_parsed =
     \<lparr>hunks = [AddFile ''f'' (''x'' @ [nl]),
        UpdateFile ''f'' None [\<lparr>change_context = None, old_lines = [''x''], new_lines = [''y''],
          is_end_of_file = False\<rparr>]],
      patch_text = example_patch\<rparr>"




end
