(* ===== verification/Patch_Diagnostics.thy ===== *)
theory Patch_Diagnostics
  imports Rust_Std
begin

text \<open>
  The distance behind the "closest match" hints of \<open>diagnostics.rs\<close>. \<open>levenshtein\<close> keeps two rows of
  the dynamic-programming table; it is shown to be the least number of single-character edits.
\<close>

section \<open>The two-row computation\<close>

fun lev_inner :: "'a \<Rightarrow> 'a list \<Rightarrow> nat list \<Rightarrow> nat \<Rightarrow> nat list" where
  "lev_inner ca (cb # b) (p0 # p1 # prev) left =
     (let cost = (if ca \<noteq> cb then 1 else 0);
          v = min (min (p0 + cost) (p1 + 1)) (left + 1)
      in v # lev_inner ca b (p1 # prev) v)"
| "lev_inner ca _ _ left = []"

fun lev_outer :: "nat \<Rightarrow> 'a list \<Rightarrow> 'a list \<Rightarrow> nat list \<Rightarrow> nat list" where
  "lev_outer i [] b prev = prev"
| "lev_outer i (ca # a) b prev = lev_outer (i + 1) a b ((i + 1) # lev_inner ca b prev (i + 1))"

definition levenshtein :: "'a list \<Rightarrow> 'a list \<Rightarrow> nat" where
  "levenshtein a b =
     (if a = [] then length b
      else if b = [] then length a
      else lev_outer 0 a b [0 ..< Suc (length b)] ! length b)"

fun trim_trailing_blank_rev :: "string list \<Rightarrow> string list" where
  "trim_trailing_blank_rev [] = []"
| "trim_trailing_blank_rev (l # ls) = (if trim l = [] then trim_trailing_blank_rev ls else l # ls)"

definition trim_trailing_blank :: "string list \<Rightarrow> string list" where
  "trim_trailing_blank pattern = rev (trim_trailing_blank_rev (rev pattern))"

section \<open>Edit scripts\<close>

inductive edits :: "'a list \<Rightarrow> 'a list \<Rightarrow> nat \<Rightarrow> bool" where
  nothing: "edits [] [] 0"
| keep: "edits a b n \<Longrightarrow> edits (x # a) (x # b) n"
| subst: "edits a b n \<Longrightarrow> edits (x # a) (y # b) (Suc n)"
| delete: "edits a b n \<Longrightarrow> edits (x # a) b (Suc n)"
| insert: "edits a b n \<Longrightarrow> edits a (y # b) (Suc n)"

fun lev :: "'a list \<Rightarrow> 'a list \<Rightarrow> nat" where
  "lev [] b = length b"
| "lev (x # a) [] = Suc (length a)"
| "lev (x # a) (y # b) =
     min (min (lev a b + (if x \<noteq> y then 1 else 0)) (lev a (y # b) + 1)) (lev (x # a) b + 1)"

lemma lev_Nil_right [simp]: "lev a [] = length a"
  by (cases a) auto

lemma edits_inserts: "edits [] b (length b)"
  by (induction b) (auto intro: edits.intros)

lemma edits_deletes: "edits a [] (length a)"
  by (induction a) (auto intro: edits.intros)

lemma edits_lev: "edits a b (lev a b)"
proof (induction a b rule: lev.induct)
  case (2 x a)
  show ?case using edits_deletes [of "x # a"] by simp
next
  case (3 x a y b)
  have "edits (x # a) (y # b) (lev a b + (if x \<noteq> y then 1 else 0))"
    using 3(1) by (auto intro: edits.intros)
  moreover have "edits (x # a) (y # b) (lev a (y # b) + 1)" using 3(2) by (auto intro: edits.delete)
  moreover have "edits (x # a) (y # b) (lev (x # a) b + 1)" using 3(3) by (auto intro: edits.insert)
  ultimately show ?case by (simp add: min_def)
qed (simp add: edits_inserts)

lemma lev_Cons_left: "lev (x # a) b \<le> Suc (lev a b)"
proof (induction b arbitrary: x a)
  case (Cons y b)
  then show ?case by simp
qed simp

lemma lev_Cons_right: "lev a (y # b) \<le> Suc (lev a b)"
  by (cases a) auto

lemma lev_Cons_same: "lev (x # a) (x # b) \<le> lev a b"
  by simp

lemma lev_Cons_both: "lev (x # a) (y # b) \<le> Suc (lev a b)"
  by (simp add: min.coboundedI1)

lemma lev_least: "edits a b n \<Longrightarrow> lev a b \<le> n"
proof (induction rule: edits.induct)
  case (keep a b n x)
  then show ?case using lev_Cons_same [of x a b] by linarith
next
  case (subst a b n x y)
  then show ?case using lev_Cons_both [of x a y b] by linarith
next
  case (delete a b n x)
  then show ?case using lev_Cons_left [of x a b] by linarith
next
  case (insert a b n y)
  then show ?case using lev_Cons_right [of a y b] by linarith
qed simp

lemma edits_append: "edits a b n \<Longrightarrow> edits c d m \<Longrightarrow> edits (a @ c) (b @ d) (n + m)"
  by (induction rule: edits.induct) (auto intro: edits.intros)

lemma edits_rev: "edits a b n \<Longrightarrow> edits (rev a) (rev b) n"
proof (induction rule: edits.induct)
  case (keep a b n x)
  with edits_append [OF keep.IH edits.keep [OF edits.nothing, of x]] show ?case by simp
next
  case (subst a b n x y)
  with edits_append [OF subst.IH edits.subst [OF edits.nothing, of x y]] show ?case by simp
next
  case (delete a b n x)
  with edits_append [OF delete.IH edits.delete [OF edits.nothing, of x]] show ?case by simp
next
  case (insert a b n y)
  with edits_append [OF insert.IH edits.insert [OF edits.nothing, of y]] show ?case by simp
qed (simp add: edits.nothing)

lemma lev_rev: "lev (rev a) (rev b) = lev a b"
  by (metis antisym edits_lev edits_rev lev_least rev_rev_ident)

lemma lev_le_max: "lev a b \<le> max (length a) (length b)"
proof (induction a b rule: lev.induct)
  case (3 x a y b)
  show ?case using 3(1) lev_Cons_both [of x a y b] by (simp del: lev.simps)
qed simp_all

section \<open>The rows of the table\<close>

definition row :: "'a list \<Rightarrow> 'a list \<Rightarrow> 'a list \<Rightarrow> nat list" where
  "row ra rb b = map (\<lambda>j. lev ra (rev (take j b) @ rb)) [0 ..< Suc (length b)]"

lemma row_Nil: "row ra rb [] = [lev ra rb]"
  by (simp add: row_def)

lemma row_Cons: "row ra rb (c # b) = lev ra rb # row ra (c # rb) b"
proof -
  have "[0 ..< Suc (Suc (length b))] = 0 # map Suc [0 ..< Suc (length b)]"
    by (subst upt_conv_Cons) (simp_all only: map_Suc_upt zero_less_Suc)
  then show ?thesis by (simp add: row_def comp_def del: upt_Suc)
qed

lemma lev_inner_row:
  "lev_inner ca b (row ra rb b) (lev (ca # ra) rb) = tl (row (ca # ra) rb b)"
proof (induction b arbitrary: rb)
  case (Cons c b)
  have hd: "\<exists>ps. row r (c # rb) b = lev r (c # rb) # ps" for r :: "'a list"
    by (cases b) (simp_all add: row_Nil row_Cons del: lev.simps)
  obtain ps where ps: "row ra (c # rb) b = lev ra (c # rb) # ps" using hd by blast
  obtain qs where qs: "row (ca # ra) (c # rb) b = lev (ca # ra) (c # rb) # qs" using hd by blast
  have "lev_inner ca (c # b) (lev ra rb # lev ra (c # rb) # ps) (lev (ca # ra) rb) =
      lev (ca # ra) (c # rb) # lev_inner ca b (lev ra (c # rb) # ps) (lev (ca # ra) (c # rb))"
    by (simp only: lev_inner.simps lev.simps Let_def)
  also have "\<dots> = row (ca # ra) (c # rb) b"
    using Cons.IH [of "c # rb"] unfolding ps qs by (simp del: lev.simps)
  finally show ?case unfolding row_Cons ps list.sel .
qed (simp add: row_Nil)

lemma lev_outer_row: "lev_outer (length ra) a b (row ra [] b) = row (rev a @ ra) [] b"
proof (induction a arbitrary: ra)
  case (Cons x a)
  have "row (x # ra) [] b = (length ra + 1) # tl (row (x # ra) [] b)"
    by (cases b) (simp_all add: row_Nil row_Cons)
  then have "(length ra + 1) # lev_inner x b (row ra [] b) (length ra + 1) = row (x # ra) [] b"
    using lev_inner_row [of x b ra "[]"] by simp
  with Cons.IH [of "x # ra"] show ?case by simp
qed simp

lemma levenshtein_lev: "levenshtein a b = lev a b"
proof -
  have "[0 ..< Suc (length b)] = row [] [] b" 
    by (auto simp: row_def min_def simp del: upt_Suc intro!: map_idI [symmetric])
  then have "lev_outer 0 a b [0 ..< Suc (length b)] ! length b = lev (rev a) (rev b)"
    using lev_outer_row [of "[]" a b] by (simp add: row_def nth_append)
  then show ?thesis by (auto simp: levenshtein_def lev_rev)
qed

section \<open>Properties\<close>

text \<open>C36: The two-row computation yields the least number of insertions, deletions and substitutions that
  turn one line into the other, which is at most the length of the longer one.\<close>

theorem levenshtein_minimal:
  "edits a b (levenshtein a b) \<and> (\<forall>n. edits a b n \<longrightarrow> levenshtein a b \<le> n) \<and>
   levenshtein a b \<le> max (length a) (length b)"
  using edits_lev lev_least lev_le_max by (auto simp: levenshtein_lev)

theorem levenshtein_minimal_witness:
  "edits ''kitten'' ''sitting'' 3 \<and> levenshtein ''kitten'' ''sitting'' = 3"
proof -
  have "levenshtein ''kitten'' ''sitting'' = 3" by code_simp
  with levenshtein_minimal [of "''kitten''" "''sitting''"] show ?thesis by simp
qed

end
