(* ===== verification/Access_Types.thy ===== *)
theory Access_Types
  imports Rust_Std
begin

text \<open>
  The vocabulary of the permission system, \<open>permission/types.rs\<close>: what a tool call wants
  (\<open>AccessKind\<close>), what is decided about it (\<open>Decision\<close>) and the rules of a policy. Rule actions are
  ordered \<open>Allow < Ask < Deny\<close> by how restrictive they are. The JSON arguments of an MCP call play no role
  in a decision and are left out.
\<close>

datatype access_kind =
    Read "string option"
  | Grep "string option" "string option"
  | Edit string
  | Bash string
  | MCPTool string
  | WebFetch string
  | WebSearch string
  | AgentMessage string

datatype decision =
    DAllow
  | DAsk
  | FollowupMessage string
  | Reject string
  | PolicyDeny string
  | Cancelled

datatype rule_action = Allow | Ask | Deny

datatype tool_filter =
    FAny | FBash | FEdit | FRead | FGrep | FMcp | FWebFetch | FWebSearch | FAgentMessage

datatype pattern_mode = Glob | Domain

record permission_rule =
  action :: rule_action
  tool :: tool_filter
  pattern :: "string option"
  pmode :: pattern_mode

datatype prompt_policy = PromptAsk | PromptDeny | PromptAuto | PromptAllow

record permission_config =
  rules :: "permission_rule list"
  config_prompt_policy :: prompt_policy
  default_mode_configured :: bool

definition config_new :: "permission_rule list \<Rightarrow> permission_config" where
  "config_new rs = \<lparr>rules = rs, config_prompt_policy = PromptAsk, default_mode_configured = False\<rparr>"

fun severity :: "rule_action \<Rightarrow> nat" where
  "severity Allow = 0"
| "severity Ask = 1"
| "severity Deny = 2"

instantiation rule_action :: linorder
begin

definition less_eq_rule_action :: "rule_action \<Rightarrow> rule_action \<Rightarrow> bool" where
  "less_eq_rule_action a b \<longleftrightarrow> severity a \<le> severity b"

definition less_rule_action :: "rule_action \<Rightarrow> rule_action \<Rightarrow> bool" where
  "less_rule_action a b \<longleftrightarrow> severity a < severity b"

instance
proof
  fix a b :: rule_action
  show "a \<le> b \<Longrightarrow> b \<le> a \<Longrightarrow> a = b"
    by (cases a; cases b) (simp_all add: less_eq_rule_action_def)
qed (auto simp: less_eq_rule_action_def less_rule_action_def)

end

lemma rule_action_order [simp]: "Allow \<le> a" "a \<le> Deny" "Ask \<le> a \<longleftrightarrow> a \<noteq> Allow" "a \<le> Ask \<longleftrightarrow> a \<noteq> Deny"
  by (cases a, simp_all add: less_eq_rule_action_def)+

section \<open>Combining decisions\<close>

text \<open>Both \<open>combine_decisions\<close> and \<open>combine_gate_decisions\<close> keep the higher-ranked of two optional verdicts
  and the first of equals. What follows from that is shown once.\<close>

locale ranked_verdicts =
  fixes combine :: "'d option \<Rightarrow> 'd option \<Rightarrow> 'd option"
    and rank :: "'d \<Rightarrow> nat"
  assumes combine_none: "combine None x = x" "combine x None = x"
    and combine_some: "combine (Some a) (Some b) = Some (if rank b \<le> rank a then a else b)"
begin

lemma combine_assoc: "combine (combine x y) z = combine x (combine y z)"
  by (cases x; cases y; cases z) (auto simp: combine_none combine_some)

lemma combine_eq_None: "combine x y = None \<longleftrightarrow> x = None \<and> y = None"
  by (cases x; cases y) (auto simp: combine_none combine_some)

definition combine_list :: "'d option \<Rightarrow> 'd option list \<Rightarrow> 'd option" where
  "combine_list x ds = fold (\<lambda>d acc. combine acc d) ds x"

text \<open>A fold of verdicts contains none of lower rank than any of its parts.\<close>

definition at_least :: "nat \<Rightarrow> 'd option \<Rightarrow> bool" where
  "at_least k x \<longleftrightarrow> (\<exists>d. x = Some d \<and> k \<le> rank d)"

lemma at_least_combine: "at_least k (combine x y) \<longleftrightarrow> at_least k x \<or> at_least k y"
  by (cases x; cases y) (auto simp: at_least_def combine_none combine_some)

lemma at_least_fold: "at_least k (fold (\<lambda>d acc. combine acc d) ds x) \<longleftrightarrow> at_least k x \<or> (\<exists>d\<in>set ds. at_least k d)"
  by (induction ds arbitrary: x) (auto simp: at_least_combine)

lemma fold_eq_None: "fold (\<lambda>d acc. combine acc d) ds x = None \<longleftrightarrow> x = None \<and> (\<forall>d\<in>set ds. d = None)"
  by (induction ds arbitrary: x) (auto simp: combine_eq_None)

end

fun decision_rank :: "decision \<Rightarrow> nat" where
  "decision_rank (Reject r) = 3"
| "decision_rank (PolicyDeny r) = 3"
| "decision_rank DAsk = 2"
| "decision_rank DAllow = 1"
| "decision_rank (FollowupMessage m) = 0"
| "decision_rank Cancelled = 0"

fun combine_decisions :: "decision option \<Rightarrow> decision option \<Rightarrow> decision option" where
  "combine_decisions None other = other"
| "combine_decisions other None = other"
| "combine_decisions (Some a) (Some b) = Some (if decision_rank b \<le> decision_rank a then a else b)"

datatype gate_decision = GReject string | AskRuleMatch | AskFailClosed

fun gate_rank :: "gate_decision \<Rightarrow> nat" where
  "gate_rank (GReject r) = 3"
| "gate_rank AskRuleMatch = 2"
| "gate_rank AskFailClosed = 1"

fun into_decision :: "gate_decision \<Rightarrow> decision" where
  "into_decision (GReject reason) = Reject reason"
| "into_decision AskRuleMatch = DAsk"
| "into_decision AskFailClosed = DAsk"

definition is_ask :: "gate_decision \<Rightarrow> bool" where
  "is_ask g \<longleftrightarrow> g = AskRuleMatch \<or> g = AskFailClosed"

fun combine_gate_decisions ::
  "gate_decision option \<Rightarrow> gate_decision option \<Rightarrow> gate_decision option" where
  "combine_gate_decisions None other = other"
| "combine_gate_decisions other None = other"
| "combine_gate_decisions (Some a) (Some b) = Some (if gate_rank b \<le> gate_rank a then a else b)"

interpretation cd: ranked_verdicts combine_decisions decision_rank
proof unfold_locales
  fix x show "combine_decisions x None = x" by (cases x) simp_all
qed simp_all

interpretation cg: ranked_verdicts combine_gate_decisions gate_rank
proof unfold_locales
  fix x show "combine_gate_decisions x None = x" by (cases x) simp_all
qed simp_all

end
