(* ===== verification/Plan_Mode.thy ===== *)
theory Plan_Mode
  imports Patch_Tool Access_Types
begin

text \<open>
  Plan mode, \<open>session/plan_mode.rs\<close> (the lifecycle of \<open>PlanModeTracker\<close> with its persisted snapshot) and
  the gate that keeps it read-only, \<open>plan_mode_edit_gate\<close> and its helpers in
  \<open>session/acp_session_impl/tool_calls.rs\<close>. Leases revoked through the permission handle are counted.
  What \<open>symlink_metadata\<close> says about the plan file is an argument, canonicalisation is that of
  \<open>tool_env\<close>; the reminder templates are left out.
\<close>

section \<open>PlanModeTracker\<close>

datatype plan_mode_state = Inactive | Pending | Active | ExitPending

record pending_activation_data =
  reminder_text :: string
  prior_was_previously_active :: bool

record plan_mode_tracker =
  pm_state :: plan_mode_state
  has_permission_handle :: bool
  leases_revoked :: nat
  hook_generation :: u64
  was_previously_active :: bool
  reminder_count :: u32
  pending_exit_reminder :: bool
  awaiting_plan_approval :: bool
  pending_activation :: "pending_activation_data option"
  plan_file_path :: path

record plan_mode_snapshot =
  snap_state :: plan_mode_state
  snap_was_previously_active :: bool
  snap_reminder_count :: u32
  snap_pending_exit_reminder :: bool
  snap_awaiting_plan_approval :: bool

definition tracker_new :: "path \<Rightarrow> plan_mode_tracker" where
  "tracker_new session_dir =
     \<lparr>pm_state = Inactive, has_permission_handle = False, leases_revoked = 0, hook_generation = 0,
      was_previously_active = False, reminder_count = 0, pending_exit_reminder = False,
      awaiting_plan_approval = False, pending_activation = None,
      plan_file_path = path_join session_dir ''plan.md''\<rparr>"

definition from_snapshot :: "path \<Rightarrow> plan_mode_snapshot \<Rightarrow> plan_mode_tracker" where
  "from_snapshot session_dir snapshot =
     (let sn = (case snap_state snapshot of
                  Pending \<Rightarrow> snapshot\<lparr>snap_state := Inactive\<rparr>
                | ExitPending \<Rightarrow> snapshot\<lparr>snap_state := Inactive, snap_pending_exit_reminder := True\<rparr>
                | _ \<Rightarrow> snapshot)
      in \<lparr>pm_state = snap_state sn, has_permission_handle = False, leases_revoked = 0,
          hook_generation = 0, was_previously_active = snap_was_previously_active sn,
          reminder_count = snap_reminder_count sn,
          pending_exit_reminder = snap_pending_exit_reminder sn,
          awaiting_plan_approval = snap_awaiting_plan_approval sn, pending_activation = None,
          plan_file_path = path_join session_dir ''plan.md''\<rparr>)"

definition set_permission_handle :: "plan_mode_tracker \<Rightarrow> plan_mode_tracker" where
  "set_permission_handle t = t\<lparr>has_permission_handle := True\<rparr>"

definition revoke_external_children :: "plan_mode_tracker \<Rightarrow> plan_mode_tracker" where
  "revoke_external_children t =
     (if has_permission_handle t then t\<lparr>leases_revoked := leases_revoked t + 1\<rparr> else t)"

definition client_hooks_will_change :: "plan_mode_tracker \<Rightarrow> plan_mode_tracker" where
  "client_hooks_will_change t =
     (revoke_external_children t)\<lparr>hook_generation := hook_generation t + 1\<rparr>"

definition set_awaiting_plan_approval :: "bool \<Rightarrow> plan_mode_tracker \<Rightarrow> plan_mode_tracker" where
  "set_awaiting_plan_approval awaiting t = t\<lparr>awaiting_plan_approval := awaiting\<rparr>"

definition snapshot_of :: "plan_mode_tracker \<Rightarrow> plan_mode_snapshot" where
  "snapshot_of t =
     \<lparr>snap_state = pm_state t, snap_was_previously_active = was_previously_active t,
      snap_reminder_count = reminder_count t, snap_pending_exit_reminder = pending_exit_reminder t,
      snap_awaiting_plan_approval = awaiting_plan_approval t\<rparr>"

definition is_active :: "plan_mode_tracker \<Rightarrow> bool" where
  "is_active t \<longleftrightarrow> pm_state t = Active"

datatype prompt_mode = Agent | AskMode | PlanPrompt

definition session_prompt_mode :: "plan_mode_tracker \<Rightarrow> prompt_mode" where
  "session_prompt_mode t = (if is_active t then PlanPrompt else Agent)"

definition from_meta_str :: "string \<Rightarrow> prompt_mode" where
  "from_meta_str s =
     (if s = ''ask'' then AskMode else if s = ''plan'' then PlanPrompt else Agent)"

definition is_read_only :: "prompt_mode \<Rightarrow> bool" where
  "is_read_only m \<longleftrightarrow> m = AskMode \<or> m = PlanPrompt"

definition should_use_full_reminder :: "plan_mode_tracker \<Rightarrow> bool" where
  "should_use_full_reminder t \<longleftrightarrow> reminder_count t mod 2 = 0"

definition is_reentry :: "plan_mode_tracker \<Rightarrow> bool" where
  "is_reentry t \<longleftrightarrow> was_previously_active t \<and> pm_state t = Pending"

definition enter_pending :: "plan_mode_tracker \<Rightarrow> plan_mode_tracker \<times> bool" where
  "enter_pending t =
     (case pm_state t of
        Inactive \<Rightarrow>
          ((revoke_external_children t)\<lparr>pm_state := Pending, pending_exit_reminder := False\<rparr>, True)
      | ExitPending \<Rightarrow>
          ((revoke_external_children t)\<lparr>pm_state := Active, pending_exit_reminder := False\<rparr>, True)
      | _ \<Rightarrow> (t, False))"

definition activate :: "plan_mode_tracker \<Rightarrow> plan_mode_tracker \<times> bool" where
  "activate t =
     (if pm_state t \<noteq> Pending then (t, False)
      else ((revoke_external_children t)
              \<lparr>pm_state := Active, was_previously_active := True, reminder_count := 0\<rparr>, True))"

definition activate_mid_turn :: "string \<Rightarrow> plan_mode_tracker \<Rightarrow> plan_mode_tracker \<times> bool" where
  "activate_mid_turn rendered_reminder t =
     (if pm_state t \<noteq> Pending then (t, False)
      else ((revoke_external_children t)
              \<lparr>pm_state := Active, was_previously_active := True, reminder_count := 0,
               pending_activation := Some \<lparr>reminder_text = rendered_reminder,
                 prior_was_previously_active = was_previously_active t\<rparr>\<rparr>, True))"

definition take_pending_activation :: "plan_mode_tracker \<Rightarrow> plan_mode_tracker \<times> string option" where
  "take_pending_activation t =
     (t\<lparr>pending_activation := None\<rparr>, map_option reminder_text (pending_activation t))"

definition activate_from_tool :: "plan_mode_tracker \<Rightarrow> plan_mode_tracker \<times> bool" where
  "activate_from_tool t =
     (if pm_state t \<noteq> Inactive then (t, False)
      else ((revoke_external_children t)
              \<lparr>pm_state := Active, was_previously_active := True, reminder_count := 0,
               pending_exit_reminder := False\<rparr>, True))"

definition deactivate_approved :: "plan_mode_tracker \<Rightarrow> plan_mode_tracker \<times> bool" where
  "deactivate_approved t =
     (if pm_state t \<noteq> Active then (t, False)
      else (t\<lparr>pm_state := Inactive, reminder_count := 0, awaiting_plan_approval := False,
              pending_activation := None\<rparr>, True))"

definition user_exit :: "bool \<Rightarrow> plan_mode_tracker \<Rightarrow> plan_mode_tracker" where
  "user_exit turn_in_flight t =
     (let t1 = t\<lparr>awaiting_plan_approval := False, pending_activation := None\<rparr>
      in case (pending_activation t, pm_state t) of
           (Some p, Active) \<Rightarrow>
             t1\<lparr>pm_state := Inactive, was_previously_active := prior_was_previously_active p\<rparr>
         | (_, Pending) \<Rightarrow> t1\<lparr>pm_state := Inactive\<rparr>
         | (_, Active) \<Rightarrow>
             (if turn_in_flight then t1\<lparr>pm_state := ExitPending\<rparr>
              else t1\<lparr>pm_state := Inactive, pending_exit_reminder := True\<rparr>)
         | (_, _) \<Rightarrow> t1)"

definition complete_deferred_exit :: "plan_mode_tracker \<Rightarrow> plan_mode_tracker" where
  "complete_deferred_exit t =
     (if pm_state t \<noteq> ExitPending then t
      else t\<lparr>pm_state := Inactive, pending_exit_reminder := True\<rparr>)"

definition queue_exit_reminder :: "plan_mode_tracker \<Rightarrow> plan_mode_tracker" where
  "queue_exit_reminder t = t\<lparr>pending_exit_reminder := True\<rparr>"

definition record_reminder_injected :: "plan_mode_tracker \<Rightarrow> plan_mode_tracker" where
  "record_reminder_injected t = t\<lparr>reminder_count := reminder_count t + 1\<rparr>"

definition clear_pending_exit_reminder :: "plan_mode_tracker \<Rightarrow> plan_mode_tracker" where
  "clear_pending_exit_reminder t = t\<lparr>pending_exit_reminder := False\<rparr>"

definition reset_after_compaction :: "plan_mode_tracker \<Rightarrow> plan_mode_tracker" where
  "reset_after_compaction t =
     (if pm_state t = Active then t\<lparr>reminder_count := 0, pending_activation := None\<rparr> else t)"

section \<open>The edit gate\<close>

text \<open>The variants of \<open>ToolInput\<close> the gate looks at; every other variant is \<open>OtherTool\<close>.\<close>

datatype tool_input =
    Task | ApplyPatch string | SearchReplace | HashlineEdit | Write | ExitPlanModeTool | OtherTool

datatype plan_edit_gate = GateAllow | RejectNonPlanFile

datatype leaf_metadata = RegularFile | OtherFileType | NotFound | OtherIoError

definition is_plan_file_write :: "string \<Rightarrow> path \<Rightarrow> bool" where
  "is_plan_file_write target plan_file \<longleftrightarrow>
     starts_with target ''/'' \<and> path_components target = plan_file"

definition plan_file_is_safe :: "leaf_metadata \<Rightarrow> bool" where
  "plan_file_is_safe m \<longleftrightarrow> m = RegularFile \<or> m = NotFound"

definition should_auto_approve_edit :: "leaf_metadata \<Rightarrow> plan_mode_tracker \<Rightarrow> string \<Rightarrow> bool" where
  "should_auto_approve_edit m t edit_path \<longleftrightarrow>
     is_active t \<and> is_plan_file_write edit_path (plan_file_path t) \<and> plan_file_is_safe m"

definition canonical_file_target :: "tool_env \<Rightarrow> path \<Rightarrow> path option" where
  "canonical_file_target env p =
     (case file_name p of
        None \<Rightarrow> None
      | Some name \<Rightarrow>
          map_option (\<lambda>parent. parent @ [name]) (Option.bind (path_parent p) (canonicalize env)))"

fun hunk_edit_target :: "hunk \<Rightarrow> string option" where
  "hunk_edit_target (AddFile p s) = Some p"
| "hunk_edit_target (UpdateFile p None cs) = Some p"
| "hunk_edit_target _ = None"

definition apply_patch_only_edits_plan_file ::
  "tool_env \<Rightarrow> leaf_metadata \<Rightarrow> plan_mode_tracker \<Rightarrow> string \<Rightarrow> bool" where
  "apply_patch_only_edits_plan_file env m t patch =
     (case parse_patch patch of
        Inl _ \<Rightarrow> False
      | Inr parsed \<Rightarrow>
          (if hunks parsed = [] \<or> \<not> plan_file_is_safe m then False
           else (case canonical_file_target env (plan_file_path t) of
                   None \<Rightarrow> False
                 | Some plan_file \<Rightarrow>
                     list_all (\<lambda>h. case hunk_edit_target h of
                         None \<Rightarrow> False
                       | Some p \<Rightarrow> canonical_file_target env (path_join (cwd env) p) = Some plan_file)
                       (hunks parsed))))"

definition plan_mode_edit_gate ::
  "tool_env \<Rightarrow> leaf_metadata \<Rightarrow> plan_mode_tracker \<Rightarrow> tool_input \<Rightarrow> access_kind \<Rightarrow> plan_edit_gate" where
  "plan_mode_edit_gate env m t input access =
     (if \<not> is_active t then GateAllow
      else
        (case input of
           Task \<Rightarrow> GateAllow
         | ApplyPatch patch \<Rightarrow>
             (if apply_patch_only_edits_plan_file env m t patch then GateAllow else RejectNonPlanFile)
         | _ \<Rightarrow>
             (case access of
                Edit p \<Rightarrow>
                  (if input \<notin> {SearchReplace, HashlineEdit, Write} then RejectNonPlanFile
                   else if \<not> should_auto_approve_edit m t p then RejectNonPlanFile
                   else GateAllow)
              | _ \<Rightarrow> GateAllow)))"

definition plan_edit_auto_approved ::
  "tool_env \<Rightarrow> leaf_metadata \<Rightarrow> plan_mode_tracker \<Rightarrow> tool_input \<Rightarrow> access_kind \<Rightarrow> bool \<Rightarrow> bool" where
  "plan_edit_auto_approved env m t input access hook_asks =
     (if hook_asks then False
      else (case input of
              ApplyPatch patch \<Rightarrow> is_active t \<and> apply_patch_only_edits_plan_file env m t patch
            | _ \<Rightarrow> (case access of Edit p \<Rightarrow> should_auto_approve_edit m t p | _ \<Rightarrow> False)))"

record 's prepared_tool_call =
  is_edit :: bool
  prepared_plan :: "'s plan_file option"

definition plan_dispatch_allowed :: "plan_mode_tracker \<Rightarrow> 's prepared_tool_call \<Rightarrow> bool \<Rightarrow> bool" where
  "plan_dispatch_allowed t prepared is_task \<longleftrightarrow>
     \<not> is_active t \<or> \<not> is_edit prepared \<or> is_task \<or>
     (case prepared_plan prepared of None \<Rightarrow> False | Some plan \<Rightarrow> plan_path plan = plan_file_path t)"

section \<open>Leaving plan mode\<close>

datatype plan_file_read = Present string | Absent | Unreadable

definition classify_plan_file_read :: "leaf_metadata + string \<Rightarrow> plan_file_read" where
  "classify_plan_file_read r =
     (case r of
        Inr text \<Rightarrow> (if trim text \<noteq> [] then Present text else Absent)
      | Inl e \<Rightarrow> (if e = NotFound then Absent else Unreadable))"

definition should_intercept_exit_plan_approval ::
  "bool \<Rightarrow> bool \<Rightarrow> bool \<Rightarrow> plan_file_read \<Rightarrow> bool" where
  "should_intercept_exit_plan_approval is_exit_plan_mode is_switch_to_agent is_create_plan plan_read =
     (if \<not> is_exit_plan_mode \<and> \<not> is_switch_to_agent \<and> \<not> is_create_plan then False
      else if is_switch_to_agent \<and> plan_read = Absent then False
      else True)"

definition split_exit_plan_tail :: "('c \<Rightarrow> bool) \<Rightarrow> 'c list \<Rightarrow> 'c list \<times> 'c list" where
  "split_exit_plan_tail is_exit_plan_kind calls =
     (filter (\<lambda>c. \<not> is_exit_plan_kind c) calls, filter is_exit_plan_kind calls)"

datatype plan_approval_outcome = Approved | CancelledApproval | Abandoned

definition outcome_from_response :: "string \<Rightarrow> plan_approval_outcome" where
  "outcome_from_response s =
     (if s = ''approved'' then Approved else if s = ''abandoned'' then Abandoned else CancelledApproval)"

definition revise_plan_message :: "string \<Rightarrow> string" where
  "revise_plan_message feedback =
     (let fb = trim feedback
      in if fb = []
         then ''The user wants to revise the plan. Ask the user what changes they would like to make.''
         else ''The user wants to revise the plan. The user said:'' @ [nl] @ fb)"

datatype resume_action = LeaveAndImplement | StayAndRevise string | LeaveOnly

definition resume_action_for :: "plan_approval_outcome \<Rightarrow> string option \<Rightarrow> resume_action" where
  "resume_action_for oc feedback =
     (case oc of
        Approved \<Rightarrow> LeaveAndImplement
      | CancelledApproval \<Rightarrow>
          StayAndRevise (revise_plan_message (case feedback of None \<Rightarrow> [] | Some f \<Rightarrow> f))
      | Abandoned \<Rightarrow> LeaveOnly)"

section \<open>The lifecycle as a state machine\<close>

inductive pm_step :: "plan_mode_tracker \<Rightarrow> plan_mode_tracker \<Rightarrow> bool" where
  "pm_step t (fst (enter_pending t))"
| "pm_step t (fst (activate t))"
| "pm_step t (fst (activate_mid_turn r t))"
| "pm_step t (fst (take_pending_activation t))"
| "pm_step t (fst (activate_from_tool t))"
| "pm_step t (fst (deactivate_approved t))"
| "pm_step t (user_exit turn_in_flight t)"
| "pm_step t (complete_deferred_exit t)"
| "pm_step t (queue_exit_reminder t)"
| "pm_step t (record_reminder_injected t)"
| "pm_step t (clear_pending_exit_reminder t)"
| "pm_step t (reset_after_compaction t)"
| "pm_step t (set_awaiting_plan_approval b t)"
| "pm_step t (client_hooks_will_change t)"
| "pm_step t (set_permission_handle t)"

inductive pm_reach :: "path \<Rightarrow> plan_mode_tracker \<Rightarrow> bool" for session_dir where
  fresh: "pm_reach session_dir (tracker_new session_dir)"
| restored: "pm_reach session_dir (from_snapshot session_dir sn)"
| step: "pm_reach session_dir t \<Longrightarrow> pm_step t t' \<Longrightarrow> pm_reach session_dir t'"

named_theorems pm_defs \<open>the tracker's operations\<close>

declare enter_pending_def [pm_defs] activate_def [pm_defs] activate_mid_turn_def [pm_defs]
  take_pending_activation_def [pm_defs] activate_from_tool_def [pm_defs]
  deactivate_approved_def [pm_defs] user_exit_def [pm_defs] complete_deferred_exit_def [pm_defs]
  queue_exit_reminder_def [pm_defs] record_reminder_injected_def [pm_defs]
  clear_pending_exit_reminder_def [pm_defs] reset_after_compaction_def [pm_defs]
  set_awaiting_plan_approval_def [pm_defs] client_hooks_will_change_def [pm_defs]
  set_permission_handle_def [pm_defs] revoke_external_children_def [pm_defs] Let_def [pm_defs]

definition pm_inv :: "path \<Rightarrow> plan_mode_tracker \<Rightarrow> bool" where
  "pm_inv session_dir t \<longleftrightarrow>
     plan_file_path t = path_join session_dir ''plan.md'' \<and>
     (pending_activation t \<noteq> None \<longrightarrow> pm_state t = Active \<and> was_previously_active t)"

lemma pm_inv_step: "pm_step t t' \<Longrightarrow> pm_inv d t \<Longrightarrow> pm_inv d t'"
  by (erule pm_step.cases)
     (auto simp: pm_inv_def pm_defs split: plan_mode_state.splits option.splits)

lemma pm_reach_inv: "pm_reach d t \<Longrightarrow> pm_inv d t"
  by (induction rule: pm_reach.induct)
     (auto simp: pm_inv_def tracker_new_def from_snapshot_def Let_def intro: pm_inv_step
       dest!: pm_inv_step)

lemma pm_step_revokes:
  assumes "pm_step t t'" and "has_permission_handle t" and "\<not> is_active t" and "is_active t'"
  shows "leases_revoked t < leases_revoked t'"
  using assms
  by cases (auto simp: is_active_def pm_defs split: plan_mode_state.splits option.splits if_splits)

section \<open>Properties of plan mode\<close>

text \<open>C37: In every state a session's tracker can reach (fresh or restored, under any sequence of client
  toggles, tool calls, turn ends, compactions and hook changes) the plan file is the one of the session, and
  an undelivered activation reminder exists only while plan mode is active and counted as entered. Every
  step that makes plan mode active has revoked the leases of unrestricted external processes.\<close>

theorem plan_mode_invariant:
  assumes "pm_reach session_dir t"
  shows "pm_inv session_dir t \<and>
    (\<forall>t'. pm_step t t' \<and> has_permission_handle t \<and> \<not> is_active t \<and> is_active t' \<longrightarrow>
      leases_revoked t < leases_revoked t')"
  using pm_reach_inv [OF assms] pm_step_revokes by blast

theorem plan_mode_invariant_witness:
  "pm_inv [''s''] (fst (activate (fst (enter_pending (tracker_new [''s''])))))"
proof -
  have "pm_reach [''s''] (fst (activate (fst (enter_pending (tracker_new [''s''])))))"
    by (rule pm_reach.step [OF pm_reach.step [OF pm_reach.fresh pm_step.intros(1)] pm_step.intros(2)])
  from plan_mode_invariant [OF this] show ?thesis by blast
qed

text \<open>Toggling plan mode on during a turn and off again before the reminder is delivered restores the
  lifecycle state and the re-entry flag; the counters, the approval flag and the exit reminder are reset
  and nothing else changes.\<close>

theorem mid_turn_toggle_withdrawn:
  assumes "pm_state t = Inactive"
  shows "user_exit in_flight (fst (activate_mid_turn r (fst (enter_pending t)))) =
    t\<lparr>leases_revoked := leases_revoked t + (if has_permission_handle t then 2 else 0),
      reminder_count := 0, pending_exit_reminder := False, awaiting_plan_approval := False,
      pending_activation := None\<rparr>"
  using assms by (cases t) (simp add: pm_defs)

theorem mid_turn_toggle_withdrawn_witness:
  "pm_state (user_exit True (fst (activate_mid_turn ''r'' (fst (enter_pending (tracker_new [''s''])))))) =
   Inactive"
  using mid_turn_toggle_withdrawn [of "tracker_new [''s'']" True "''r''"] by (simp add: tracker_new_def)

text \<open>A restored tracker is in a stable state (inactive or active): a pending entry is forgotten, a
  pending exit is completed with its exit reminder, everything else persisted is kept, and saving and
  restoring again changes nothing.\<close>

theorem snapshot_restore:
  "from_snapshot d (snapshot_of (from_snapshot d sn)) = from_snapshot d sn \<and>
   pm_state (from_snapshot d sn) = (if snap_state sn = Active then Active else Inactive) \<and>
   pending_exit_reminder (from_snapshot d sn) =
     (snap_pending_exit_reminder sn \<or> snap_state sn = ExitPending) \<and>
   was_previously_active (from_snapshot d sn) = snap_was_previously_active sn \<and>
   reminder_count (from_snapshot d sn) = snap_reminder_count sn \<and>
   awaiting_plan_approval (from_snapshot d sn) = snap_awaiting_plan_approval sn"
  by (cases "snap_state sn") (simp_all add: from_snapshot_def snapshot_of_def Let_def)

text \<open>What the gate lets through.\<close>

definition edits_only_plan_file ::
  "tool_env \<Rightarrow> plan_mode_tracker \<Rightarrow> tool_input \<Rightarrow> access_kind \<Rightarrow> bool" where
  "edits_only_plan_file env t input access =
     (case input of
        ApplyPatch patch \<Rightarrow>
          (\<exists>parsed target. parse_patch patch = Inr parsed \<and> hunks parsed \<noteq> [] \<and>
             canonical_file_target env (plan_file_path t) = Some target \<and>
             (\<forall>h\<in>set (hunks parsed). \<exists>p. hunk_edit_target h = Some p \<and>
                canonical_file_target env (path_join (cwd env) p) = Some target))
      | _ \<Rightarrow>
          (\<forall>p. access = Edit p \<longrightarrow>
             input \<in> {SearchReplace, HashlineEdit, Write} \<and> path_components p = plan_file_path t))"

lemma patch_gate_targets:
  "apply_patch_only_edits_plan_file env m t patch \<Longrightarrow> edits_only_plan_file env t (ApplyPatch patch) access"
  by (auto simp: apply_patch_only_edits_plan_file_def edits_only_plan_file_def list_all_iff
      split: sum.splits option.splits if_splits)


definition plan_example :: plan_mode_tracker where
  "plan_example = (tracker_new [''s''])\<lparr>pm_state := Active\<rparr>"

definition plan_example_env :: tool_env where
  "plan_example_env = \<lparr>cwd = [''s''], canonicalize = Some, is_symlink = (\<lambda>p. False),
     diagnostics = (\<lambda>_ _ _ _. [])\<rparr>"

definition plan_example_patch :: string where
  "plan_example_patch =
     join [nl] [''*** Begin Patch'', ''*** Add File: plan.md'', ''+x'', ''*** End Patch'']"

lemma plan_example_gate:
  "plan_mode_edit_gate plan_example_env NotFound plan_example (ApplyPatch plan_example_patch)
     (Edit ''apply_patch'') = GateAllow"
  by code_simp


lemma target_checked:
  assumes "canonical_file_target env p = Some target" and "canonical_file_target env (plan_path pf) = Some target"
    and "Option.bind (path_parent (plan_path pf)) (canonicalize env) = Some (canonical_parent pf)"
  shows "check_path env pf p = Inr ()"
  using assms by (auto simp: canonical_file_target_def check_path_def split: option.splits)

lemma plan_hunks_redirected:
  assumes "\<forall>h\<in>set hs. \<exists>p. hunk_edit_target h = Some p \<and> check_path env pf (path_join (cwd env) p) = Inr ()"
  shows "\<exists>hs'. plan_hunks env pf hs = Inr hs' \<and> length hs' = length hs \<and>
    (\<forall>h\<in>set hs'. hunk_edit_target h = Some (plan_text pf))"
  using assms
proof (induction hs)
  case (Cons h hs)
  obtain p where p: "hunk_edit_target h = Some p" "check_path env pf (path_join (cwd env) p) = Inr ()"
    using Cons.prems by auto
  have "\<exists>h'. plan_hunk env pf h = Inr h' \<and> hunk_edit_target h' = Some (plan_text pf)"
    using p by (cases "(env, pf, h)" rule: plan_hunk.cases) auto
  with Cons show ?case by (auto simp: sum_bind_def)
qed simp

text \<open>The gate and the tool agree: a patch the gate allows is never refused by the plan-file capability
  opened for the same plan file; all its hunks are redirected to the plan file.\<close>

theorem plan_gate_tool_agree:
  assumes "apply_patch_only_edits_plan_file env m t patch"
    and "plan_path pf = plan_file_path t"
    and "Option.bind (path_parent (plan_path pf)) (canonicalize env) = Some (canonical_parent pf)"
  shows "\<exists>parsed hs. parse_patch patch = Inr parsed \<and> plan_hunks env pf (hunks parsed) = Inr hs \<and>
    length hs = length (hunks parsed) \<and> (\<forall>h\<in>set hs. hunk_edit_target h = Some (plan_text pf))"
proof -
  obtain parsed target where p: "parse_patch patch = Inr parsed"
    "canonical_file_target env (plan_file_path t) = Some target"
    "\<forall>h\<in>set (hunks parsed). \<exists>p. hunk_edit_target h = Some p \<and>
       canonical_file_target env (path_join (cwd env) p) = Some target"
    using patch_gate_targets [OF assms(1)] by (auto simp: edits_only_plan_file_def)
  then have "\<forall>h\<in>set (hunks parsed). \<exists>p. hunk_edit_target h = Some p \<and>
      check_path env pf (path_join (cwd env) p) = Inr ()"
    using target_checked assms(2,3) by metis
  from plan_hunks_redirected [OF this] p(1) show ?thesis by blast
qed

definition plan_example_file :: "(path \<Rightarrow> dir_entry) plan_file" where
  "plan_example_file = \<lparr>plan_path = [''s'', ''plan.md''], canonical_parent = [''s''],
     plan_fs = anchored_ops [''s'', ''plan.md'']\<rparr>"

theorem plan_gate_tool_agree_witness:
  "\<exists>parsed hs. parse_patch plan_example_patch = Inr parsed \<and>
     plan_hunks plan_example_env plan_example_file (hunks parsed) = Inr hs \<and>
     length hs = length (hunks parsed) \<and> (\<forall>h\<in>set hs. hunk_edit_target h = Some (plan_text plan_example_file))"
proof (rule plan_gate_tool_agree)
  show "apply_patch_only_edits_plan_file plan_example_env NotFound plan_example plan_example_patch"
    by code_simp
qed (simp_all add: plan_example_file_def plan_example_env_def plan_example_def tracker_new_def
    path_join_def path_components_def path_parent_def)

text \<open>Turning plan mode off, on and off again while idle loses the exit reminder: the tracker is
  inactive as after the first exit, but the model is not told.\<close>

theorem exit_reminder_lost:
  assumes "pm_state t = Active" and "pending_activation t = None"
  shows "pending_exit_reminder (user_exit False t) \<and>
    pm_state (user_exit False (fst (enter_pending (user_exit False t)))) = Inactive \<and>
    \<not> pending_exit_reminder (user_exit False (fst (enter_pending (user_exit False t))))"
  using assms by (simp add: pm_defs)

theorem exit_reminder_lost_witness:
  "\<not> pending_exit_reminder (user_exit False (fst (enter_pending (user_exit False plan_example))))"
  using exit_reminder_lost [of plan_example] by (simp add: plan_example_def tracker_new_def)

text \<open>The gate and the permission bypass do disagree: for an edit of the plan file by a tool without
  the capability the bypass approves and the gate rejects.\<close>

theorem gate_stricter_than_bypass:
  assumes "should_auto_approve_edit m t p"
  shows "plan_edit_auto_approved env m t OtherTool (Edit p) False \<and>
    plan_mode_edit_gate env m t OtherTool (Edit p) = RejectNonPlanFile"
  using assms
  by (simp add: plan_edit_auto_approved_def plan_mode_edit_gate_def should_auto_approve_edit_def)

theorem gate_stricter_than_bypass_witness:
  "plan_mode_edit_gate plan_example_env NotFound plan_example OtherTool (Edit ''/s/plan.md'') = RejectNonPlanFile"
  using gate_stricter_than_bypass [of NotFound plan_example "''/s/plan.md''" plan_example_env]
  by (simp add: should_auto_approve_edit_def plan_example_def is_active_def is_plan_file_write_def
      tracker_new_def path_components_def path_join_def plan_file_is_safe_def)

end
