(* ===== verification/Path_Match.thy ===== *)
theory Path_Match
  imports Access_Types
begin

text \<open>
  How a tool path is spelled for the path globs of the permission policy: the path functions of
  \<open>permission/policy.rs\<close> with \<open>normalize_lexically\<close> of \<open>xai-grok-paths\<close> and \<open>normalize_domain\<close> of the
  fetch tool. A path is its text; \<open>components\<close> is \<open>Path::components\<close> on Unix. What the file system says
  about links is the record \<open>link_fs\<close>. The theory shows that the relative spellings offered to the globs
  belong to paths below the working directory only.
\<close>

section \<open>Path text\<close>

datatype component = RootDir | CurDir | ParentDir | Normal string

definition segment :: "string \<Rightarrow> component" where
  "segment s = (if s = ''.'' then CurDir else if s = ''..'' then ParentDir else Normal s)"

definition components :: "string \<Rightarrow> component list" where
  "components s =
     (let segs = filter (\<lambda>x. x \<noteq> []) (split_on CHR ''/'' s)
      in if starts_with s ''/'' then RootDir # map segment (filter (\<lambda>x. x \<noteq> ''.'') segs)
         else (case segs of
                 [] \<Rightarrow> []
               | f # rest \<Rightarrow> segment f # map segment (filter (\<lambda>x. x \<noteq> ''.'') rest)))"

fun component_text :: "component \<Rightarrow> string" where
  "component_text RootDir = ''/''"
| "component_text CurDir = ''.''"
| "component_text ParentDir = ''..''"
| "component_text (Normal n) = n"

fun from_components :: "component list \<Rightarrow> string" where
  "from_components (RootDir # cs) = CHR ''/'' # join ''/'' (map component_text cs)"
| "from_components cs = join ''/'' (map component_text cs)"

definition is_absolute :: "string \<Rightarrow> bool" where
  "is_absolute s \<longleftrightarrow> starts_with s ''/''"

definition join_path :: "string \<Rightarrow> string \<Rightarrow> string" where
  "join_path base s =
     (if is_absolute s then s
      else if base = [] \<or> last base = CHR ''/'' then base @ s
      else base @ ''/'' @ s)"

definition strip_path_prefix :: "string \<Rightarrow> string \<Rightarrow> string option" where
  "strip_path_prefix p base =
     (if prefix (components base) (components p)
      then Some (from_components (drop (length (components base)) (components p))) else None)"

definition parent :: "string \<Rightarrow> string option" where
  "parent p =
     (case rev (components p) of
        [] \<Rightarrow> None
      | RootDir # _ \<Rightarrow> None
      | _ # cs \<Rightarrow> Some (from_components (rev cs)))"

definition leaf_name :: "string \<Rightarrow> string option" where
  "leaf_name p = (case rev (components p) of Normal n # _ \<Rightarrow> Some n | _ \<Rightarrow> None)"

text \<open>The components kept so far, the last one first.\<close>

fun lex_step :: "component \<Rightarrow> component list \<Rightarrow> component list" where
  "lex_step CurDir acc = acc"
| "lex_step ParentDir acc =
     (case acc of
        Normal _ # rest \<Rightarrow> rest
      | RootDir # _ \<Rightarrow> acc
      | _ \<Rightarrow> ParentDir # acc)"
| "lex_step c acc = c # acc"

definition lex_components :: "string \<Rightarrow> component list" where
  "lex_components s = rev (fold lex_step (components s) [])"

definition normalize_lexically :: "string \<Rightarrow> string" where
  "normalize_lexically s =
     (if lex_components s = [] then ''.'' else from_components (lex_components s))"

section \<open>Match forms\<close>

definition path_match_string :: "string \<Rightarrow> string" where
  "path_match_string p = map (\<lambda>c. if c = CHR 0x5C then CHR ''/'' else c) p"

definition is_tilde_path :: "string \<Rightarrow> bool" where
  "is_tilde_path p \<longleftrightarrow> (case components p of Normal f # _ \<Rightarrow> starts_with f ''~'' | _ \<Rightarrow> False)"

definition joined_path :: "string \<Rightarrow> string option \<Rightarrow> string" where
  "joined_path p cwd =
     (case cwd of Some c \<Rightarrow> (if is_absolute p then p else join_path c p) | None \<Rightarrow> p)"

definition absolute_normalized_path :: "string \<Rightarrow> string option \<Rightarrow> string" where
  "absolute_normalized_path p cwd =
     (if is_tilde_path p then p else normalize_lexically (joined_path p cwd))"

definition path_has_parent_dir :: "string \<Rightarrow> bool" where
  "path_has_parent_dir p \<longleftrightarrow> ParentDir \<in> set (components p)"

definition path_match_forms :: "string \<Rightarrow> string option \<Rightarrow> string list" where
  "path_match_forms p cwd =
     (let absolute = absolute_normalized_path p cwd
      in path_match_string absolute #
         (case cwd of
            Some c \<Rightarrow>
              (case strip_path_prefix absolute (normalize_lexically c) of
                 None \<Rightarrow> []
               | Some rel \<Rightarrow>
                   (let rel_s = path_match_string rel
                    in if rel_s = [] \<or> rel_s = ''.'' then [''.'', ''./''] else [''./'' @ rel_s, rel_s]))
          | None \<Rightarrow>
              (if \<not> is_absolute absolute \<and> \<not> path_has_parent_dir absolute \<and> \<not> is_tilde_path absolute
               then (let lex_s = path_match_string absolute
                     in if lex_s \<noteq> ''.'' \<and> lex_s \<noteq> [] then [''./'' @ lex_s] else [])
               else [])))"

definition raw_absolute_tool_path :: "string \<Rightarrow> string option \<Rightarrow> string option" where
  "raw_absolute_tool_path p cwd =
     (if is_tilde_path p then None
      else if is_absolute (joined_path p cwd) then Some (path_match_string (joined_path p cwd)) else None)"

definition native_file_path :: "access_kind \<Rightarrow> string option" where
  "native_file_path access =
     (case access of
        Edit p \<Rightarrow> Some p
      | Read (Some p) \<Rightarrow> Some p
      | Grep (Some p) g \<Rightarrow> Some p
      | _ \<Rightarrow> None)"

text \<open>Only called where \<open>native_file_path\<close> gave a path; the other accesses are unreachable.\<close>

definition access_with_path :: "access_kind \<Rightarrow> string \<Rightarrow> access_kind" where
  "access_with_path access p =
     (case access of
        Edit _ \<Rightarrow> Edit p
      | Read _ \<Rightarrow> Read (Some p)
      | Grep _ g \<Rightarrow> Grep (Some p) g
      | _ \<Rightarrow> access)"

section \<open>Symbolic links\<close>

datatype lstat = IsSymlink | NotSymlink | LstatNotFound | LstatError

record link_fs =
  fs_canonicalize :: "string \<Rightarrow> string option"
  symlink_metadata :: "string \<Rightarrow> lstat"
  read_link :: "string \<Rightarrow> string option"

definition path_has_symlink :: "link_fs \<Rightarrow> string \<Rightarrow> bool" where
  "path_has_symlink fs absolute \<longleftrightarrow>
     is_absolute absolute \<and>
     list_ex (\<lambda>n. symlink_metadata fs (from_components (take n (components absolute))) = IsSymlink)
       [1 ..< Suc (length (components absolute))]"

definition MAX_SYMLINK_DEPTH :: nat where "MAX_SYMLINK_DEPTH = 40"

text \<open>\<open>k\<close> is the number of nested calls still allowed.\<close>

fun symlink_walk :: "link_fs \<Rightarrow> nat \<Rightarrow> string \<Rightarrow> string option" where
  "symlink_walk fs 0 p = None"
| "symlink_walk fs (Suc k) p =
     (case fs_canonicalize fs p of
        Some q \<Rightarrow> Some q
      | None \<Rightarrow>
          (case (parent p, leaf_name p) of
             (Some par, Some name) \<Rightarrow>
               (case symlink_walk fs k par of
                  None \<Rightarrow> None
                | Some resolved_parent \<Rightarrow>
                    (let candidate = join_path resolved_parent name
                     in case symlink_metadata fs candidate of
                          IsSymlink \<Rightarrow>
                            (case read_link fs candidate of
                               None \<Rightarrow> None
                             | Some target \<Rightarrow>
                                 symlink_walk fs k (if is_absolute target then target
                                                    else join_path resolved_parent target))
                        | LstatError \<Rightarrow> None
                        | _ \<Rightarrow> Some candidate))
           | _ \<Rightarrow> None))"

definition resolve_following_symlinks :: "link_fs \<Rightarrow> string \<Rightarrow> string option" where
  "resolve_following_symlinks fs p = symlink_walk fs (Suc MAX_SYMLINK_DEPTH) p"

definition resolve_symlink_target :: "link_fs \<Rightarrow> string \<Rightarrow> string option" where
  "resolve_symlink_target fs absolute =
     (if \<not> is_absolute absolute then None
      else map_option (\<lambda>r. path_match_string (normalize_lexically r)) (resolve_following_symlinks fs absolute))"

datatype symlink_follow = NoFollow | Target string | Unresolvable

definition follow_absolute_symlink :: "link_fs \<Rightarrow> string \<Rightarrow> string \<Rightarrow> symlink_follow" where
  "follow_absolute_symlink fs raw_absolute lexical_absolute =
     (case resolve_symlink_target fs raw_absolute of
        Some resolved \<Rightarrow> (if resolved \<noteq> lexical_absolute then Target resolved else NoFollow)
      | None \<Rightarrow> (if path_has_symlink fs raw_absolute then Unresolvable else NoFollow))"

section \<open>Domains\<close>

definition trim_end_matches :: "char \<Rightarrow> string \<Rightarrow> string" where
  "trim_end_matches c s = rev (dropWhile (\<lambda>x. x = c) (rev s))"

text \<open>Unicode lower-casing is an argument.\<close>

definition normalize_domain :: "(string \<Rightarrow> string) \<Rightarrow> string \<Rightarrow> string" where
  "normalize_domain lowercase raw =
     (let s = trim_end_matches CHR ''.'' (trim_end_matches CHR ''/'' (trim raw))
      in lowercase (case strip_prefix s ''www.'' of Some r \<Rightarrow> r | None \<Rightarrow> s))"

definition domain_matches :: "(string \<Rightarrow> string) \<Rightarrow> (string \<Rightarrow> string option) \<Rightarrow> string \<Rightarrow> string \<Rightarrow> bool" where
  "domain_matches lowercase url_host pat url =
     (case url_host url of
        None \<Rightarrow> False
      | Some host \<Rightarrow>
          (let domain = normalize_domain lowercase host; normalized_pattern = normalize_domain lowercase pat
           in domain = normalized_pattern \<or> ends_with domain (CHR ''.'' # normalized_pattern)))"

section \<open>Normalised absolute paths\<close>

definition name_ok :: "string \<Rightarrow> bool" where
  "name_ok n \<longleftrightarrow> n \<noteq> [] \<and> CHR ''/'' \<notin> set n \<and> n \<noteq> ''.'' \<and> n \<noteq> ''..''"

lemma components_absolute:
  assumes "is_absolute s"
  obtains cs where "components s = RootDir # cs"
    "\<And>c. c \<in> set cs \<Longrightarrow> c = ParentDir \<or> (\<exists>n. c = Normal n \<and> name_ok n)"
proof
  let ?cs = "map segment (filter (\<lambda>x. x \<noteq> ''.'') (filter (\<lambda>x. x \<noteq> []) (split_on CHR ''/'' s)))"
  show "components s = RootDir # ?cs" using assms by (simp add: components_def is_absolute_def Let_def)
  show "c = ParentDir \<or> (\<exists>n. c = Normal n \<and> name_ok n)" if "c \<in> set ?cs" for c
    using that by (auto simp: segment_def name_ok_def dest: split_on_no_sep split: if_splits)
qed

lemma fold_lex_step:
  assumes "\<And>c. c \<in> set cs \<Longrightarrow> c = ParentDir \<or> (\<exists>n. c = Normal n \<and> name_ok n)" "list_all name_ok ns"
  shows "\<exists>ms. fold lex_step cs (map Normal ns @ [RootDir]) = map Normal ms @ [RootDir] \<and> list_all name_ok ms"
  using assms
proof (induction cs arbitrary: ns)
  case (Cons c cs)
  then consider "c = ParentDir" | n where "c = Normal n" "name_ok n" by fastforce
  then show ?case
  proof cases
    case 1
    then have "lex_step c (map Normal ns @ [RootDir]) = map Normal (tl ns) @ [RootDir]" "list_all name_ok (tl ns)"
      using Cons.prems(2) by (cases ns; simp)+
    with Cons show ?thesis by simp
  next
    case (2 n)
    with Cons.prems Cons.IH [of "n # ns"] show ?thesis by simp
  qed
qed auto

lemma lex_components_absolute:
  assumes "is_absolute s"
  obtains ns where "lex_components s = RootDir # map Normal ns" "list_all name_ok ns"
proof -
  obtain cs where cs: "components s = RootDir # cs"
    "\<And>c. c \<in> set cs \<Longrightarrow> c = ParentDir \<or> (\<exists>n. c = Normal n \<and> name_ok n)"
    using components_absolute [OF assms] by metis
  obtain ms where "fold lex_step cs (map Normal [] @ [RootDir]) = map Normal ms @ [RootDir]" "list_all name_ok ms"
    using fold_lex_step [of cs "[]"] cs(2) by auto
  then have "lex_components s = RootDir # map Normal (rev ms)" "list_all name_ok (rev ms)"
    by (simp_all add: lex_components_def cs(1) rev_map)
  then show ?thesis by (rule that)
qed

lemma components_of_names:
  assumes "list_all name_ok ns"
  shows "components (from_components (RootDir # map Normal ns)) = RootDir # map Normal ns"
proof -
  have names: "map (component_text \<circ> Normal) ns = ns" by (induction ns) simp_all
  have split: "filter (\<lambda>x. x \<noteq> ''.'') (filter (\<lambda>x. x \<noteq> []) (split_on CHR ''/'' (CHR ''/'' # join ''/'' ns))) = ns"
  proof (cases "ns = []")
    case False
    then have "split_on CHR ''/'' (join ''/'' ns) = ns"
      using assms by (intro split_on_join) (auto simp: name_ok_def list_all_iff)
    with assms show ?thesis by (auto simp: name_ok_def list_all_iff intro!: filter_True)
  qed simp
  have seg: "map segment ns = map Normal ns"
    using assms by (auto simp: segment_def name_ok_def list_all_iff)
  show ?thesis by (simp add: components_def names split seg Let_def del: filter_filter split_on.simps)
qed

lemma normalize_absolute:
  assumes "is_absolute s"
  obtains ns where "components (normalize_lexically s) = RootDir # map Normal ns" "list_all name_ok ns"
    "normalize_lexically s = from_components (RootDir # map Normal ns)"
  using lex_components_absolute [OF assms] components_of_names
  by (metis normalize_lexically_def list.distinct(1))

lemma from_names: "from_components (map Normal ms) = join ''/'' ms"
proof -
  have "map (component_text \<circ> Normal) ms = ms" by (induction ms) simp_all
  then show ?thesis by (cases ms) simp_all
qed

lemma join_names_nonempty: "list_all name_ok ms \<Longrightarrow> ms \<noteq> [] \<Longrightarrow> join ''/'' ms \<noteq> [] \<and> join ''/'' ms \<noteq> ''.''"
proof (cases ms)
  case (Cons m rest)
  assume "list_all name_ok ms"
  then show ?thesis
    by (cases rest) (auto simp: Cons name_ok_def join_Cons append_eq_Cons_conv)
qed simp

lemma path_match_string_simple:
  "path_match_string s = [] \<longleftrightarrow> s = []" "path_match_string s = ''.'' \<longleftrightarrow> s = ''.''"
  by (auto simp: path_match_string_def Cons_eq_map_conv split: if_splits)

lemma joined_absolute: "is_absolute c \<Longrightarrow> is_absolute (joined_path p (Some c))"
  by (cases c) (auto simp: joined_path_def join_path_def is_absolute_def)

text \<open>What a working directory offers besides the absolute spelling: nothing for a path outside of it.\<close>

definition relative_forms :: "string list \<Rightarrow> string list" where
  "relative_forms ms =
     (if ms = [] then [''.'', ''./'']
      else [''./'' @ path_match_string (join ''/'' ms), path_match_string (join ''/'' ms)])"

text \<open>Under an absolute working directory the path globs see the normalised absolute spelling of a path,
  which has no parent components left, and relative spellings exactly when that path lies at or below the
  normalised working directory; so a workspace rule such as \<open>./**\<close> cannot be reached by climbing out with
  \<open>..\<close>. A path that starts with a tilde component is offered literally only.\<close>

theorem path_forms_contained:
  assumes "is_absolute c"
  shows "(is_tilde_path p \<longrightarrow> path_match_forms p (Some c) = [path_match_string p]) \<and>
    (\<not> is_tilde_path p \<longrightarrow>
       (\<exists>ns. list_all name_ok ns \<and> components (absolute_normalized_path p (Some c)) = RootDir # map Normal ns \<and>
          path_match_forms p (Some c) =
            path_match_string (absolute_normalized_path p (Some c)) #
            (if prefix (components (normalize_lexically c)) (RootDir # map Normal ns)
             then relative_forms (drop (length (components (normalize_lexically c)) - 1) ns) else [])))"
proof (intro conjI impI)
  obtain ks where c: "components (normalize_lexically c) = RootDir # map Normal ks"
    using normalize_absolute [OF assms] by metis
  show "path_match_forms p (Some c) = [path_match_string p]" if "is_tilde_path p"
  proof -
    from that obtain f rest where "components p = Normal f # rest"
      by (auto simp: is_tilde_path_def split: list.splits component.splits)
    with that show ?thesis
      by (simp add: path_match_forms_def absolute_normalized_path_def strip_path_prefix_def c)
  qed
  assume t: "\<not> is_tilde_path p"
  obtain ns where n: "components (absolute_normalized_path p (Some c)) = RootDir # map Normal ns" "list_all name_ok ns"
    using normalize_absolute [OF joined_absolute [OF assms, of p]] t unfolding absolute_normalized_path_def by metis
  define ms where "ms = drop (length ks) ns"
  have ms: "list_all name_ok ms" using n(2) by (auto simp: ms_def list_all_iff dest: in_set_dropD)
  have strip: "strip_path_prefix (absolute_normalized_path p (Some c)) (normalize_lexically c) =
      (if prefix (components (normalize_lexically c)) (RootDir # map Normal ns) then Some (join ''/'' ms) else None)"
    unfolding strip_path_prefix_def n(1) by (simp add: c ms_def drop_map from_names)
  have rel: "(if path_match_string (join ''/'' ms) = [] \<or> path_match_string (join ''/'' ms) = ''.'' then [''.'', ''./'']
      else [''./'' @ path_match_string (join ''/'' ms), path_match_string (join ''/'' ms)]) = relative_forms ms"
    using join_names_nonempty [OF ms] by (cases "ms = []") (simp_all add: relative_forms_def path_match_string_simple)
  have "path_match_forms p (Some c) = path_match_string (absolute_normalized_path p (Some c)) #
      (if prefix (components (normalize_lexically c)) (RootDir # map Normal ns) then relative_forms ms else [])"
    unfolding path_match_forms_def Let_def option.case strip
    by (cases "prefix (components (normalize_lexically c)) (RootDir # map Normal ns)")
      (simp_all only: if_True if_False option.case rel)
  then show "\<exists>ns. list_all name_ok ns \<and> components (absolute_normalized_path p (Some c)) = RootDir # map Normal ns \<and>
      path_match_forms p (Some c) = path_match_string (absolute_normalized_path p (Some c)) #
        (if prefix (components (normalize_lexically c)) (RootDir # map Normal ns)
         then relative_forms (drop (length (components (normalize_lexically c)) - 1) ns) else [])"
    by (intro exI [of _ ns] conjI n) (simp only: c ms_def length_Cons length_map diff_Suc_1)
qed

theorem path_forms_contained_witness:
  "is_absolute ''/home/u'' \<and> \<not> is_tilde_path ''src/../../x'' \<and>
   path_match_forms ''src/../../x'' (Some ''/home/u'') = [''/home/x''] \<and>
   path_match_forms ''~/x'' (Some ''/home/u'') = [''~/x'']"
proof (intro conjI)
  show a: "is_absolute ''/home/u''" by code_simp
  show "\<not> is_tilde_path ''src/../../x''" by code_simp
  show "path_match_forms ''src/../../x'' (Some ''/home/u'') = [''/home/x'']" by code_simp
  have "is_tilde_path ''~/x''" by code_simp
  then have "path_match_forms ''~/x'' (Some ''/home/u'') = [path_match_string ''~/x'']"
    using path_forms_contained [OF a] by blast
  also have "path_match_string ''~/x'' = ''~/x''" by code_simp
  finally show "path_match_forms ''~/x'' (Some ''/home/u'') = [''~/x'']" .
qed

end
