(* ===== verification/Shell_Words.thy ===== *)
theory Shell_Words
  imports Rust_Std
begin

text \<open>
  The word-level analysis of shell commands in \<open>permission/bash_command_splitting.rs\<close>: recognising
  \<open>env\<close> options, peeling wrappers (\<open>timeout\<close>, \<open>nice\<close>, \<open>env\<close>, ...) and transparent prefixes
  (\<open>exec\<close>, \<open>command\<close>, \<open>builtin\<close>) to a bounded fixed point. A slice of words is the list it denotes, so
  advancing an index past the end gives the empty list, as \<open>get(i..)\<close> gives nothing. The locale
  \<open>peeler\<close> states what both strippers promise, a non-empty proper suffix, and what follows for bounded
  peeling.
\<close>

section \<open>Small helpers\<close>

type_synonym command_words = "string list"

definition basename :: "string \<Rightarrow> string" where
  "basename w = rev (takeWhile (\<lambda>c. c \<noteq> CHR ''/'' \<and> c \<noteq> CHR 0x5C) (rev w))"

definition is_setup_command :: "command_words \<Rightarrow> bool" where
  "is_setup_command cmd =
     (case cmd of
        [] \<Rightarrow> True
      | w # _ \<Rightarrow> w \<in> {''cd'', ''pushd'', ''popd'', ''export'', ''unset'', ''set'', ''sleep'', ''timeout''})"

definition is_env_assignment :: "string \<Rightarrow> bool" where
  "is_env_assignment tok \<longleftrightarrow>
     CHR ''='' \<in> set tok \<and>
     (let name = takeWhile (\<lambda>c. c \<noteq> CHR ''='') tok
      in name \<noteq> [] \<and> (is_ascii_alphabetic (hd name) \<or> hd name = CHR ''_'') \<and>
         list_all (\<lambda>c. is_ascii_alphanumeric c \<or> c = CHR ''_'') name)"

fun decode_loop :: "char option \<Rightarrow> string \<Rightarrow> string \<Rightarrow> string option" where
  "decode_loop quote [] out = (if quote = None then Some out else None)"
| "decode_loop quote (ch # chars) out =
     (if quote = None \<and> ch \<in> {sq, dq} then decode_loop (Some ch) chars out
      else if quote = Some ch then decode_loop None chars out
      else if quote = None \<and> ch = CHR 0x5C then
        (case chars of [] \<Rightarrow> None | n # chars' \<Rightarrow> decode_loop None chars' (out @ [n]))
      else if quote = Some dq \<and> ch = CHR 0x5C then
        (case chars of
           [] \<Rightarrow> None
         | n # chars' \<Rightarrow>
             (if n \<in> {CHR ''$'', CHR 0x60, dq, CHR 0x5C, nl}
              then decode_loop quote chars' (out @ [n])
              else decode_loop quote chars' (out @ [CHR 0x5C, n])))
      else decode_loop quote chars (out @ [ch]))"

definition decode_shell_literal_spelling :: "string \<Rightarrow> string option" where
  "decode_shell_literal_spelling raw = decode_loop None raw []"

definition decode_env_option_token :: "string \<Rightarrow> string" where
  "decode_env_option_token raw =
     (if sq \<notin> set raw \<and> dq \<notin> set raw then raw
      else (case decode_shell_literal_spelling raw of Some d \<Rightarrow> d | None \<Rightarrow> raw))"

definition is_high_confidence_env_s_payload :: "string \<Rightarrow> bool" where
  "is_high_confidence_env_s_payload s \<longleftrightarrow>
     s \<noteq> [] \<and> CHR 0x00 \<notin> set s \<and>
     list_all (\<lambda>c. c \<notin> {sq, dq, CHR 0x5C, CHR ''#'', CHR 0x60, CHR ''$'', nl, cr}) s"

definition take_high_confidence_payload :: "string \<Rightarrow> string option" where
  "take_high_confidence_payload raw =
     (if is_high_confidence_env_s_payload raw then Some raw else None)"

section \<open>env\<close>

datatype env_short =
    SplitStringNext
  | SplitStringGlued string
  | SplitStringDetect
  | NoArg
  | ArgNeedNext char
  | ArgGlued char
  | Uncertain

fun short_loop :: "string \<Rightarrow> env_short" where
  "short_loop [] = NoArg"
| "short_loop (c # cs) =
     (if c \<in> {CHR ''i'', CHR ''v'', CHR ''0''} then short_loop cs
      else if c = CHR ''S'' then SplitStringDetect
      else if c \<in> {CHR ''u'', CHR ''C'', CHR ''P'', CHR ''a''}
      then (if cs \<noteq> [] then ArgGlued c else ArgNeedNext c)
      else Uncertain)"

definition classify_env_short :: "string \<Rightarrow> env_short" where
  "classify_env_short tok =
     (if \<not> starts_with tok ''-'' \<or> starts_with tok ''--'' \<or> tok = ''-'' then Uncertain
      else
        (let body = tl tok
         in case strip_prefix body ''S'' of
              Some rest \<Rightarrow> (if rest = [] then SplitStringNext else SplitStringGlued rest)
            | None \<Rightarrow> short_loop body))"

record env_scan_result =
  chdir :: "string option"
  has_split_string :: bool
  options_uncertain :: bool
  split_string_script :: "string option"
  command_start :: nat

text \<open>The scan loop over the words from index \<open>i\<close> on; \<open>sc\<close> carries the facts found so far.\<close>

fun env_loop :: "command_words \<Rightarrow> env_scan_result \<Rightarrow> env_scan_result" where
  "env_loop [] sc = sc"
| "env_loop (tok_raw # rest) sc =
     (let i = command_start sc;
          next1 = sc\<lparr>command_start := i + 1\<rparr>;
          next2 = sc\<lparr>command_start := i + 2\<rparr>
      in
      if tok_raw = ''--'' then next1
      else if tok_raw = ''-'' then env_loop rest next1
      else if \<not> starts_with tok_raw ''-'' then
        (if is_env_assignment tok_raw then env_loop rest next1 else sc)
      else if starts_with tok_raw ''--'' then
        (if tok_raw = ''--chdir'' then
           (case rest of
              [] \<Rightarrow> sc\<lparr>options_uncertain := True\<rparr>
            | dir # rest' \<Rightarrow> env_loop rest' (next2\<lparr>chdir := Some dir\<rparr>))
         else if starts_with tok_raw ''--chdir='' then
           env_loop rest (next1\<lparr>chdir := strip_prefix tok_raw ''--chdir=''\<rparr>)
         else if tok_raw \<in> {''--unset'', ''--path'', ''--argv0''} then
           (case rest of
              [] \<Rightarrow> sc\<lparr>options_uncertain := True\<rparr>
            | _ # rest' \<Rightarrow> env_loop rest' next2)
         else if starts_with tok_raw ''--unset='' \<or> starts_with tok_raw ''--path='' \<or>
                 starts_with tok_raw ''--argv0='' then env_loop rest next1
         else if tok_raw \<in> {''--ignore-environment'', ''--null'', ''--debug'', ''--version'', ''--help''}
           then env_loop rest next1
         else if tok_raw = ''--split-string'' then
           sc\<lparr>has_split_string := True,
              split_string_script := (case rest of [] \<Rightarrow> split_string_script sc
                                                 | raw # _ \<Rightarrow> take_high_confidence_payload raw)\<rparr>
         else if starts_with tok_raw ''--split-string='' then
           (let payload0 = drop (length ''--split-string='') tok_raw;
                payload = (case strip_prefix (decode_env_option_token tok_raw) ''--split-string='' of
                             Some p \<Rightarrow> p | None \<Rightarrow> payload0)
            in sc\<lparr>has_split_string := True, split_string_script := take_high_confidence_payload payload\<rparr>)
         else sc\<lparr>options_uncertain := True\<rparr>)
      else
        (case classify_env_short (decode_env_option_token tok_raw) of
           SplitStringNext \<Rightarrow>
             sc\<lparr>has_split_string := True,
                split_string_script := (case rest of [] \<Rightarrow> split_string_script sc
                                                   | raw # _ \<Rightarrow> take_high_confidence_payload raw)\<rparr>
         | SplitStringGlued payload \<Rightarrow>
             sc\<lparr>has_split_string := True, split_string_script := take_high_confidence_payload payload\<rparr>
         | SplitStringDetect \<Rightarrow> sc\<lparr>has_split_string := True\<rparr>
         | NoArg \<Rightarrow> env_loop rest next1
         | ArgNeedNext kind \<Rightarrow>
             (case rest of
                [] \<Rightarrow> sc\<lparr>options_uncertain := True\<rparr>
              | operand # rest' \<Rightarrow>
                  env_loop rest' (if kind = CHR ''C'' then next2\<lparr>chdir := Some operand\<rparr> else next2))
         | ArgGlued kind \<Rightarrow>
             env_loop rest
               (if kind = CHR ''C''
                then next1\<lparr>chdir := Some (case strip_prefix tok_raw ''-C'' of Some d \<Rightarrow> d | None \<Rightarrow> [])\<rparr>
                else next1)
         | Uncertain \<Rightarrow> sc\<lparr>options_uncertain := True\<rparr>))"

definition env_scan :: "command_words \<Rightarrow> env_scan_result" where
  "env_scan cmd =
     env_loop (tl cmd)
       \<lparr>chdir = None, has_split_string = False, options_uncertain = False,
        split_string_script = None, command_start = 1\<rparr>"

definition env_split_string_script :: "command_words \<Rightarrow> string option" where
  "env_split_string_script words =
     (if words = [] \<or> basename (hd words) \<noteq> ''env'' then None
      else (let sc = env_scan words in if has_split_string sc then split_string_script sc else None))"

section \<open>Wrappers\<close>

fun skip_options :: "string list \<Rightarrow> command_words \<Rightarrow> command_words" where
  "skip_options with_value [] = []"
| "skip_options with_value (w # ws) =
     (if starts_with w ''-''
      then (if w \<in> set with_value
            then (case ws of [] \<Rightarrow> [] | _ # ws' \<Rightarrow> skip_options with_value ws')
            else skip_options with_value ws)
      else w # ws)"

definition strip_wrapper_command :: "command_words \<Rightarrow> command_words option" where
  "strip_wrapper_command cmd =
     (case cmd of
        [] \<Rightarrow> None
      | w # args \<Rightarrow>
          (let head = basename w;
               inner =
                 (if head = ''timeout'' then
                    map_option tl (case skip_options [''-k'', ''-s'', ''--kill-after'', ''--signal''] args of
                        [] \<Rightarrow> None | r \<Rightarrow> Some r)
                  else if head = ''nice'' then Some (skip_options [''-n'', ''--adjustment''] args)
                  else if head = ''ionice'' then
                    Some (skip_options [''-c'', ''-n'', ''-p'', ''-P'', ''-u'', ''--class'', ''--classdata'',
                            ''--pid'', ''--pgid'', ''--uid''] args)
                  else if head = ''chrt'' then
                    map_option tl (case skip_options [] args of [] \<Rightarrow> None | r \<Rightarrow> Some r)
                  else if head = ''stdbuf'' then Some (skip_options [''-i'', ''-o'', ''-e''] args)
                  else if head = ''env'' then
                    (let sc = env_scan cmd
                     in if has_split_string sc \<or> options_uncertain sc then None
                        else Some (drop (command_start sc) cmd))
                  else None)
           in case inner of None \<Rightarrow> None | Some r \<Rightarrow> (if r = [] then None else Some r)))"

definition is_wrapper_command :: "command_words \<Rightarrow> bool" where
  "is_wrapper_command words \<longleftrightarrow>
     words \<noteq> [] \<and>
     basename (hd words) \<in> {''timeout'', ''nice'', ''ionice'', ''chrt'', ''stdbuf'', ''env''}"

definition MAX_WRAPPER_DEPTH :: nat where "MAX_WRAPPER_DEPTH = 8"
definition MAX_INLINE_SHELL_DEPTH :: nat where "MAX_INLINE_SHELL_DEPTH = 8"
definition MAX_TRANSPARENT_PREFIX_DEPTH :: nat where "MAX_TRANSPARENT_PREFIX_DEPTH = 8"
definition MAX_NORMALIZE_ROUNDS :: nat where
  "MAX_NORMALIZE_ROUNDS = MAX_WRAPPER_DEPTH + MAX_TRANSPARENT_PREFIX_DEPTH"

record peel =
  peeled_words :: command_words
  peel_chdir :: bool
  peel_split :: bool
  peel_uncertain :: bool
  exhausted :: bool

definition scan_env_layer :: "peel \<Rightarrow> peel" where
  "scan_env_layer p =
     (let current = peeled_words p
      in if current \<noteq> [] \<and> basename (hd current) = ''env''
         then (let sc = env_scan current
               in p\<lparr>peel_chdir := peel_chdir p \<or> chdir sc \<noteq> None,
                    peel_split := peel_split p \<or> has_split_string sc,
                    peel_uncertain := peel_uncertain p \<or> options_uncertain sc\<rparr>)
         else p)"

fun unwrap_loop :: "nat \<Rightarrow> peel \<Rightarrow> peel" where
  "unwrap_loop 0 p =
     p\<lparr>exhausted := is_wrapper_command (peeled_words p) \<and> strip_wrapper_command (peeled_words p) \<noteq> None\<rparr>"
| "unwrap_loop (Suc n) p =
     (let p1 = scan_env_layer p
      in case strip_wrapper_command (peeled_words p1) of
           Some inner \<Rightarrow> unwrap_loop n (p1\<lparr>peeled_words := inner\<rparr>)
         | None \<Rightarrow> p1\<lparr>exhausted := False\<rparr>)"

definition unwrap_wrappers_checked :: "command_words \<Rightarrow> peel" where
  "unwrap_wrappers_checked words =
     unwrap_loop MAX_WRAPPER_DEPTH
       \<lparr>peeled_words = words, peel_chdir = False, peel_split = False, peel_uncertain = False, exhausted = False\<rparr>"

definition unwrap_wrappers :: "command_words \<Rightarrow> command_words" where
  "unwrap_wrappers words = peeled_words (unwrap_wrappers_checked words)"

section \<open>Transparent prefixes\<close>

datatype transparent_strip = NotPrefix | Peeled command_words | Ambiguous

definition peeled_or_not :: "command_words \<Rightarrow> transparent_strip" where
  "peeled_or_not inner = (if inner \<noteq> [] then Peeled inner else NotPrefix)"

fun exec_loop :: "command_words \<Rightarrow> transparent_strip" where
  "exec_loop [] = NotPrefix"
| "exec_loop (tok # rest) =
     (if tok = ''--'' then peeled_or_not rest
      else if tok = ''-'' \<or> \<not> starts_with tok ''-'' then Peeled (tok # rest)
      else if tok \<in> {''-c'', ''-l'', ''-cl'', ''-lc''} then exec_loop rest
      else if tok = ''-a'' then
        (case rest of
           [] \<Rightarrow> Ambiguous
         | v # rest' \<Rightarrow> (if v \<noteq> [CHR 0x00] \<and> v \<noteq> [] then exec_loop rest' else Ambiguous))
      else if starts_with tok ''-a'' then
        (if tok = ''-a'' @ [CHR 0x00] then Ambiguous else exec_loop rest)
      else if \<not> starts_with tok ''--'' \<and> list_all (\<lambda>c. c \<in> {CHR ''c'', CHR ''l''}) (tl tok)
        then exec_loop rest
      else Ambiguous)"

fun command_loop :: "command_words \<Rightarrow> transparent_strip" where
  "command_loop [] = NotPrefix"
| "command_loop (tok # rest) =
     (if tok = ''--'' then peeled_or_not rest
      else if tok = ''-'' \<or> \<not> starts_with tok ''-'' then Peeled (tok # rest)
      else if tok \<in> {''-v'', ''-V'', ''--help'', ''--version''} \<or>
              (\<not> starts_with tok ''--'' \<and> list_ex (\<lambda>c. c \<in> {CHR ''v'', CHR ''V''}) (tl tok))
        then NotPrefix
      else if tok = ''-p'' \<or> (\<not> starts_with tok ''--'' \<and> list_all (\<lambda>c. c = CHR ''p'') (tl tok))
        then command_loop rest
      else Ambiguous)"

definition strip_builtin_prefix :: "command_words \<Rightarrow> transparent_strip" where
  "strip_builtin_prefix args =
     (case args of
        [] \<Rightarrow> NotPrefix
      | tok # _ \<Rightarrow> (if starts_with tok ''-'' \<and> tok \<noteq> ''-'' then Ambiguous else peeled_or_not args))"

definition strip_transparent_prefix :: "command_words \<Rightarrow> transparent_strip" where
  "strip_transparent_prefix cmd =
     (case cmd of
        [] \<Rightarrow> NotPrefix
      | h # args \<Rightarrow>
          (if h = [] \<or> h = [CHR 0x00] then NotPrefix
           else (let head = basename h
                 in if head = ''exec'' then exec_loop args
                    else if head = ''command'' then command_loop args
                    else if head = ''builtin'' then strip_builtin_prefix args
                    else NotPrefix)))"

fun transparent_loop :: "nat \<Rightarrow> command_words \<Rightarrow> command_words option" where
  "transparent_loop 0 current =
     (case strip_transparent_prefix current of NotPrefix \<Rightarrow> Some current | _ \<Rightarrow> None)"
| "transparent_loop (Suc n) current =
     (case strip_transparent_prefix current of
        NotPrefix \<Rightarrow> Some current
      | Peeled inner \<Rightarrow> transparent_loop n inner
      | Ambiguous \<Rightarrow> None)"

text \<open>\<open>None\<close> is \<open>TransparentPrefixPeel::Ambiguous\<close>.\<close>

definition peel_transparent_prefixes :: "command_words \<Rightarrow> command_words option" where
  "peel_transparent_prefixes words = transparent_loop MAX_TRANSPARENT_PREFIX_DEPTH words"

record normalized =
  norm_words :: command_words
  norm_chdir :: bool
  norm_split :: bool
  norm_uncertain :: bool
  norm_exhausted :: bool
  norm_ambiguous :: bool

text \<open>A suffix of the same length is the same slice, so the pointer comparison of the code is the
  comparison of lengths.\<close>

fun normalize_loop :: "nat \<Rightarrow> normalized \<Rightarrow> normalized" where
  "normalize_loop 0 nm = nm"
| "normalize_loop (Suc n) nm =
     (let current = norm_words nm;
          w = unwrap_wrappers_checked current;
          nm1 = nm\<lparr>norm_words := peeled_words w, norm_chdir := norm_chdir nm \<or> peel_chdir w,
                   norm_split := norm_split nm \<or> peel_split w,
                   norm_uncertain := norm_uncertain nm \<or> peel_uncertain w,
                   norm_exhausted := norm_exhausted nm \<or> exhausted w\<rparr>
      in if norm_split nm1 \<or> norm_uncertain nm1 then nm1
         else (case peel_transparent_prefixes (norm_words nm1) of
                 None \<Rightarrow> nm1\<lparr>norm_ambiguous := True\<rparr>
               | Some inner \<Rightarrow>
                   (if length inner = length current then nm1\<lparr>norm_words := inner\<rparr>
                    else normalize_loop n (nm1\<lparr>norm_words := inner\<rparr>))))"

definition normalize_command_words :: "command_words \<Rightarrow> normalized" where
  "normalize_command_words words =
     (let nm = normalize_loop MAX_NORMALIZE_ROUNDS
                 \<lparr>norm_words = words, norm_chdir = False, norm_split = False, norm_uncertain = False,
                  norm_exhausted = False, norm_ambiguous = False\<rparr>;
          current = norm_words nm
      in if \<not> norm_ambiguous nm \<and> \<not> norm_split nm \<and> \<not> norm_uncertain nm \<and>
            (is_wrapper_command current \<and> strip_wrapper_command current \<noteq> None \<or>
             strip_transparent_prefix current \<noteq> NotPrefix)
         then nm\<lparr>norm_exhausted := True\<rparr> else nm)"

section \<open>sh\_split\_simple\<close>

definition ws_prefix :: "string \<Rightarrow> string option" where
  "ws_prefix s = List.find (\<lambda>w. prefix w s) ws_seqs"

fun flush_word :: "string \<Rightarrow> string list \<Rightarrow> string list" where
  "flush_word current result = (if current = [] then result else result @ [current])"

function sh_split_loop :: "string \<Rightarrow> bool \<Rightarrow> bool \<Rightarrow> string \<Rightarrow> string list \<Rightarrow> string list" where
  "sh_split_loop [] in_single in_double current result = flush_word current result"
| "sh_split_loop (c # cs) in_single in_double current result =
     (if c = sq \<and> \<not> in_double then sh_split_loop cs (\<not> in_single) in_double current result
      else if c = dq \<and> \<not> in_single then sh_split_loop cs in_single (\<not> in_double) current result
      else if c = CHR 0x5C then
        (case cs of
           [] \<Rightarrow> sh_split_loop [] in_single in_double current result
         | n # cs' \<Rightarrow> sh_split_loop cs' in_single in_double (current @ [n]) result)
      else
        (case (if in_single \<or> in_double then None else ws_prefix (c # cs)) of
           Some w \<Rightarrow> sh_split_loop (drop (length w - 1) cs) in_single in_double [] (flush_word current result)
         | None \<Rightarrow> sh_split_loop cs in_single in_double (current @ [c]) result))"
  by pat_completeness auto
termination
  by (relation "measure (\<lambda>(s, _). length s)") auto

definition sh_split_simple :: "string \<Rightarrow> string list" where
  "sh_split_simple s = sh_split_loop s False False [] []"

section \<open>Bounded peeling\<close>

text \<open>What a stripper promises: the inner command is a non-empty proper suffix. Iterating it at most
  \<open>n\<close> times then gives a suffix, and reaches a command it no longer peels when \<open>n\<close> is at least the
  number of words.\<close>

primrec peel_n :: "(command_words \<Rightarrow> command_words option) \<Rightarrow> nat \<Rightarrow> command_words \<Rightarrow> command_words" where
  "peel_n strip 0 ws = ws"
| "peel_n strip (Suc n) ws = (case strip ws of None \<Rightarrow> ws | Some inner \<Rightarrow> peel_n strip n inner)"

locale peeler =
  fixes strip :: "command_words \<Rightarrow> command_words option"
  assumes strip_inner: "strip ws = Some inner \<Longrightarrow> strict_suffix inner ws \<and> inner \<noteq> []"
begin

lemma strip_shorter: "strip ws = Some inner \<Longrightarrow> length inner < length ws"
  using strip_inner suffix_length_less by blast

lemma peel_suffix: "suffix (peel_n strip n ws) ws"
proof (induction n arbitrary: ws)
  case (Suc n)
  show ?case
  proof (cases "strip ws")
    case (Some inner)
    then have "suffix inner ws" using strip_inner by (simp add: strict_suffix_def)
    with Suc [of inner] Some show ?thesis by (simp add: suffix_order.trans)
  qed simp
qed simp

lemma peel_nonempty: "ws \<noteq> [] \<Longrightarrow> peel_n strip n ws \<noteq> []"
  by (induction n arbitrary: ws) (auto split: option.splits dest: strip_inner)

lemma peel_same: "length (peel_n strip (Suc n) ws) = length ws \<Longrightarrow> strip ws = None"
proof (rule ccontr)
  assume len: "length (peel_n strip (Suc n) ws) = length ws" and "strip ws \<noteq> None"
  then obtain inner where i: "strip ws = Some inner" by auto
  have "length (peel_n strip n inner) \<le> length inner" by (rule suffix_length_le [OF peel_suffix])
  with len i strip_shorter [OF i] show False by simp
qed

lemma peel_complete: "length ws \<le> n \<Longrightarrow> strip (peel_n strip n ws) = None"
proof (induction n arbitrary: ws)
  case 0
  then show ?case using strip_shorter [of "[]"] by (cases "strip []") auto
next
  case (Suc n)
  then show ?case by (auto split: option.splits dest: strip_shorter)
qed

end

lemma skip_options_suffix: "suffix (skip_options v ws) ws"
proof (induction v ws rule: skip_options.induct)
  case (2 v w ws)
  then show ?case by (auto split: list.splits simp: suffix_ConsI)
qed simp

lemma env_loop_start: "command_start sc \<le> command_start (env_loop ws sc)"
proof (induction "length ws" arbitrary: ws sc rule: less_induct)
  case less
  show ?case
  proof (cases ws)
    case (Cons tok rest)
    have a: "command_start sc \<le> command_start sc' \<Longrightarrow> command_start sc \<le> command_start (env_loop rest sc')"
      for sc'
      using less [of rest sc'] Cons by simp
    have b: "rest = x # rest' \<Longrightarrow> command_start sc \<le> command_start sc' \<Longrightarrow>
      command_start sc \<le> command_start (env_loop rest' sc')" for x rest' sc'
      using less [of rest' sc'] Cons by simp
    show ?thesis
    proof (cases rest)
      case Nil
      show ?thesis unfolding Cons env_loop.simps(2) Let_def
        by (cases "classify_env_short (decode_env_option_token tok)") (simp_all add: Nil)
    next
      case rest: (Cons x rest')
      show ?thesis unfolding Cons env_loop.simps(2) Let_def
        by (cases "classify_env_short (decode_env_option_token tok)")
          (simp_all add: rest a [unfolded rest] b [OF rest] del: env_loop.simps(2))
    qed
  qed simp
qed

lemma strict_suffix_tail: "suffix xs ws \<Longrightarrow> strict_suffix xs (w # ws)"
  by (auto simp: strict_suffix_def suffix_ConsI dest: suffix_length_le)

lemma strict_suffix_tl: "suffix xs ws \<Longrightarrow> strict_suffix (tl xs) (w # ws)"
  by (rule strict_suffix_tail) (cases xs; auto dest: suffix_ConsD)

lemma skip_options_rest: "skip_options v args = x # inner \<Longrightarrow> strict_suffix inner (w # args)"
  using strict_suffix_tl [OF skip_options_suffix, of v args w] by simp

lemma env_scan_start: "1 \<le> command_start (env_scan cmd)"
  unfolding env_scan_def by (rule order_trans [OF _ env_loop_start]) simp

lemma strict_suffix_drop: "0 < n \<Longrightarrow> ws \<noteq> [] \<Longrightarrow> strict_suffix (drop n ws) ws"
  by (cases ws; cases n) (auto intro: strict_suffix_tail suffix_drop)

lemma strip_wrapper_inner:
  assumes "strip_wrapper_command ws = Some inner"
  shows "strict_suffix inner ws \<and> inner \<noteq> []"
proof (cases ws)
  case (Cons w args)
  have env: "strict_suffix (drop (command_start (env_scan (w # args))) (w # args)) (w # args)"
    using env_scan_start [of "w # args"] by (intro strict_suffix_drop) auto
  show ?thesis
    using assms unfolding Cons strip_wrapper_command_def Let_def list.case
    by (auto simp: env intro: strict_suffix_tail strict_suffix_tl skip_options_suffix skip_options_rest
        split: option.splits if_splits list.splits simp del: drop_Cons' skip_options.simps)
qed (use assms in \<open>simp add: strip_wrapper_command_def\<close>)

lemma exec_loop_suffix: "exec_loop ws = Peeled inner \<Longrightarrow> suffix inner ws \<and> inner \<noteq> []"
  by (induction ws rule: exec_loop.induct)
    (auto simp: peeled_or_not_def suffix_ConsI split: if_splits list.splits)

lemma command_loop_suffix: "command_loop ws = Peeled inner \<Longrightarrow> suffix inner ws \<and> inner \<noteq> []"
  by (induction ws rule: command_loop.induct)
    (auto simp: peeled_or_not_def suffix_ConsI split: if_splits)

definition transparent_inner :: "command_words \<Rightarrow> command_words option" where
  "transparent_inner ws = (case strip_transparent_prefix ws of Peeled inner \<Rightarrow> Some inner | _ \<Rightarrow> None)"

lemma strip_transparent_inner:
  assumes "strip_transparent_prefix ws = Peeled inner"
  shows "strict_suffix inner ws \<and> inner \<noteq> []"
proof (cases ws)
  case (Cons h args)
  have "strip_builtin_prefix args = Peeled inner \<Longrightarrow> suffix inner args \<and> inner \<noteq> []"
    by (auto simp: strip_builtin_prefix_def peeled_or_not_def split: list.splits if_splits)
  then have "suffix inner args \<and> inner \<noteq> []"
    using assms exec_loop_suffix [of args inner] command_loop_suffix [of args inner]
    by (simp add: Cons strip_transparent_prefix_def Let_def split: if_splits)
  then show ?thesis by (simp add: Cons strict_suffix_tail)
qed (use assms in \<open>simp add: strip_transparent_prefix_def\<close>)

interpretation wrapper: peeler strip_wrapper_command
  by unfold_locales (rule strip_wrapper_inner)

interpretation transparent: peeler transparent_inner
  by unfold_locales
    (auto simp: transparent_inner_def dest: strip_transparent_inner split: transparent_strip.splits)

section \<open>What normalisation gives\<close>

lemma scan_env_layer_words [simp]: "peeled_words (scan_env_layer p) = peeled_words p"
  by (simp add: scan_env_layer_def Let_def)

lemma unwrap_loop_words:
  "peeled_words (unwrap_loop n p) = peel_n strip_wrapper_command n (peeled_words p)"
  by (induction n arbitrary: p) (auto simp: Let_def split: option.splits)

lemma unwrap_words: "peeled_words (unwrap_wrappers_checked ws) = peel_n strip_wrapper_command 8 ws"
  by (simp add: unwrap_wrappers_checked_def unwrap_loop_words MAX_WRAPPER_DEPTH_def)

lemma transparent_loop_words:
  "transparent_loop n ws = Some inner \<Longrightarrow>
     inner = peel_n transparent_inner n ws \<and> strip_transparent_prefix inner = NotPrefix"
  by (induction n arbitrary: ws) (auto simp: transparent_inner_def split: transparent_strip.splits)

text \<open>One layer removed by either stripper.\<close>

inductive peel_step :: "command_words \<Rightarrow> command_words \<Rightarrow> bool" where
  peel_wrapper: "strip_wrapper_command ws = Some inner \<Longrightarrow> peel_step ws inner"
| peel_transparent: "strip_transparent_prefix ws = Peeled inner \<Longrightarrow> peel_step ws inner"

lemma peel_n_steps:
  assumes "\<And>ws inner. strip ws = Some inner \<Longrightarrow> peel_step ws inner"
  shows "peel_step\<^sup>*\<^sup>* ws (peel_n strip n ws)"
  by (induction n arbitrary: ws)
    (auto split: option.splits intro: converse_rtranclp_into_rtranclp assms)

lemma unwrap_steps: "peel_step\<^sup>*\<^sup>* ws (peeled_words (unwrap_wrappers_checked ws))"
  unfolding unwrap_words by (rule peel_n_steps) (rule peel_wrapper)

lemma transparent_steps:
  assumes "peel_transparent_prefixes ws = Some inner"
  shows "peel_step\<^sup>*\<^sup>* ws inner"
proof -
  have "inner = peel_n transparent_inner MAX_TRANSPARENT_PREFIX_DEPTH ws"
    using assms transparent_loop_words unfolding peel_transparent_prefixes_def by blast
  moreover have "peel_step\<^sup>*\<^sup>* ws (peel_n transparent_inner n ws)" for n
    by (rule peel_n_steps)
      (auto simp: transparent_inner_def intro: peel_transparent split: transparent_strip.splits)
  ultimately show ?thesis by simp
qed

lemma peel_steps_suffix: "peel_step\<^sup>*\<^sup>* ws inner \<Longrightarrow> suffix inner ws \<and> (ws \<noteq> [] \<longrightarrow> inner \<noteq> [])"
proof (induction rule: rtranclp_induct)
  case (step y z)
  then have "strict_suffix z y \<and> z \<noteq> []"
    by (auto elim!: peel_step.cases dest: strip_wrapper_inner strip_transparent_inner)
  with step show ?case by (auto simp: strict_suffix_def intro: suffix_order.trans)
qed simp

definition flagged :: "normalized \<Rightarrow> bool" where
  "flagged nm \<longleftrightarrow> norm_split nm \<or> norm_uncertain nm \<or> norm_exhausted nm \<or> norm_ambiguous nm"

text \<open>Neither stripper applies, and the command is not an \<open>env\<close> that rewrites its arguments.\<close>

definition runs_as_is :: "command_words \<Rightarrow> bool" where
  "runs_as_is ws \<longleftrightarrow>
     strip_wrapper_command ws = None \<and> strip_transparent_prefix ws = NotPrefix \<and>
     (ws \<noteq> [] \<and> basename (hd ws) = ''env'' \<longrightarrow>
        \<not> has_split_string (env_scan ws) \<and> \<not> options_uncertain (env_scan ws))"

lemma strip_wrapper_is_wrapper: "strip_wrapper_command ws = Some inner \<Longrightarrow> is_wrapper_command ws"
  unfolding strip_wrapper_command_def is_wrapper_command_def
  by (auto simp: Let_def split: list.splits option.splits if_splits)

lemma unwrap_same:
  fixes ws defines "u \<equiv> unwrap_wrappers_checked ws"
  assumes len: "length (peeled_words u) = length ws"
  shows "strip_wrapper_command ws = None"
    and "ws \<noteq> [] \<Longrightarrow> basename (hd ws) = ''env'' \<Longrightarrow>
           peel_split u = has_split_string (env_scan ws) \<and> peel_uncertain u = options_uncertain (env_scan ws)"
proof -
  have d: "MAX_WRAPPER_DEPTH = Suc 7" by (simp add: MAX_WRAPPER_DEPTH_def)
  show n: "strip_wrapper_command ws = None"
    using len wrapper.peel_same [of 7 ws]
    unfolding u_def unwrap_wrappers_checked_def unwrap_loop_words d by simp
  show "ws \<noteq> [] \<Longrightarrow> basename (hd ws) = ''env'' \<Longrightarrow>
           peel_split u = has_split_string (env_scan ws) \<and> peel_uncertain u = options_uncertain (env_scan ws)"
    unfolding u_def unwrap_wrappers_checked_def d unwrap_loop.simps
    by (simp add: n scan_env_layer_def Let_def)
qed

lemma normalize_loop_steps: "peel_step\<^sup>*\<^sup>* (norm_words nm) (norm_words (normalize_loop n nm))"
proof (induction n arbitrary: nm)
  case (Suc n)
  note u = unwrap_steps [of "norm_words nm"]
  have t: "peel_step\<^sup>*\<^sup>* (norm_words nm) inner"
    if "peel_transparent_prefixes (peeled_words (unwrap_wrappers_checked (norm_words nm))) = Some inner" for inner
    using rtranclp_trans [OF u transparent_steps [OF that]] .
  show ?case
    using u t by (auto simp: Let_def intro!: Suc.IH [THEN [2] rtranclp_trans] split: option.splits)
qed simp

lemma normalize_steps: "peel_step\<^sup>*\<^sup>* words (norm_words (normalize_command_words words))"
  using normalize_loop_steps [of "\<lparr>norm_words = words, norm_chdir = False, norm_split = False,
      norm_uncertain = False, norm_exhausted = False, norm_ambiguous = False\<rparr>"]
  by (simp add: normalize_command_words_def Let_def)

text \<open>One round: the wrappers come off first; what follows depends on the flags and on the prefixes.\<close>

definition unwrap_round :: "normalized \<Rightarrow> normalized" where
  "unwrap_round nm =
     (let w = unwrap_wrappers_checked (norm_words nm)
      in nm\<lparr>norm_words := peeled_words w, norm_chdir := norm_chdir nm \<or> peel_chdir w,
            norm_split := norm_split nm \<or> peel_split w,
            norm_uncertain := norm_uncertain nm \<or> peel_uncertain w,
            norm_exhausted := norm_exhausted nm \<or> exhausted w\<rparr>)"

lemma normalize_loop_round:
  "normalize_loop (Suc n) nm =
     (let nm1 = unwrap_round nm
      in if norm_split nm1 \<or> norm_uncertain nm1 then nm1
         else (case peel_transparent_prefixes (norm_words nm1) of
                 None \<Rightarrow> nm1\<lparr>norm_ambiguous := True\<rparr>
               | Some inner \<Rightarrow>
                   (if length inner = length (norm_words nm) then nm1\<lparr>norm_words := inner\<rparr>
                    else normalize_loop n (nm1\<lparr>norm_words := inner\<rparr>))))"
  unfolding normalize_loop.simps unwrap_round_def Let_def by (rule refl)

lemma unwrap_round_words: "norm_words (unwrap_round nm) = peeled_words (unwrap_wrappers_checked (norm_words nm))"
  by (simp add: unwrap_round_def Let_def)

lemma suffix_same_length: "suffix xs ys \<Longrightarrow> length xs = length ys \<Longrightarrow> xs = ys"
  by (auto simp: suffix_def)

text \<open>A round that changes nothing has seen a command that runs as it is.\<close>

lemma round_settled:
  assumes "peel_transparent_prefixes (norm_words (unwrap_round nm)) = Some inner"
    and "length inner = length (norm_words nm)"
    and "\<not> norm_split (unwrap_round nm)" "\<not> norm_uncertain (unwrap_round nm)"
  shows "runs_as_is inner"
proof -
  let ?ws = "norm_words nm" and ?us = "peeled_words (unwrap_wrappers_checked (norm_words nm))"
  have us: "suffix ?us ?ws" by (rule conjunct1 [OF peel_steps_suffix [OF unwrap_steps]])
  have i: "suffix inner ?us" "strip_transparent_prefix inner = NotPrefix"
    using conjunct1 [OF peel_steps_suffix [OF transparent_steps [OF assms(1)]]] assms(1) transparent_loop_words
    unfolding unwrap_round_words peel_transparent_prefixes_def by blast+
  have len: "length ?us = length ?ws"
    using assms(2) suffix_length_le [OF us] suffix_length_le [OF i(1)] by linarith
  have "inner = ?ws"
    using suffix_same_length [OF us len] suffix_same_length [OF i(1)] len assms(2) by simp
  then show ?thesis
    using unwrap_same [OF len] i(2) assms(3,4) by (auto simp: runs_as_is_def unwrap_round_def Let_def)
qed

lemma round_shorter:
  assumes "peel_transparent_prefixes (norm_words (unwrap_round nm)) = Some inner" "norm_words nm \<noteq> []"
  shows "length inner \<le> length (norm_words nm) \<and> inner \<noteq> []"
  using suffix_length_le [OF conjunct1 [OF peel_steps_suffix [OF unwrap_steps [of "norm_words nm"]]]]
    suffix_length_le [OF conjunct1 [OF peel_steps_suffix [OF transparent_steps [OF assms(1)]]]]
    conjunct2 [OF peel_steps_suffix [OF unwrap_steps [of "norm_words nm"]]]
    conjunct2 [OF peel_steps_suffix [OF transparent_steps [OF assms(1)]]] assms(2)
  by (simp add: unwrap_round_words)

lemma normalize_loop_settled:
  assumes "length (norm_words nm) \<le> n" "norm_words nm \<noteq> []"
    and "\<not> norm_split (normalize_loop n nm)" "\<not> norm_uncertain (normalize_loop n nm)"
    and "\<not> norm_ambiguous (normalize_loop n nm)"
  shows "runs_as_is (norm_words (normalize_loop n nm))"
  using assms
proof (induction n arbitrary: nm)
  case (Suc n)
  define nm1 where "nm1 = unwrap_round nm"
  note round = normalize_loop_round [of n nm, folded nm1_def, unfolded Let_def]
  have calm: "\<not> norm_split nm1" "\<not> norm_uncertain nm1"
    using Suc.prems(3,4) unfolding round by (auto split: if_splits)
  with Suc.prems(5) round obtain inner where
    i: "peel_transparent_prefixes (norm_words nm1) = Some inner"
    by (cases "peel_transparent_prefixes (norm_words nm1)") auto
  note short = round_shorter [of nm, folded nm1_def, OF i Suc.prems(2)]
  show ?case
  proof (cases "length inner = length (norm_words nm)")
    case True
    with round calm i round_settled [of nm, folded nm1_def, OF i True calm] show ?thesis by simp
  next
    case False
    with round calm i have eq: "normalize_loop (Suc n) nm = normalize_loop n (nm1\<lparr>norm_words := inner\<rparr>)" by simp
    show ?thesis unfolding eq
      by (rule Suc.IH) (use Suc.prems short False in \<open>simp_all add: eq del: normalize_loop.simps(2)\<close>)
  qed
qed simp

lemma wrapper_guard: "(is_wrapper_command ws \<and> strip_wrapper_command ws \<noteq> None) = (strip_wrapper_command ws \<noteq> None)"
  using strip_wrapper_is_wrapper by auto

lemma normalize_unflagged:
  assumes "\<not> flagged (normalize_command_words words)"
  shows "\<not> peel_step (norm_words (normalize_command_words words)) inner"
proof -
  define nm where "nm = normalize_loop MAX_NORMALIZE_ROUNDS
    \<lparr>norm_words = words, norm_chdir = False, norm_split = False, norm_uncertain = False,
     norm_exhausted = False, norm_ambiguous = False\<rparr>"
  have eq: "normalize_command_words words = nm"
    and "strip_wrapper_command (norm_words nm) = None" "strip_transparent_prefix (norm_words nm) = NotPrefix"
    using assms unfolding normalize_command_words_def Let_def nm_def [symmetric] wrapper_guard flagged_def
    by (simp_all split: if_splits)
  then show ?thesis by (auto elim!: peel_step.cases)
qed

text \<open>C32: \<open>normalize_command_words\<close> only removes wrapper and transparent-prefix layers: its words are
  reached by single peels, so they are a non-empty suffix of the input. When it raises no flag, no
  further layer can be peeled. A command of at most 16 words is moreover fully resolved: an unflagged
  result is not an \<open>env\<close> with a split string or options of unknown arity.\<close>

theorem normalize_sound:
  fixes words :: command_words
  defines "nm \<equiv> normalize_command_words words"
  assumes "words \<noteq> []"
  shows "peel_step\<^sup>*\<^sup>* words (norm_words nm) \<and>
     suffix (norm_words nm) words \<and> norm_words nm \<noteq> [] \<and>
     (\<not> flagged nm \<longrightarrow> (\<forall>inner. \<not> peel_step (norm_words nm) inner)) \<and>
     (\<not> flagged nm \<and> length words \<le> MAX_NORMALIZE_ROUNDS \<longrightarrow> runs_as_is (norm_words nm))"
proof (intro conjI impI)
  show s: "peel_step\<^sup>*\<^sup>* words (norm_words nm)" unfolding nm_def by (rule normalize_steps)
  show "suffix (norm_words nm) words" "norm_words nm \<noteq> []" using peel_steps_suffix [OF s] assms(2) by simp_all
  show "\<not> flagged nm \<Longrightarrow> \<forall>inner. \<not> peel_step (norm_words nm) inner"
    unfolding nm_def using normalize_unflagged by blast
  show "\<not> flagged nm \<and> length words \<le> MAX_NORMALIZE_ROUNDS \<Longrightarrow> runs_as_is (norm_words nm)"
    using normalize_loop_settled [of "\<lparr>norm_words = words, norm_chdir = False, norm_split = False,
      norm_uncertain = False, norm_exhausted = False, norm_ambiguous = False\<rparr>" MAX_NORMALIZE_ROUNDS] assms(2)
    unfolding nm_def normalize_command_words_def
    by (auto simp: flagged_def Let_def split: if_splits)
qed

theorem normalize_sound_witness:
  "runs_as_is [''rm'', ''-rf'', ''/''] \<and>
   norm_words (normalize_command_words
     [''/usr/bin/env'', ''A=1'', ''exec'', ''-a'', ''x'', ''timeout'', ''-k'', ''5'', ''30'', ''rm'', ''-rf'', ''/''])
     = [''rm'', ''-rf'', ''/'']"
proof -
  let ?w = "[''/usr/bin/env'', ''A=1'', ''exec'', ''-a'', ''x'', ''timeout'', ''-k'', ''5'', ''30'', ''rm'', ''-rf'', ''/'']"
  have n: "norm_words (normalize_command_words ?w) = [''rm'', ''-rf'', ''/'']" by code_simp
  have f: "\<not> flagged (normalize_command_words ?w)" by code_simp
  have l: "length ?w \<le> MAX_NORMALIZE_ROUNDS" by code_simp
  show ?thesis using normalize_sound [of ?w] n f l by simp
qed

text \<open>An \<open>env\<close> split string is always flagged for commands within the round budget, but not past it:
  after sixteen \<open>nice command\<close> pairs the last round uncovers \<open>env -S\<close> without scanning it, and no
  flag is raised although the result still rewrites its arguments.\<close>

theorem split_string_past_budget:
  "let words = concat (replicate 16 [''nice'', ''command'']) @ [''env'', ''-S'', ''rm -rf /''];
       nm = normalize_command_words words
   in \<not> flagged nm \<and> norm_words nm = [''env'', ''-S'', ''rm -rf /''] \<and>
      has_split_string (env_scan (norm_words nm))"
  by code_simp

text \<open>An option of \<open>stdbuf\<close> whose value is a separate word but which the table does not list is
  skipped as a plain flag: the value is taken for the command, nothing is flagged, and the real command
  is hidden among the arguments.\<close>

theorem unlisted_option_hides_command:
  "norm_words (normalize_command_words ([''stdbuf'', ''--output'', ''L''] @ cmd)) = ''L'' # cmd \<and>
   \<not> flagged (normalize_command_words ([''stdbuf'', ''--output'', ''L''] @ cmd))"
proof -
  have b: "basename ''stdbuf'' = ''stdbuf''" "basename ''L'' = ''L''" by code_simp+
  have s: "starts_with ''--output'' ''-''" "\<not> starts_with ''L'' ''-''" by code_simp+
  have w: "strip_wrapper_command (''stdbuf'' # ''--output'' # ''L'' # cmd) = Some (''L'' # cmd)"
    "strip_wrapper_command (''L'' # cmd) = None"
    by (simp_all add: strip_wrapper_command_def b s Let_def)
  have t: "strip_transparent_prefix (''L'' # cmd) = NotPrefix"
    by (simp add: strip_transparent_prefix_def b Let_def)
  have e: "MAX_WRAPPER_DEPTH = Suc (Suc 6)" "MAX_TRANSPARENT_PREFIX_DEPTH = Suc 7"
    "MAX_NORMALIZE_ROUNDS = Suc (Suc 14)"
    by code_simp+
  have u: "unwrap_wrappers_checked (''stdbuf'' # ''--output'' # ''L'' # cmd) = plain"
    "unwrap_wrappers_checked (''L'' # cmd) = plain"
    if "plain = \<lparr>peeled_words = ''L'' # cmd, peel_chdir = False, peel_split = False, peel_uncertain = False,
                 exhausted = False\<rparr>" for plain
    unfolding unwrap_wrappers_checked_def e(1) unwrap_loop.simps that
    by (simp_all add: w b scan_env_layer_def Let_def)
  have p: "peel_transparent_prefixes (''L'' # cmd) = Some (''L'' # cmd)"
    unfolding peel_transparent_prefixes_def e(2) transparent_loop.simps by (simp add: t)
  have n: "normalize_loop MAX_NORMALIZE_ROUNDS
     \<lparr>norm_words = ''stdbuf'' # ''--output'' # ''L'' # cmd, norm_chdir = False, norm_split = False,
      norm_uncertain = False, norm_exhausted = False, norm_ambiguous = False\<rparr> =
     \<lparr>norm_words = ''L'' # cmd, norm_chdir = False, norm_split = False,
      norm_uncertain = False, norm_exhausted = False, norm_ambiguous = False\<rparr>"
    unfolding e(3) normalize_loop.simps by (simp add: u p Let_def)
  show ?thesis
    by (simp add: normalize_command_words_def n w t flagged_def Let_def)
qed

end
