(* ===== verification/Shell_Tree.thy ===== *)
theory Shell_Tree
  imports Shell_Words File_Store "HOL-Library.Multiset" "HOL-Library.Product_Lexorder"
begin

text \<open>
  The syntax-tree side of \<open>permission/bash_command_splitting.rs\<close>: which scripts decompose into plain
  commands, the words and spans of those commands, the highlighted primary command, and the soft breaks of
  the permission prompt. The tree-sitter parser is an argument \<open>parse\<close> that returns a tree or nothing; a
  tree is its root node with the error flag. The spans of a tree lie inside the text it was parsed from, so
  slicing never panics; a span outside is treated like text that is not UTF-8.
\<close>

section \<open>Trees\<close>

text \<open>A child carries the name of the field it fills in its parent, empty when it fills none.\<close>

datatype node =
  Node (kind: string) (is_named: bool) (field_name: string) (start_byte: nat) (end_byte: nat)
    (children: "node list")

record tree =
  root_node :: node
  has_error :: bool

type_synonym shell_parser = "string \<Rightarrow> tree option"

lemma size_node_pos: "0 < size (n :: node)"
  by (cases n) simp

lemma size_children: "sum_list (map size (children n)) < size n"
  by (cases n) (simp add: size_list_conv_sum_list)

definition slice :: "string \<Rightarrow> nat \<Rightarrow> nat \<Rightarrow> string" where
  "slice s i j = take (j - i) (drop i s)"

definition is_char_boundary :: "string \<Rightarrow> nat \<Rightarrow> bool" where
  "is_char_boundary s i \<longleftrightarrow> i = 0 \<or> i = length s \<or> (i < length s \<and> \<not> cont (s ! i))"

definition utf8_text :: "string \<Rightarrow> node \<Rightarrow> string option" where
  "utf8_text src n =
     (if start_byte n \<le> end_byte n \<and> end_byte n \<le> length src
      then from_utf8 (slice src (start_byte n) (end_byte n)) else None)"

section \<open>Plain commands\<close>

record plain_command =
  pc_words :: "string list"
  span_start :: nat
  span_end :: nat

definition spans_whole_script :: "plain_command \<Rightarrow> string \<Rightarrow> bool" where
  "spans_whole_script c script \<longleftrightarrow>
     is_char_boundary script (span_start c) \<and> is_char_boundary script (span_end c) \<and>
     trim (take (span_start c) script) = [] \<and> trim (drop (span_end c) script) = []"

text \<open>The words and the span collected so far.\<close>

record plain_state =
  ps_words :: "string list"
  ps_start :: "nat option"
  ps_end :: "nat option"

definition add_word :: "node \<Rightarrow> string option \<Rightarrow> plain_state \<Rightarrow> plain_state option" where
  "add_word n text ps =
     map_option (\<lambda>t. \<lparr>ps_words = ps_words ps @ [t],
                      ps_start = (case ps_start ps of None \<Rightarrow> Some (start_byte n) | s \<Rightarrow> s),
                      ps_end = Some (end_byte n)\<rparr>) text"

definition strip_quotes :: "string \<Rightarrow> string option" where
  "strip_quotes s = Option.bind (strip_prefix s [sq]) (\<lambda>r. strip_suffix r [sq])"

definition plain_string :: "node \<Rightarrow> bool" where
  "plain_string n \<longleftrightarrow> map kind (children n) = [[dq], ''string_content'', [dq]]"

definition plain_child :: "string \<Rightarrow> node \<Rightarrow> plain_state \<Rightarrow> plain_state option" where
  "plain_child src child ps =
     (if kind child = ''variable_assignment'' then Some ps
      else if kind child = ''command_name'' then
        (case filter is_named (children child) of
           [] \<Rightarrow> None
         | word_node # _ \<Rightarrow>
             (if kind word_node \<noteq> ''word'' then None
              else add_word word_node (utf8_text src word_node) ps))
      else if kind child \<in> {''word'', ''number''} then add_word child (utf8_text src child) ps
      else if kind child = ''string'' \<and> plain_string child then
        add_word child (utf8_text src (children child ! 1)) ps
      else if kind child = ''raw_string'' then
        add_word child (Option.bind (utf8_text src child) strip_quotes) ps
      else if kind child = ''concatenation'' then add_word child (utf8_text src child) ps
      else None)"

fun plain_children :: "string \<Rightarrow> node list \<Rightarrow> plain_state \<Rightarrow> plain_state option" where
  "plain_children src [] ps = Some ps"
| "plain_children src (c # cs) ps = Option.bind (plain_child src c ps) (plain_children src cs)"

definition parse_plain_command_from_node :: "string \<Rightarrow> node \<Rightarrow> plain_command option" where
  "parse_plain_command_from_node src cmd =
     (if kind cmd \<noteq> ''command'' then None
      else map_option
        (\<lambda>ps. \<lparr>pc_words = ps_words ps,
               span_start = (case ps_start ps of Some s \<Rightarrow> s | None \<Rightarrow> start_byte cmd),
               span_end = (case ps_end ps of Some e \<Rightarrow> e | None \<Rightarrow> end_byte cmd)\<rparr>)
        (plain_children src (filter is_named (children cmd))
           \<lparr>ps_words = [], ps_start = None, ps_end = None\<rparr>))"

definition ALLOWED_KINDS :: "string list" where
  "ALLOWED_KINDS =
     [''program'', ''list'', ''pipeline'', ''command'', ''command_name'', ''word'', ''string'',
      ''string_content'', ''raw_string'', ''number'', ''concatenation'', ''variable_assignment'',
      ''variable_name'', ''redirected_statement'', ''file_redirect'', ''file_descriptor'', ''comment'',
      ''heredoc_redirect'', ''heredoc_start'', ''heredoc_body'', ''heredoc_content'', ''heredoc_end'']"

definition ALLOWED_PUNCT_TOKENS :: "string list" where
  "ALLOWED_PUNCT_TOKENS =
     [''&&'', ''||'', '';'', ''|'', [dq], [sq], ''='', ''>'', ''>>'', ''<'', ''<<'', ''>&'', ''&>'', ''&>>'']"

definition node_allowed :: "node \<Rightarrow> bool" where
  "node_allowed n \<longleftrightarrow>
     (if is_named n then kind n \<in> set ALLOWED_KINDS
      else \<not> (list_ex (\<lambda>c. c \<in> {CHR ''&'', CHR '';'', CHR ''|''}) (kind n) \<and>
              kind n \<notin> set ALLOWED_PUNCT_TOKENS) \<and>
           (kind n \<in> set ALLOWED_PUNCT_TOKENS \<or> trim (kind n) = []))"

definition is_command_node :: "node \<Rightarrow> bool" where
  "is_command_node n \<longleftrightarrow> is_named n \<and> kind n = ''command''"

text \<open>The walk with its explicit stack; the children are pushed in order, so the last is on top.\<close>

function command_walk :: "node list \<Rightarrow> node list \<Rightarrow> node list option" where
  "command_walk [] found = Some found"
| "command_walk (n # stack) found =
     (if \<not> node_allowed n then None
      else command_walk (rev (children n) @ stack)
             (if is_command_node n then found @ [n] else found))"
  by pat_completeness auto
termination
  by (relation "measure (\<lambda>(stack, _). sum_list (map size stack))")
    (auto simp: rev_map [symmetric] size_children)

definition try_parse_word_only_commands_sequence :: "tree \<Rightarrow> string \<Rightarrow> plain_command list option" where
  "try_parse_word_only_commands_sequence t src =
     (if has_error t then None
      else (case command_walk [root_node t] [] of
              None \<Rightarrow> None
            | Some command_nodes \<Rightarrow>
                those (map (parse_plain_command_from_node src) (sort_key start_byte command_nodes))))"

definition all_commands_from_script :: "shell_parser \<Rightarrow> string \<Rightarrow> plain_command list option" where
  "all_commands_from_script parse script =
     Option.bind (parse script) (\<lambda>t. try_parse_word_only_commands_sequence t script)"

record bash_command_highlights =
  hl_prefix :: "string list"
  highlighted_words :: "string list"
  hl_suffix :: "string list"

definition important :: "plain_command \<Rightarrow> bool" where
  "important c \<longleftrightarrow>
     unwrap_wrappers (pc_words c) \<noteq> [] \<and> \<not> is_setup_command (unwrap_wrappers (pc_words c))"

definition primary_command_from_script :: "shell_parser \<Rightarrow> string \<Rightarrow> bash_command_highlights option" where
  "primary_command_from_script parse script =
     Option.bind (all_commands_from_script parse script) (\<lambda>commands.
       map_option
         (\<lambda>c. let peeled = unwrap_wrappers (pc_words c);
                  peeled_off = length (pc_words c) - length peeled
              in \<lparr>hl_prefix = sh_split_simple (take (span_start c) script) @ take peeled_off (pc_words c),
                  highlighted_words = drop peeled_off (pc_words c),
                  hl_suffix = sh_split_simple (drop (span_end c) script)\<rparr>)
         (List.find important commands))"

section \<open>Soft breaks\<close>

definition PAYLOAD_NODE_KINDS :: "string list" where
  "PAYLOAD_NODE_KINDS =
     [''heredoc_body'', ''simple_heredoc_body'', ''heredoc_content'', ''heredoc_end'', ''string'',
      ''raw_string'', ''string_content'', ''ansi_c_string'', ''translated_string'', ''comment'']"

definition is_payload_node_kind :: "string \<Rightarrow> bool" where
  "is_payload_node_kind k \<longleftrightarrow> k \<in> set PAYLOAD_NODE_KINDS"

definition is_soft_break_operator_kind :: "string \<Rightarrow> bool" where
  "is_soft_break_operator_kind k \<longleftrightarrow> k \<in> {''&&'', ''||'', ''|'', '';''}"

definition HEREDOC_PAYLOAD :: "string list" where
  "HEREDOC_PAYLOAD = [''heredoc_body'', ''simple_heredoc_body'', ''heredoc_content'']"

definition break_after :: "string \<Rightarrow> node \<Rightarrow> nat list" where
  "break_after script n =
     (if is_soft_break_operator_kind (kind n) \<and> 0 < end_byte n \<and> end_byte n \<le> length script \<and>
         is_char_boundary script (end_byte n)
      then [end_byte n] else [])"

function break_walk :: "string \<Rightarrow> node list \<Rightarrow> nat list" where
  "break_walk script [] = []"
| "break_walk script (n # stack) =
     (if is_payload_node_kind (kind n) then break_walk script stack
      else break_after script n @ break_walk script (children n @ stack))"
  by pat_completeness auto
termination
  by (relation "measure (\<lambda>(_, stack). sum_list (map size stack))")
    (auto simp: size_children size_node_pos)

definition soft_break_offsets_after_operators :: "shell_parser \<Rightarrow> string \<Rightarrow> nat list" where
  "soft_break_offsets_after_operators parse script =
     (case parse script of
        None \<Rightarrow> []
      | Some t \<Rightarrow>
          (if has_error t then [] else remdups_adj (sort (break_walk script [root_node t]))))"

function payload_walk :: "string \<Rightarrow> node list \<Rightarrow> (nat \<times> nat) list" where
  "payload_walk script [] = []"
| "payload_walk script (n # stack) =
     (if kind n \<in> set HEREDOC_PAYLOAD
      then (if start_byte n < end_byte n \<and> end_byte n \<le> length script
            then [(start_byte n, end_byte n)] else []) @ payload_walk script stack
      else payload_walk script (children n @ stack))"
  by pat_completeness auto
termination
  by (relation "measure (\<lambda>(_, stack). sum_list (map size stack))")
    (auto simp: size_children size_node_pos)

definition heredoc_payload_byte_ranges :: "shell_parser \<Rightarrow> string \<Rightarrow> (nat \<times> nat) list" where
  "heredoc_payload_byte_ranges parse script =
     (case parse script of
        None \<Rightarrow> []
      | Some t \<Rightarrow>
          (if has_error t then [] else remdups_adj (sort (payload_walk script [root_node t]))))"

definition range_fully_inside :: "nat \<Rightarrow> nat \<Rightarrow> (nat \<times> nat) list \<Rightarrow> bool" where
  "range_fully_inside s e ranges =
     (if e < s then False else list_ex (\<lambda>(rs, re). rs \<le> s \<and> e \<le> re) ranges)"

fun cut_at :: "string \<Rightarrow> nat \<Rightarrow> nat list \<Rightarrow> string list" where
  "cut_at line start [] = (if start < length line then [drop start line] else [])"
| "cut_at line start (b # bs) =
     (if start < b then slice line start b # cut_at line b bs else cut_at line start bs)"

definition split_physical_line_at_soft_breaks :: "string \<Rightarrow> nat \<Rightarrow> nat list \<Rightarrow> string list" where
  "split_physical_line_at_soft_breaks line line_start breaks =
     (let line_end = line_start + length line;
          rel = remdups_adj
            (filter (is_char_boundary line)
              (map (\<lambda>b. b - line_start) (filter (\<lambda>b. line_start < b \<and> b < line_end) breaks)))
      in if rel = [] then [line]
         else (let chunks = cut_at line 0 rel in if chunks = [] then [line] else chunks))"

definition soft_break_chunks :: "shell_parser \<Rightarrow> string \<Rightarrow> string list" where
  "soft_break_chunks parse script =
     (let breaks = soft_break_offsets_after_operators parse script
      in if breaks = [] then [script]
         else cut_at script 0 (filter (\<lambda>b. b \<le> length script) breaks))"

section \<open>What the walks visit\<close>

text \<open>All nodes of a tree, and those outside payload nodes.\<close>

function nodes :: "node \<Rightarrow> node list" where
  "nodes n = n # concat (map nodes (children n))"
  by pat_completeness auto
termination
proof (relation "measure size")
  fix n x assume "x \<in> set (children n)"
  then have "size x \<le> sum_list (map size (children n))" by (simp add: member_le_sum_list)
  then show "(x, n) \<in> measure size" using size_children [of n] by simp
qed simp

declare nodes.simps [simp del]

abbreviation all_nodes :: "node list \<Rightarrow> node list" where
  "all_nodes stack \<equiv> concat (map nodes stack)"

lemma all_nodes_rev: "mset (all_nodes (rev ns)) = mset (all_nodes ns)"
  by (induction ns) (auto simp: ac_simps)

lemma command_walk_allowed: "command_walk stack found \<noteq> None \<longleftrightarrow> list_all node_allowed (all_nodes stack)"
proof (induction stack found rule: command_walk.induct)
  case (2 n stack found)
  have "set (all_nodes (rev (children n))) = set (all_nodes (children n))"
    by (metis all_nodes_rev set_mset_mset)
  with 2 show ?case by (auto simp: nodes.simps [of n] list_all_iff)
qed simp

lemma command_walk_found:
  "command_walk stack found = Some cs \<Longrightarrow>
     mset cs = mset found + filter_mset is_command_node (mset (all_nodes stack))"
proof (induction stack found rule: command_walk.induct)
  case (2 n stack found)
  then show ?case
    by (auto simp: nodes.simps [of n] all_nodes_rev simp del: rev_map mset_concat split: if_splits)
qed simp

lemma those_Some: "those xs = Some ys \<longleftrightarrow> xs = map Some ys"
  by (induction xs arbitrary: ys) (auto split: option.splits simp: Cons_eq_map_conv)

lemma concat_cut_at:
  "list_all (\<lambda>b. b \<le> length line) bs \<Longrightarrow> concat (cut_at line start bs) = drop start line"
proof (induction line start bs rule: cut_at.induct)
  case (2 line start b bs)
  have "start < b \<Longrightarrow> slice line start b @ drop b line = drop start line"
    using append_take_drop_id [of "b - start" "drop start line"] by (simp add: slice_def)
  with 2 show ?case by simp
qed simp

text \<open>The nodes that the search for breaks reaches: those not below or at a payload node.\<close>

inductive control_node :: "node \<Rightarrow> node \<Rightarrow> bool" where
  here: "\<not> is_payload_node_kind (kind n) \<Longrightarrow> control_node n n"
| below: "\<not> is_payload_node_kind (kind n) \<Longrightarrow> c \<in> set (children n) \<Longrightarrow> control_node c m \<Longrightarrow> control_node n m"

inductive_simps control_node_iff: "control_node n m"

lemma break_walk_nodes:
  "b \<in> set (break_walk script stack) \<longleftrightarrow> (\<exists>n\<in>set stack. \<exists>m. control_node n m \<and> b \<in> set (break_after script m))"
proof (induction script stack rule: break_walk.induct)
  case (2 script n stack)
  show ?case
  proof (cases "is_payload_node_kind (kind n)")
    case True
    then have "\<not> control_node n m" for m by (subst control_node_iff) simp
    with True 2 show ?thesis by auto
  next
    case False
    then have "control_node n m \<longleftrightarrow> m = n \<or> (\<exists>c\<in>set (children n). control_node c m)" for m
      by (subst control_node_iff) auto
    with False 2 show ?thesis by auto
  qed
qed simp

lemma sorted_remdups_adj_distinct: "sorted xs \<Longrightarrow> distinct (remdups_adj (xs :: nat list))"
  by (induction xs rule: remdups_adj.induct) (auto simp del: remdups_adj_Cons_alt dest: le_antisym)

section \<open>Properties\<close>

text \<open>When a script is accepted as a sequence of plain commands, its tree has no error and no node
  outside the allowed kinds and tokens, and the result lists, in source order, the plain form of exactly
  the command nodes of the tree: no command of an accepted script escapes the checks made on the result.\<close>

theorem plain_commands_complete:
  assumes "try_parse_word_only_commands_sequence t src = Some cs"
  shows "\<not> has_error t \<and> list_all node_allowed (nodes (root_node t)) \<and>
    (\<exists>ns. mset ns = filter_mset is_command_node (mset (nodes (root_node t))) \<and>
          sorted (map start_byte ns) \<and> map (parse_plain_command_from_node src) ns = map Some cs)"
proof -
  from assms obtain found where e: "\<not> has_error t" and f: "command_walk [root_node t] [] = Some found"
    and c: "map (parse_plain_command_from_node src) (sort_key start_byte found) = map Some cs"
    by (auto simp: try_parse_word_only_commands_sequence_def those_Some split: if_splits option.splits)
  have "list_all node_allowed (nodes (root_node t))"
    using f command_walk_allowed [of "[root_node t]" "[]"] by simp
  moreover have "mset (sort_key start_byte found) = filter_mset is_command_node (mset (nodes (root_node t)))"
    using command_walk_found [OF f] by simp
  ultimately show ?thesis using e c sorted_sort_key [of start_byte found] by blast
qed

definition example_script :: string where
  "example_script = ''ls -l && rm x''"

definition word_node :: "nat \<Rightarrow> nat \<Rightarrow> node" where
  "word_node i j = Node ''word'' True [] i j []"

definition example_tree :: tree where
  "example_tree =
     \<lparr>root_node = Node ''program'' True [] 0 13
        [Node ''list'' True [] 0 13
          [Node ''command'' True [] 0 5 [Node ''command_name'' True [] 0 2 [word_node 0 2], word_node 3 5],
           Node ''&&'' False [] 6 8 [],
           Node ''command'' True [] 9 13 [Node ''command_name'' True [] 9 11 [word_node 9 11], word_node 12 13]]],
      has_error = False\<rparr>"

lemma example_commands:
  "try_parse_word_only_commands_sequence example_tree example_script =
     Some [\<lparr>pc_words = [''ls'', ''-l''], span_start = 0, span_end = 5\<rparr>,
           \<lparr>pc_words = [''rm'', ''x''], span_start = 9, span_end = 13\<rparr>]"
  by code_simp

theorem plain_commands_complete_witness:
  "list_all node_allowed (nodes (root_node example_tree))"
  using plain_commands_complete [OF example_commands] by blast

text \<open>Splitting for display never loses or reorders text: the soft-break chunks of a script concatenate
  to the script, whatever the parser returns, and the pieces of a physical line to the line.\<close>

theorem soft_breaks_roundtrip:
  "concat (soft_break_chunks parse script) = script \<and>
   concat (split_physical_line_at_soft_breaks line line_start breaks) = line"
proof
  show "concat (soft_break_chunks parse script) = script"
    using concat_cut_at [of script _ 0] by (simp add: soft_break_chunks_def Let_def list_all_iff)
  have "list_all (\<lambda>b. b \<le> length line)
     (remdups_adj (filter (is_char_boundary line) (map (\<lambda>b. b - line_start)
        (filter (\<lambda>b. line_start < b \<and> b < line_start + length line) breaks))))"
    by (auto simp: list_all_iff)
  from concat_cut_at [OF this, of 0]
  show "concat (split_physical_line_at_soft_breaks line line_start breaks) = line"
    by (simp add: split_physical_line_at_soft_breaks_def Let_def)
qed

text \<open>The soft breaks of a script are exactly the ends of the list and pipeline operators of its tree
  that are not inside a string, a heredoc body or a comment, in increasing order without repetition.\<close>

theorem soft_breaks_exact:
  assumes "parse script = Some t" "\<not> has_error t"
  shows "set (soft_break_offsets_after_operators parse script) =
      {end_byte n | n. control_node (root_node t) n \<and> is_soft_break_operator_kind (kind n) \<and>
         0 < end_byte n \<and> end_byte n \<le> length script \<and> is_char_boundary script (end_byte n)} \<and>
    sorted (soft_break_offsets_after_operators parse script) \<and>
    distinct (soft_break_offsets_after_operators parse script)"
proof -
  let ?bs = "soft_break_offsets_after_operators parse script"
  have eq: "?bs = remdups_adj (sort (break_walk script [root_node t]))"
    using assms by (simp add: soft_break_offsets_after_operators_def)
  have "b \<in> set ?bs \<longleftrightarrow> (\<exists>n. control_node (root_node t) n \<and> b \<in> set (break_after script n))" for b
    unfolding eq by (simp add: break_walk_nodes del: break_walk.simps)
  then have "set ?bs =
      {end_byte n | n. control_node (root_node t) n \<and> is_soft_break_operator_kind (kind n) \<and>
         0 < end_byte n \<and> end_byte n \<le> length script \<and> is_char_boundary script (end_byte n)}"
    by (auto simp: break_after_def split: if_splits)
  then show ?thesis unfolding eq by (simp add: sorted_remdups_adj_distinct)
qed

theorem soft_breaks_exact_witness:
  "distinct (soft_break_offsets_after_operators (\<lambda>_. Some example_tree) example_script) \<and>
   soft_break_offsets_after_operators (\<lambda>_. Some example_tree) example_script = [8]"
proof
  have "\<not> has_error example_tree" by (simp add: example_tree_def)
  then show "distinct (soft_break_offsets_after_operators (\<lambda>_. Some example_tree) example_script)"
    using soft_breaks_exact [of "\<lambda>_. Some example_tree" example_script example_tree] by blast
  show "soft_break_offsets_after_operators (\<lambda>_. Some example_tree) example_script = [8]" by code_simp
qed

end
