(* ===== verification/Permission_Script.thy ===== *)
theory Permission_Script
  imports Shell_Tree
begin

text \<open>
  Recovery of commands from scripts that are not plain word sequences, \<open>permission/bash_permission_script.rs\<close>,
  with what it uses of \<open>shell_access.rs\<close> (the literal value of an argument node) and of
  \<open>auto_mode/mod.rs\<close> (the risk of an environment key). The theory shows that a script accepted as eligible
  runs only the listed readers and that none of its commands is dropped.
\<close>

section \<open>Arguments\<close>

datatype arg_text = LiteralArg string | AmbiguousArg

definition EXPANSION_KINDS :: "string list" where
  "EXPANSION_KINDS =
     [''expansion'', ''simple_expansion'', ''command_substitution'', ''arithmetic_expansion'',
      ''process_substitution'']"

function expansion_walk :: "node list \<Rightarrow> bool" where
  "expansion_walk [] = False"
| "expansion_walk (n # stack) =
     (if list_ex (\<lambda>c. kind c \<in> set EXPANSION_KINDS) (children n) then True
      else expansion_walk (rev (children n) @ stack))"
  by pat_completeness auto
termination
  by (relation "measure (\<lambda>stack. sum_list (map size stack))") (auto simp: rev_map [symmetric] size_children)

definition node_has_expansion :: "node \<Rightarrow> bool" where
  "node_has_expansion n = expansion_walk [n]"

definition is_windows_path_like :: "string \<Rightarrow> bool" where
  "is_windows_path_like raw \<longleftrightarrow>
     starts_with raw [CHR 0x5C, CHR 0x5C] \<or>
     (case raw of c # d # _ \<Rightarrow> is_ascii_alphabetic c \<and> d = CHR '':'' | _ \<Rightarrow> False)"

fun unquoted_loop :: "string \<Rightarrow> string \<Rightarrow> string option" where
  "unquoted_loop [] out = Some out"
| "unquoted_loop (ch # chars) out =
     (if ch = CHR 0x5C
      then (case chars of [] \<Rightarrow> None | n # chars' \<Rightarrow> unquoted_loop chars' (out @ [n]))
      else unquoted_loop chars (out @ [ch]))"

definition decode_unquoted_word :: "string \<Rightarrow> string option" where
  "decode_unquoted_word raw =
     (if CHR 0x5C \<notin> set raw then Some raw
      else if is_windows_path_like raw then Some raw
      else unquoted_loop raw [])"

fun double_quoted_loop :: "string \<Rightarrow> string \<Rightarrow> string option" where
  "double_quoted_loop [] out = Some out"
| "double_quoted_loop (ch # chars) out =
     (if ch \<noteq> CHR 0x5C then double_quoted_loop chars (out @ [ch])
      else (case chars of
              [] \<Rightarrow> None
            | n # chars' \<Rightarrow>
                (if n \<in> {CHR ''$'', CHR 0x60, dq, CHR 0x5C, nl}
                 then double_quoted_loop chars' (out @ [n])
                 else double_quoted_loop chars' (out @ [CHR 0x5C, n]))))"

definition decode_double_quoted_content :: "string \<Rightarrow> string option" where
  "decode_double_quoted_content content =
     (if CHR 0x5C \<notin> set content then Some content else double_quoted_loop content [])"

definition literal_or_ambiguous :: "string option \<Rightarrow> arg_text" where
  "literal_or_ambiguous t = (case t of Some l \<Rightarrow> LiteralArg l | None \<Rightarrow> AmbiguousArg)"

definition strip_pair :: "char \<Rightarrow> string \<Rightarrow> string" where
  "strip_pair q raw =
     (case Option.bind (strip_prefix raw [q]) (\<lambda>s. strip_suffix s [q]) of Some s \<Rightarrow> s | None \<Rightarrow> raw)"

definition shell_node_arg :: "node \<Rightarrow> string \<Rightarrow> arg_text option" where
  "shell_node_arg n src =
     (if kind n = ''variable_assignment'' then None
      else if kind n \<in> {''word'', ''number''} then
        Some (literal_or_ambiguous (Option.bind (utf8_text src n) decode_unquoted_word))
      else if kind n = ''raw_string'' then
        map_option (\<lambda>raw. LiteralArg (strip_pair sq raw)) (utf8_text src n)
      else if kind n = ''string'' then
        (if node_has_expansion n then Some AmbiguousArg
         else map_option (\<lambda>raw. literal_or_ambiguous (decode_double_quoted_content (strip_pair dq raw)))
                (utf8_text src n))
      else if kind n = ''concatenation'' then
        (if node_has_expansion n then Some AmbiguousArg
         else Some (literal_or_ambiguous (Option.bind (utf8_text src n) decode_shell_literal_spelling)))
      else Some AmbiguousArg)"

section \<open>Environment keys\<close>

datatype env_risk = Safe | Unvetted | Injection

definition SAFE_ENV_KEYS :: "string list" where
  "SAFE_ENV_KEYS =
     [''CARGO_TERM_COLOR'', ''CARGO_TERM_PROGRESS_WHEN'', ''RUST_LOG'', ''RUST_LOG_STYLE'',
      ''RUST_BACKTRACE'', ''RUST_TEST_THREADS'', ''RUST_MIN_STACK'', ''NO_COLOR'', ''CLICOLOR'',
      ''CLICOLOR_FORCE'', ''FORCE_COLOR'', ''COLORTERM'']"

definition INJECTION_ENV_KEYS :: "string list" where
  "INJECTION_ENV_KEYS =
     [''LD_PRELOAD'', ''LD_AUDIT'', ''BASH_ENV'', ''ENV'', ''IFS'', ''PATH'', ''GIT_EXTERNAL_DIFF'',
      ''GIT_PROXY_COMMAND'', ''PROMPT_COMMAND'']"

definition INJECTION_ENV_KEY_PREFIXES :: "string list" where
  "INJECTION_ENV_KEY_PREFIXES = [''DYLD_'', ''GIT_CONFIG'']"

definition env_key_risk :: "string \<Rightarrow> env_risk" where
  "env_key_risk key =
     (if key \<in> set SAFE_ENV_KEYS then Safe
      else if key \<in> set INJECTION_ENV_KEYS \<or> list_ex (starts_with key) INJECTION_ENV_KEY_PREFIXES
      then Injection else Unvetted)"

section \<open>PermissionScript\<close>

definition WITNESS_DENIED_KEYS :: "string list" where
  "WITNESS_DENIED_KEYS =
     [''RIPGREP_CONFIG_PATH'', ''GCONV_PATH'', ''GETCONF_DIR'', ''GLIBC_TUNABLES'', ''HOSTALIASES'',
      ''LOCALDOMAIN'', ''LOCPATH'', ''MALLOC_TRACE'', ''NIS_PATH'', ''NLSPATH'', ''RESOLV_HOST_CONF'',
      ''RES_OPTIONS'', ''TZDIR'']"

definition WITNESS_DENIED_KEY_PREFIXES :: "string list" where
  "WITNESS_DENIED_KEY_PREFIXES = [''LD_'']"

datatype permission_word = Literal string | UnresolvedArgument string

record permission_script =
  ps_commands :: "permission_word list list"
  complete :: bool
  eligible :: bool
  unresolved :: bool

text \<open>The analysis threads the script with the names assigned and used.\<close>

record script_state = permission_script +
  assigned :: "string list"
  used :: "string list"

definition str_get :: "string \<Rightarrow> node \<Rightarrow> string option" where
  "str_get src n =
     (if start_byte n \<le> end_byte n \<and> is_char_boundary src (start_byte n) \<and> is_char_boundary src (end_byte n)
      then Some (slice src (start_byte n) (end_byte n)) else None)"

definition child_by_field_name :: "node \<Rightarrow> string \<Rightarrow> node option" where
  "child_by_field_name n f = List.find (\<lambda>c. field_name c = f) (children n)"

definition is_path_prefix :: "string \<Rightarrow> bool" where
  "is_path_prefix v \<longleftrightarrow> starts_with v ''/'' \<or> starts_with v ''./''"

definition is_variable_name :: "string \<Rightarrow> bool" where
  "is_variable_name v \<longleftrightarrow>
     v \<noteq> [] \<and> (hd v = CHR ''_'' \<or> is_ascii_alphabetic (hd v)) \<and>
     list_all (\<lambda>b. b = CHR ''_'' \<or> is_ascii_alphabetic b \<or> is_ascii_digit b) (tl v)"

definition expansion_variable :: "string \<Rightarrow> string option" where
  "expansion_variable text =
     (case Option.bind (strip_prefix text ''${'') (\<lambda>s. strip_suffix s ''}'') of
        Some v \<Rightarrow> Some v
      | None \<Rightarrow> strip_prefix text ''$'')"

fun quoted_loop :: "string \<Rightarrow> node list \<Rightarrow> string option \<Rightarrow> string option option" where
  "quoted_loop src [] name = Some name"
| "quoted_loop src (c # cs) name =
     (if kind c = ''string_content'' then quoted_loop src cs name
      else if kind c \<notin> {''simple_expansion'', ''expansion''} \<or> name \<noteq> None then None
      else (case Option.bind (str_get src c) expansion_variable of
              None \<Rightarrow> None
            | Some variable \<Rightarrow>
                (if is_variable_name variable then quoted_loop src cs (Some variable) else None)))"

definition quoted_filename :: "node \<Rightarrow> string \<Rightarrow> string list \<Rightarrow> (string \<times> bool) option" where
  "quoted_filename n src asg =
     (if kind n \<noteq> ''string'' then None
      else (case quoted_loop src (filter is_named (children n)) None of
              Some (Some name) \<Rightarrow>
                (case Option.bind (str_get src n) (\<lambda>t. strip_prefix t [dq]) of
                   None \<Rightarrow> None
                 | Some content \<Rightarrow>
                     Some (name, is_path_prefix content \<or> (starts_with content ''$'' \<and> name \<in> set asg)))
            | _ \<Rightarrow> None))"

text \<open>The flags of the loop of \<open>readers_allow\<close>: after \<open>--\<close>, pattern seen, value expected.\<close>

fun option_allowed :: "string \<Rightarrow> string \<Rightarrow> bool \<times> bool" where
  "option_allowed head arg =
     (let rest = tl arg
      in if head = ''ls'' then (rest \<noteq> [] \<and> list_all (\<lambda>c. c \<in> set ''alhdFRtSr1'') rest, False)
         else if head = ''rg'' then (arg \<in> {''-n'', ''-v''}, False)
         else if head \<in> {''head'', ''tail''} then
           (let value = arg \<in> {''-n'', ''-c''}
            in (value \<or> (rest \<noteq> [] \<and> list_all is_ascii_digit rest), value))
         else if head = ''echo'' then (arg \<in> {''-n'', ''-e'', ''-E''}, False)
         else (False, False))"

fun readers_loop :: "string \<Rightarrow> (permission_word \<times> bool) list \<Rightarrow> bool \<Rightarrow> bool \<Rightarrow> bool \<Rightarrow> bool" where
  "readers_loop head [] boundary pattern value = (pattern \<and> \<not> value)"
| "readers_loop head ((UnresolvedArgument _, safe) # ws) boundary pattern value =
     (if value \<or> \<not> pattern \<or> head \<notin> {''ls'', ''rg''} \<or> (\<not> boundary \<and> \<not> safe) then False
      else readers_loop head ws boundary pattern value)"
| "readers_loop head ((Literal arg, safe) # ws) boundary pattern value =
     (if value then
        (if arg = [] \<or> \<not> list_all is_ascii_digit arg then False
         else readers_loop head ws boundary pattern False)
      else if \<not> boundary \<and> arg = ''--'' then readers_loop head ws True pattern value
      else if \<not> boundary \<and> starts_with arg ''-'' \<and> arg \<noteq> ''-'' then
        (case option_allowed head arg of
           (allowed, value') \<Rightarrow> (if allowed then readers_loop head ws boundary pattern value' else False))
      else readers_loop head ws boundary True value)"

definition READERS :: "string list" where
  "READERS = [''ls'', ''rg'', ''echo'', ''head'', ''tail'']"

definition readers_allow :: "permission_word list \<Rightarrow> bool list \<Rightarrow> bool" where
  "readers_allow words safe =
     (case words of
        Literal head # _ \<Rightarrow>
          (if head \<notin> set READERS then False
           else readers_loop head (tl (zip words safe)) False (head \<noteq> ''rg'') False)
      | _ \<Rightarrow> False)"

definition ANALYZED_KINDS :: "string list" where
  "ANALYZED_KINDS =
     [''program'', ''pipeline'', ''list'', ''command_name'', ''word'', ''number'', ''raw_string'',
      ''string'', ''string_content'', ''concatenation'', ''variable_name'', ''simple_expansion'',
      ''expansion'', ''comment'', '';'', ''&&'', ''||'', ''|'', [dq], ''='', ''$'', ''${'', ''}'']"

definition MAX_NODES :: nat where "MAX_NODES = 4096"

text \<open>A pending node carries the kind of its parent.\<close>

fun analyze_walk ::
  "nat \<Rightarrow> (string option \<times> node) list \<Rightarrow> (string option \<times> node) list \<Rightarrow> bool \<Rightarrow>
   (string option \<times> node) list \<times> bool" where
  "analyze_walk 0 pending statements whole = (statements, whole \<and> pending = [])"
| "analyze_walk (Suc k) pending statements whole =
     (case pending of
        [] \<Rightarrow> (statements, whole)
      | (parent, n) # rest \<Rightarrow>
          (let pending' = map (Pair (Some (kind n))) (rev (children n)) @ rest
           in if kind n \<in> {''command'', ''variable_assignment''}
              then analyze_walk k pending' (statements @ [(parent, n)]) whole
              else analyze_walk k pending' statements (whole \<and> kind n \<in> set ANALYZED_KINDS)))"

definition analyze_assignment :: "string \<Rightarrow> string option \<Rightarrow> node \<Rightarrow> script_state \<Rightarrow> script_state" where
  "analyze_assignment src parent n st =
     (let name = Option.bind (child_by_field_name n ''name'') (str_get src);
          value = Option.bind (child_by_field_name n ''value'') (\<lambda>v. shell_node_arg v src);
          witness = (ps_commands st = [] \<and> parent = Some ''program'' \<and>
            (case value of Some (LiteralArg v) \<Rightarrow> is_path_prefix v | _ \<Rightarrow> False))
      in case name of
           Some nm \<Rightarrow>
             (if witness \<and> nm \<notin> set WITNESS_DENIED_KEYS \<and>
                 \<not> list_ex (starts_with nm) WITNESS_DENIED_KEY_PREFIXES \<and> env_key_risk nm \<noteq> Injection
              then st\<lparr>eligible := eligible st \<and> nm \<notin> set (assigned st), assigned := List.insert nm (assigned st)\<rparr>
              else st\<lparr>eligible := False\<rparr>)
         | None \<Rightarrow> st\<lparr>eligible := False\<rparr>)"

type_synonym word_state = "script_state \<times> permission_word list \<times> bool list"

definition analyze_word :: "string \<Rightarrow> node \<Rightarrow> word_state \<Rightarrow> word_state" where
  "analyze_word src w ws =
     (case ws of (st, words, safes) \<Rightarrow>
        (case shell_node_arg w src of
           Some (LiteralArg v) \<Rightarrow>
             (if kind w \<in> {''word'', ''concatenation''} \<and>
                 (case str_get src w of
                    Some s \<Rightarrow> list_ex (\<lambda>c. c \<in> {CHR ''*'', CHR ''?'', CHR ''['', CHR ''~''}) s
                  | None \<Rightarrow> False)
              then st\<lparr>eligible := False\<rparr> else st,
              words @ [Literal v], safes @ [True])
         | Some AmbiguousArg \<Rightarrow>
             (case str_get src w of
                None \<Rightarrow> (st\<lparr>complete := False\<rparr>, words, safes)
              | Some spelling \<Rightarrow>
                  (case quoted_filename w src (assigned st) of
                     None \<Rightarrow>
                       (st\<lparr>unresolved := True, complete := False\<rparr>,
                        words @ [UnresolvedArgument spelling], safes @ [False])
                   | Some (name, safe) \<Rightarrow>
                       (st\<lparr>unresolved := True,
                           used := (if name \<in> set (assigned st) then List.insert name (used st) else used st)\<rparr>,
                        words @ [UnresolvedArgument spelling], safes @ [safe])))
         | None \<Rightarrow> (st\<lparr>eligible := False\<rparr>, words, safes)))"

definition analyze_child :: "string \<Rightarrow> node \<Rightarrow> word_state \<Rightarrow> word_state" where
  "analyze_child src c ws =
     (case ws of (st, words, safes) \<Rightarrow>
        (if kind c = ''variable_assignment'' then (st\<lparr>eligible := False\<rparr>, words, safes)
         else if kind c \<noteq> ''command_name'' then analyze_word src c ws
         else (case filter is_named (children c) of
                 [] \<Rightarrow> (st\<lparr>complete := False\<rparr>, words, safes)
               | w # _ \<Rightarrow> analyze_word src w ws)))"

definition starts_literal :: "permission_word list \<Rightarrow> bool" where
  "starts_literal words \<longleftrightarrow> (case words of Literal _ # _ \<Rightarrow> True | _ \<Rightarrow> False)"

definition analyze_command :: "string \<Rightarrow> node \<Rightarrow> script_state \<Rightarrow> script_state" where
  "analyze_command src n st =
     (case fold (analyze_child src) (filter is_named (children n)) (st, [], []) of
        (st', words, safes) \<Rightarrow>
          st'\<lparr>eligible := eligible st' \<and> readers_allow words safes,
              complete := complete st' \<and> starts_literal words,
              ps_commands := ps_commands st' @ [words]\<rparr>)"

definition analyze_statement :: "string \<Rightarrow> string option \<times> node \<Rightarrow> script_state \<Rightarrow> script_state" where
  "analyze_statement src pn st =
     (case pn of (parent, n) \<Rightarrow>
        (if kind n = ''variable_assignment'' then analyze_assignment src parent n st
         else analyze_command src n st))"

definition analyze :: "tree \<Rightarrow> string \<Rightarrow> permission_script" where
  "analyze t src =
     (case analyze_walk MAX_NODES [(None, root_node t)] [] (\<not> has_error t) of
        (statements, whole) \<Rightarrow>
          (let st = fold (analyze_statement src) (sort_key (\<lambda>pn. start_byte (snd pn)) statements)
                      \<lparr>ps_commands = [], complete = whole, eligible = True, unresolved = False,
                       assigned = [], used = []\<rparr>
           in \<lparr>ps_commands = ps_commands st, complete = complete st,
               eligible = eligible st \<and> complete st \<and> unresolved st \<and> ps_commands st \<noteq> [] \<and>
                          set (assigned st) \<subseteq> set (used st),
               unresolved = unresolved st\<rparr>))"

definition has_unresolved :: "permission_script \<Rightarrow> bool" where
  "has_unresolved s \<longleftrightarrow> complete s \<and> unresolved s"

definition word_text :: "permission_word \<Rightarrow> string" where
  "word_text w = (case w of Literal v \<Rightarrow> v | UnresolvedArgument v \<Rightarrow> v)"

definition projections :: "permission_script \<Rightarrow> string list list" where
  "projections s = map (map word_text) (filter starts_literal (ps_commands s))"

section \<open>What an eligible script runs\<close>

definition statement_node :: "node \<Rightarrow> bool" where
  "statement_node n \<longleftrightarrow> kind n \<in> {''command'', ''variable_assignment''}"

lemma analyze_walk_found:
  assumes "analyze_walk k pending sts w = (sts', True)"
  shows "w \<and> mset (map snd sts') = mset (map snd sts) + filter_mset statement_node (mset (all_nodes (map snd pending)))"
  using assms
proof (induction k arbitrary: pending sts w)
  case (Suc k)
  show ?case
  proof (cases pending)
    case (Cons pn rest)
    obtain parent n where pn: "pn = (parent, n)" by (cases pn)
    have kids: "map snd (map (Pair (Some (kind n))) (rev (children n)) @ rest) = rev (children n) @ map snd rest"
      by (simp add: comp_def)
    have all: "mset (all_nodes (rev (children n) @ map snd rest)) =
        mset (all_nodes (children n)) + mset (all_nodes (map snd rest))"
      by (simp add: all_nodes_rev del: rev_map mset_concat)
    show ?thesis
      using Suc.prems Suc.IH [of "map (Pair (Some (kind n))) (rev (children n)) @ rest"]
      unfolding Cons pn kids
      by (auto simp: Let_def all nodes.simps [of n] statement_node_def simp del: mset_concat rev_map map_append split: if_splits)
  qed (use Suc in simp)
qed simp

definition reader_command :: "permission_word list \<Rightarrow> bool" where
  "reader_command words \<longleftrightarrow>
     (case words of
        Literal h # ws \<Rightarrow>
          h \<in> set READERS \<and> (list_ex (\<lambda>w. \<exists>s. w = UnresolvedArgument s) ws \<longrightarrow> h = ''ls'' \<or> h = ''rg'')
      | _ \<Rightarrow> False)"

lemma readers_loop_unresolved:
  "readers_loop h ws bd pat vl \<Longrightarrow> (UnresolvedArgument s, safe) \<in> set ws \<Longrightarrow> h = ''ls'' \<or> h = ''rg''"
  by (induction h ws bd pat vl rule: readers_loop.induct)
    (auto simp del: option_allowed.simps split: if_splits prod.splits)

lemma readers_allow_reader:
  assumes "readers_allow words safes" "length safes = length words"
  shows "reader_command words"
proof -
  from assms(1) obtain h ws where w: "words = Literal h # ws" "h \<in> set READERS"
    and l: "readers_loop h (tl (zip words safes)) False (h \<noteq> ''rg'') False"
    by (auto simp: readers_allow_def split: list.splits permission_word.splits if_splits)
  obtain b bs where s: "safes = b # bs" "length bs = length ws"
    using assms(2) w by (cases safes) auto
  have "h = ''ls'' \<or> h = ''rg''" if "UnresolvedArgument x \<in> set ws" for x
  proof -
    from that s obtain safe where "(UnresolvedArgument x, safe) \<in> set (zip ws bs)"
      by (metis in_set_impl_in_set_zip1)
    with l w s show ?thesis by (intro readers_loop_unresolved) auto
  qed
  with w show ?thesis by (auto simp: reader_command_def list_ex_iff)
qed

lemma analyze_child_frame:
  assumes "analyze_child src c (st, words, safes) = (st', words', safes')"
  shows "ps_commands st' = ps_commands st \<and> (eligible st' \<longrightarrow> eligible st) \<and>
    (complete st' \<longrightarrow> complete st) \<and> (length safes = length words \<longrightarrow> length safes' = length words')"
  using assms
  by (auto simp: analyze_child_def analyze_word_def split: if_splits list.splits option.splits arg_text.splits prod.splits)

lemma analyze_children_frame:
  assumes "fold (analyze_child src) cs (st, words, safes) = (st', words', safes')" "length safes = length words"
  shows "ps_commands st' = ps_commands st \<and> (eligible st' \<longrightarrow> eligible st) \<and>
    (complete st' \<longrightarrow> complete st) \<and> length safes' = length words'"
  using assms
proof (induction cs arbitrary: st words safes)
  case (Cons c cs)
  obtain st1 w1 s1 where step: "analyze_child src c (st, words, safes) = (st1, w1, s1)" by (cases "analyze_child src c (st, words, safes)")
  from Cons.prems step Cons.IH [of st1 w1 s1] analyze_child_frame [OF step] show ?case by auto
qed simp

definition script_ok :: "script_state \<Rightarrow> bool" where
  "script_ok st \<longleftrightarrow>
     (eligible st \<longrightarrow> list_all reader_command (ps_commands st)) \<and>
     (complete st \<longrightarrow> list_all starts_literal (ps_commands st))"

lemma analyze_statement_step:
  "(complete (analyze_statement src pn st) \<longrightarrow> complete st) \<and>
   (script_ok st \<longrightarrow> script_ok (analyze_statement src pn st)) \<and>
   length (ps_commands (analyze_statement src pn st)) =
     length (ps_commands st) + (if kind (snd pn) = ''variable_assignment'' then 0 else 1)"
proof (cases "kind (snd pn) = ''variable_assignment''")
  case True
  then show ?thesis
    by (auto simp: analyze_statement_def analyze_assignment_def Let_def script_ok_def split: prod.splits option.splits)
next
  case False
  obtain parent n where pn: "pn = (parent, n)" by (cases pn)
  obtain st' words safes where
    f: "fold (analyze_child src) (filter is_named (children n)) (st, [], []) = (st', words, safes)"
    by (cases "fold (analyze_child src) (filter is_named (children n)) (st, [], [])")
  have fr: "ps_commands st' = ps_commands st" "eligible st' \<longrightarrow> eligible st" "complete st' \<longrightarrow> complete st"
    "length safes = length words"
    using analyze_children_frame [OF f] by auto
  have st: "analyze_statement src pn st =
      st'\<lparr>eligible := eligible st' \<and> readers_allow words safes,
          complete := complete st' \<and> starts_literal words, ps_commands := ps_commands st' @ [words]\<rparr>"
    using False by (simp add: analyze_statement_def pn analyze_command_def f)
  show ?thesis
    using fr readers_allow_reader [of words safes] False by (auto simp: st script_ok_def)
qed

lemma analyze_statements:
  "(complete (fold (analyze_statement src) pns st) \<longrightarrow> complete st) \<and>
   (script_ok st \<longrightarrow> script_ok (fold (analyze_statement src) pns st)) \<and>
   length (ps_commands (fold (analyze_statement src) pns st)) =
     length (ps_commands st) + length (filter (\<lambda>pn. kind (snd pn) \<noteq> ''variable_assignment'') pns)"
proof (induction pns arbitrary: st)
  case (Cons pn pns)
  from Cons [of "analyze_statement src pn st"] analyze_statement_step [of src pn st]
  show ?case by (auto simp: linorder_not_le)
qed simp

lemma length_filter_sort: "length (filter P (sort_key f xs)) = length (filter P xs)"
  by (metis mset_filter mset_sort size_mset)

text \<open>C28: A script that the recovery declares eligible parsed without errors, runs only \<open>ls\<close>, \<open>rg\<close>, \<open>echo\<close>,
  \<open>head\<close> and \<open>tail\<close>, and hands unresolved arguments only to \<open>ls\<close> and \<open>rg\<close>; and the projections checked
  against the rules cover every command node of its tree.\<close>

theorem eligible_script_reads_only:
  assumes "eligible (analyze t src)"
  shows "\<not> has_error t \<and> list_all reader_command (ps_commands (analyze t src)) \<and>
    length (projections (analyze t src)) = length (filter (\<lambda>n. kind n = ''command'') (nodes (root_node t)))"
proof -
  obtain sts w where walk: "analyze_walk MAX_NODES [(None, root_node t)] [] (\<not> has_error t) = (sts, w)"
    by (cases "analyze_walk MAX_NODES [(None, root_node t)] [] (\<not> has_error t)")
  define st0 where "st0 = \<lparr>ps_commands = [], complete = w, eligible = True, unresolved = False, assigned = [], used = []\<rparr>"
  define st where "st = fold (analyze_statement src) (sort_key (\<lambda>pn. start_byte (snd pn)) sts) st0"
  have an: "eligible (analyze t src) \<longrightarrow> eligible st \<and> complete st" "ps_commands (analyze t src) = ps_commands st"
    by (simp_all add: analyze_def walk st_def st0_def Let_def)
  note steps = analyze_statements [of src "sort_key (\<lambda>pn. start_byte (snd pn)) sts" st0, folded st_def]
  have ok: "script_ok st" and w
    using steps an assms by (auto simp: st0_def script_ok_def)
  then have found: "mset (map snd sts) = filter_mset statement_node (mset (nodes (root_node t)))" "\<not> has_error t"
    using analyze_walk_found [of MAX_NODES "[(None, root_node t)]" "[]" "\<not> has_error t" sts] walk by auto
  have "length (ps_commands st) = size (filter_mset (\<lambda>n. kind n \<noteq> ''variable_assignment'') (mset (map snd sts)))"
    using steps length_filter_sort [of "\<lambda>pn. kind (snd pn) \<noteq> ''variable_assignment''" _ sts]
      arg_cong [OF filter_map [of "\<lambda>n. kind n \<noteq> ''variable_assignment''" snd sts], of length]
    by (simp add: st0_def comp_def flip: mset_filter mset_map)
  also have "\<dots> = length (filter (\<lambda>n. kind n = ''command'') (nodes (root_node t)))"
    unfolding found
    by (simp add: filter_filter_mset statement_node_def flip: mset_filter) (rule arg_cong [where f = length], rule filter_cong, auto)
  finally have len: "length (ps_commands st) = length (filter (\<lambda>n. kind n = ''command'') (nodes (root_node t)))" .
  have "list_all starts_literal (ps_commands st)" "list_all reader_command (ps_commands st)"
    using ok an assms by (auto simp: script_ok_def)
  then show ?thesis using len found(2) an(2) by (simp add: projections_def filter_id_conv list_all_iff)
qed

definition recovery_script :: string where
  "recovery_script = ''F=./x; rg -n foo '' @ [dq] @ ''$F'' @ [dq]"

definition recovery_tree :: tree where
  "recovery_tree =
     \<lparr>root_node = Node ''program'' True [] 0 21
        [Node ''variable_assignment'' True [] 0 5
           [Node ''variable_name'' True ''name'' 0 1 [], Node ''='' False [] 1 2 [],
            Node ''word'' True ''value'' 2 5 []],
         Node '';'' False [] 5 6 [],
         Node ''command'' True [] 7 21
           [Node ''command_name'' True ''name'' 7 9 [word_node 7 9], word_node 10 12, word_node 13 16,
            Node ''string'' True ''argument'' 17 21
              [Node [dq] False [] 17 18 [],
               Node ''simple_expansion'' True [] 18 20
                 [Node ''$'' False [] 18 19 [], Node ''variable_name'' True [] 19 20 []],
               Node [dq] False [] 20 21 []]]],
      has_error = False\<rparr>"

theorem eligible_script_reads_only_witness:
  "list_all reader_command (ps_commands (analyze recovery_tree recovery_script)) \<and>
   projections (analyze recovery_tree recovery_script) = [[''rg'', ''-n'', ''foo'', [dq] @ ''$F'' @ [dq]]]"
proof
  have "eligible (analyze recovery_tree recovery_script)" by code_simp
  then show "list_all reader_command (ps_commands (analyze recovery_tree recovery_script))"
    using eligible_script_reads_only by blast
  show "projections (analyze recovery_tree recovery_script) = [[''rg'', ''-n'', ''foo'', [dq] @ ''$F'' @ [dq]]]"
    by code_simp
qed

end
