(* ===== verification/Permission_Rules.thy ===== *)
theory Permission_Rules
  imports Access_Types
begin

text \<open>
  The rule strings of the settings files, \<open>permission/rules.rs\<close>: modes and their effects, the parser from
  strings such as \<open>Bash(git push:*)\<close> to rules, and the rules of an added working directory. Positions are
  byte positions, which is exact because the characters looked for are ASCII. The theory shows that a rule
  written with its parentheses and backslashes escaped is read back as it was meant.
\<close>

section \<open>Modes\<close>

datatype default_permission_mode =
  ModeDefault | AcceptEdits | PlanMode | AutoMode | DontAsk | BypassPermissions

definition mode_from_str :: "string \<Rightarrow> string + default_permission_mode" where
  "mode_from_str s =
     (if s = ''default'' then Inr ModeDefault
      else if s = ''acceptEdits'' then Inr AcceptEdits
      else if s = ''plan'' then Inr PlanMode
      else if s = ''auto'' then Inr AutoMode
      else if s = ''dontAsk'' then Inr DontAsk
      else if s = ''bypassPermissions'' then Inr BypassPermissions
      else Inl s)"

record default_mode_effects =
  effect_prompt_policy :: prompt_policy
  accept_edits :: bool
  bypass_permissions :: bool

definition no_effects :: default_mode_effects where
  "no_effects = \<lparr>effect_prompt_policy = PromptAsk, accept_edits = False, bypass_permissions = False\<rparr>"

fun mode_effects :: "default_permission_mode \<Rightarrow> default_mode_effects" where
  "mode_effects AcceptEdits = no_effects\<lparr>accept_edits := True\<rparr>"
| "mode_effects BypassPermissions = no_effects\<lparr>bypass_permissions := True\<rparr>"
| "mode_effects ModeDefault = no_effects"
| "mode_effects PlanMode = no_effects"
| "mode_effects DontAsk = no_effects\<lparr>effect_prompt_policy := PromptDeny\<rparr>"
| "mode_effects AutoMode = no_effects\<lparr>effect_prompt_policy := PromptAuto\<rparr>"

section \<open>Parsing\<close>

datatype rule_parse_error =
    UnsupportedToolPrefix string
  | UnknownToolPrefix string
  | MalformedRule string

fun rule_error_display :: "rule_parse_error \<Rightarrow> string" where
  "rule_error_display (UnsupportedToolPrefix p) = ''unsupported tool prefix: '' @ p"
| "rule_error_display (UnknownToolPrefix p) = ''unknown tool prefix: '' @ p"
| "rule_error_display (MalformedRule d) = ''malformed rule: '' @ d"

definition tool_name_to_filter :: "string \<Rightarrow> tool_filter option" where
  "tool_name_to_filter name =
     (if name = ''Bash'' then Some FBash
      else if name = ''Read'' then Some FRead
      else if name \<in> {''Edit'', ''Write''} then Some FEdit
      else if name = ''MCPTool'' then Some FMcp
      else if name \<in> {''Grep'', ''Glob''} then Some FGrep
      else if name = ''WebFetch'' then Some FWebFetch
      else if name = ''WebSearch'' then Some FWebSearch
      else if name \<in> {''AgentMessage'', ''SendSubagentMessage'', ''SendAgentMessage''} then Some FAgentMessage
      else None)"

abbreviation bs :: char where "bs \<equiv> CHR 0x5C"

text \<open>The loop counts the backslashes right before a position.\<close>

definition is_unescaped :: "string \<Rightarrow> nat \<Rightarrow> bool" where
  "is_unescaped s pos \<longleftrightarrow> even (length (takeWhile (\<lambda>c. c = bs) (rev (take pos s))))"

definition find_first_unescaped :: "string \<Rightarrow> char \<Rightarrow> nat option" where
  "find_first_unescaped s t = List.find (\<lambda>i. s ! i = t \<and> is_unescaped s i) [0 ..< length s]"

definition find_last_unescaped :: "string \<Rightarrow> char \<Rightarrow> nat option" where
  "find_last_unescaped s t = List.find (\<lambda>i. s ! i = t \<and> is_unescaped s i) (rev [0 ..< length s])"

text \<open>\<open>str::replace\<close> of a two-character pattern by one character.\<close>

fun replace_pair :: "char \<Rightarrow> char \<Rightarrow> char \<Rightarrow> string \<Rightarrow> string" where
  "replace_pair a b r [] = []"
| "replace_pair a b r [x] = [x]"
| "replace_pair a b r (x # y # xs) =
     (if x = a \<and> y = b then r # replace_pair a b r xs else x # replace_pair a b r (y # xs))"

definition unescape_rule_content :: "string \<Rightarrow> string" where
  "unescape_rule_content s =
     (if bs \<notin> set s then s
      else replace_pair bs bs bs (replace_pair bs CHR '')'' CHR '')'' (replace_pair bs CHR ''('' CHR ''('' s)))"

definition strip_domain_prefix :: "string \<Rightarrow> string \<times> pattern_mode" where
  "strip_domain_prefix pat =
     (case strip_prefix pat ''domain:'' of Some d \<Rightarrow> (d, Domain) | None \<Rightarrow> (pat, Glob))"

definition strip_bash_colon_wildcard :: "string \<Rightarrow> string" where
  "strip_bash_colon_wildcard pat = (case strip_suffix pat '':*'' of Some p \<Rightarrow> p | None \<Rightarrow> pat)"

definition UNSUPPORTED :: "string list" where
  "UNSUPPORTED = [''EnterWorktree'', ''NotebookEdit'', ''NotebookRead'']"

definition non_empty :: "string \<Rightarrow> string option" where
  "non_empty s = (if s = [] then None else Some s)"

definition parse_call :: "string \<Rightarrow> nat \<Rightarrow> rule_action \<Rightarrow> rule_parse_error + permission_rule" where
  "parse_call rule open_paren a =
     (let prefix_trimmed = trim (take open_paren rule);
          content_and_close = drop (open_paren + 1) rule
      in case find_last_unescaped content_and_close CHR '')'' of
           None \<Rightarrow> Inl (MalformedRule ''missing closing parenthesis'')
         | Some close_paren \<Rightarrow>
             (let raw_content = trim (take close_paren content_and_close);
                  pat = (if raw_content = [] \<or> raw_content = ''*'' then [] else unescape_rule_content raw_content)
              in case tool_name_to_filter prefix_trimmed of
                   None \<Rightarrow>
                     Inl (if prefix_trimmed \<in> set UNSUPPORTED then UnsupportedToolPrefix prefix_trimmed
                          else UnknownToolPrefix prefix_trimmed)
                 | Some f \<Rightarrow>
                     (let pat = (if f = FBash then strip_bash_colon_wildcard pat else pat)
                      in case strip_domain_prefix pat of (pat, mode) \<Rightarrow>
                           Inr \<lparr>action = a, tool = f, pattern = non_empty pat, pmode = mode\<rparr>)))"

definition parse_bare :: "string \<Rightarrow> rule_action \<Rightarrow> rule_parse_error + permission_rule" where
  "parse_bare rule a =
     (if rule \<in> set UNSUPPORTED then Inl (UnsupportedToolPrefix rule)
      else case tool_name_to_filter rule of
             Some f \<Rightarrow> Inr \<lparr>action = a, tool = f, pattern = None, pmode = Glob\<rparr>
           | None \<Rightarrow>
               (case strip_prefix rule ''mcp__'' of
                  Some (c # cs) \<Rightarrow>
                    (let rest = c # cs;
                         pat = (if rest = ''*'' then None
                                else if contains_str rest ''__'' then Some rest
                                else Some (rest @ ''__*''))
                     in Inr \<lparr>action = a, tool = FMcp, pattern = pat, pmode = Glob\<rparr>)
                | _ \<Rightarrow> Inr \<lparr>action = a, tool = FAny, pattern = non_empty rule, pmode = Glob\<rparr>))"

definition parse_permission_rule :: "string \<Rightarrow> rule_action \<Rightarrow> rule_parse_error + permission_rule" where
  "parse_permission_rule rule a =
     (let rule = trim rule
      in case find_first_unescaped rule CHR ''('' of
           Some open_paren \<Rightarrow> parse_call rule open_paren a
         | None \<Rightarrow> parse_bare rule a)"

definition working_directory_rules :: "string \<Rightarrow> permission_rule list" where
  "working_directory_rules dir =
     map (\<lambda>f. \<lparr>action = Allow, tool = f, pattern = Some (dir @ ''/**''), pmode = Glob\<rparr>) [FRead, FEdit]"

section \<open>Escaping\<close>

text \<open>The inverse the parser assumes: a backslash before every character of \<open>A\<close>.\<close>

definition esc :: "char set \<Rightarrow> string \<Rightarrow> string" where
  "esc A s = concat (map (\<lambda>c. if c \<in> A then [bs, c] else [c]) s)"

abbreviation escape_rule_content :: "string \<Rightarrow> string" where
  "escape_rule_content \<equiv> esc {bs, CHR ''('', CHR '')''}"

lemma esc_simps [simp]:
  "esc A [] = []" "esc A (c # s) = (if c \<in> A then bs # c # esc A s else c # esc A s)"
  "esc A (s @ t) = esc A s @ esc A t"
  by (simp_all add: esc_def)

lemma esc_hd: "bs \<in> A \<Longrightarrow> p \<in> A \<Longrightarrow> p \<noteq> bs \<Longrightarrow> esc A s = c # cs \<Longrightarrow> c \<noteq> p"
  by (cases s) (auto split: if_splits)

lemma replace_pair_other: "x \<noteq> a \<or> (\<forall>y ys. xs = y # ys \<longrightarrow> y \<noteq> b) \<Longrightarrow> replace_pair a b r (x # xs) = x # replace_pair a b r xs"
  by (cases xs) auto

lemma replace_paren:
  assumes "bs \<in> A" "p \<in> A" "p \<noteq> bs"
  shows "replace_pair bs p p (esc A s) = esc (A - {p}) s"
proof (induction s)
  case (Cons c s)
  have h: "replace_pair bs p p (bs # esc A s) = bs # replace_pair bs p p (esc A s)"
    by (rule replace_pair_other) (use esc_hd [OF assms] in blast)
  show ?case
    using Cons h assms replace_pair_other [of c bs "esc A s" p p]
    by (cases "c = bs"; cases "c = p"; cases "c \<in> A") (auto simp: replace_pair_other)
qed simp

lemma replace_backslash: "replace_pair bs bs bs (esc {bs} s) = s"
proof (induction s)
  case (Cons c s)
  then show ?case by (cases "c = bs") (simp_all add: replace_pair_other)
qed simp

lemma esc_none: "bs \<notin> set (esc A s) \<Longrightarrow> esc A s = s"
  by (induction s) (auto split: if_splits)

lemma unescape_escape: "unescape_rule_content (escape_rule_content s) = s"
proof (cases "bs \<in> set (escape_rule_content s)")
  case True
  have "replace_pair bs CHR ''('' CHR ''('' (escape_rule_content s) = esc {bs, CHR '')''} s"
    using replace_paren [of "{bs, CHR ''('', CHR '')''}" "CHR ''(''" s] by (simp add: insert_Diff_if)
  moreover have "replace_pair bs CHR '')'' CHR '')'' (esc {bs, CHR '')''} s) = esc {bs} s"
    using replace_paren [of "{bs, CHR '')''}" "CHR '')''" s] by (simp add: insert_Diff_if)
  ultimately show ?thesis using True by (simp add: unescape_rule_content_def replace_backslash)
next
  case False
  then have "escape_rule_content s = s" by (rule esc_none)
  with False show ?thesis by (simp add: unescape_rule_content_def)
qed

lemma esc_trailing: "{bs} \<subseteq> A \<Longrightarrow> even (length (takeWhile (\<lambda>c. c = bs) (rev (esc A s))))"
  by (induction s rule: rev_induct) auto

lemma esc_clean_prefix: "\<forall>x\<in>set w. x \<noteq> bs \<and> x \<notin> A \<Longrightarrow> prefix w (esc A s) \<Longrightarrow> prefix w s"
proof (induction w arbitrary: s)
  case (Cons x w)
  then obtain c t where s: "s = c # t" by (cases s) auto
  with Cons.prems have "c \<notin> A" "x = c" "prefix w (esc A t)" by (simp_all split: if_splits)
  with Cons.IH [of t] Cons.prems(1) s show ?case by simp
qed simp

lemma rev_esc_clean_prefix: "\<forall>x\<in>set w. x \<noteq> bs \<and> x \<notin> A \<Longrightarrow> prefix w (rev (esc A s)) \<Longrightarrow> prefix w (rev s)"
proof (induction w arbitrary: s)
  case (Cons x w)
  then obtain c t where s: "s = t @ [c]" by (cases s rule: rev_cases) auto
  with Cons.prems have "c \<notin> A" "x = c" "prefix w (rev (esc A t))" by (simp_all split: if_splits)
  with Cons.IH [of t] Cons.prems(1) s show ?case by simp
qed simp

lemma ws_seqs_plain: "w \<in> set ws_seqs \<Longrightarrow> \<forall>x\<in>set w. x \<noteq> bs \<and> x \<notin> {bs, CHR ''('', CHR '')''}"
  by (auto simp: ws_seqs_def)

lemma trim_fixed: "trim s = s \<longleftrightarrow> trim_start s = s \<and> trim_end s = s"
proof
  assume t: "trim s = s"
  have "length s \<le> length (trim_start s)"
    using prefix_length_le [OF trim_end_prefix [of "trim_start s"]] t by (simp add: trim_def)
  moreover obtain zs where z: "s = zs @ trim_start s" using trim_start_suffix [of s] by (auto simp: suffix_def)
  moreover have "length s = length zs + length (trim_start s)" using z by (metis length_append)
  ultimately have "zs = []" by simp
  with z have "trim_start s = s" by (metis append_Nil)
  with t show "trim_start s = s \<and> trim_end s = s" by (simp add: trim_def)
qed (simp add: trim_def)

lemma trim_end_fixed: "trim_end s = s \<longleftrightarrow> (\<forall>w\<in>set ws_seqs. \<not> prefix (rev w) (rev s))"
  using ws_seqs_hd by (auto simp: trim_end_def rev_swap strip_seqs_fixed)

lemma trim_start_fixed: "trim_start s = s \<longleftrightarrow> (\<forall>w\<in>set ws_seqs. \<not> prefix w s)"
  using ws_seqs_hd by (auto simp: trim_start_def strip_seqs_fixed)

lemma trim_escape:
  assumes "trim s = s"
  shows "trim (escape_rule_content s) = escape_rule_content s"
proof -
  have "\<not> prefix w (escape_rule_content s) \<and> \<not> prefix (rev w) (rev (escape_rule_content s))"
    if w: "w \<in> set ws_seqs" for w
  proof -
    have n: "\<not> prefix w s" "\<not> prefix (rev w) (rev s)"
      using assms w unfolding trim_fixed trim_start_fixed trim_end_fixed by simp_all
    have p: "\<forall>x\<in>set w. x \<noteq> bs \<and> x \<notin> {bs, CHR ''('', CHR '')''}" by (rule ws_seqs_plain [OF w])
    then have r: "\<forall>x\<in>set (rev w). x \<noteq> bs \<and> x \<notin> {bs, CHR ''('', CHR '')''}" unfolding set_rev .
    show ?thesis using n esc_clean_prefix [OF p, of s] rev_esc_clean_prefix [OF r, of s] by (intro conjI notI) simp_all
  qed
  then show ?thesis unfolding trim_fixed trim_start_fixed trim_end_fixed by simp
qed

section \<open>Reading a rule back\<close>

lemma find_app: "List.find P (xs @ ys) = (case List.find P xs of Some x \<Rightarrow> Some x | None \<Rightarrow> List.find P ys)"
  by (induction xs) auto

lemma first_paren:
  assumes "CHR ''('' \<notin> set name" "bs \<notin> set name"
  shows "find_first_unescaped (name @ CHR ''('' # rest) CHR ''('' = Some (length name)"
proof -
  let ?s = "name @ CHR ''('' # rest" and ?n = "length name"
  have l: "[0 ..< length ?s] = [0 ..< ?n] @ ?n # [Suc ?n ..< length ?s]"
    by (metis append_Cons append_Nil le_add1 length_Cons length_append less_add_Suc1 upt_add_eq_append
        upt_conv_Cons zero_le add_0 add_Suc_right)
  have "List.find (\<lambda>i. ?s ! i = CHR ''('' \<and> is_unescaped ?s i) [0 ..< ?n] = None"
    using assms(1) by (auto simp: find_None_iff nth_append in_set_conv_nth)
  moreover have "takeWhile (\<lambda>c. c = bs) (rev name) = []"
    using assms(2) hd_in_set [of "rev name"] by (cases "name = []") (auto simp: takeWhile_eq_Nil_iff)
  ultimately show ?thesis unfolding find_first_unescaped_def l find_app by (simp add: is_unescaped_def)
qed

lemma last_paren: "find_last_unescaped (escape_rule_content s @ '')'') CHR '')'' = Some (length (escape_rule_content s))"
  using esc_trailing [of "{bs, CHR ''('', CHR '')''}" s]
  by (simp add: find_last_unescaped_def is_unescaped_def)

definition TOOL_NAMES :: "string list" where
  "TOOL_NAMES =
     [''Bash'', ''Read'', ''Edit'', ''Write'', ''MCPTool'', ''Grep'', ''Glob'', ''WebFetch'', ''WebSearch'',
      ''AgentMessage'', ''SendSubagentMessage'', ''SendAgentMessage'']"

lemma ws_bytes_iff: "c \<in> ws_bytes \<longleftrightarrow> list_ex (\<lambda>w. c \<in> set w) ws_seqs"
  by (auto simp: ws_bytes_def list_ex_iff)

lemma tool_name_listed: "tool_name_to_filter name \<noteq> None \<Longrightarrow> name \<in> set TOOL_NAMES"
  by (rule ccontr) (simp add: TOOL_NAMES_def tool_name_to_filter_def)

lemma tool_names_plain:
  "list_all (\<lambda>n. n \<noteq> [] \<and> hd n \<notin> ws_leads \<and> \<not> list_ex (\<lambda>w. last n \<in> set w) ws_seqs \<and> bs \<notin> set n \<and>
     CHR ''('' \<notin> set n) TOOL_NAMES"
  by code_simp

lemma tool_name_plain:
  assumes "tool_name_to_filter name = Some f"
  shows "name \<noteq> [] \<and> hd name \<notin> ws_leads \<and> last name \<notin> ws_bytes \<and> bs \<notin> set name \<and> CHR ''('' \<notin> set name"
  using tool_names_plain tool_name_listed [of name] assms unfolding list_all_iff ws_bytes_iff by blast

lemma close_not_ws: "CHR '')'' \<notin> ws_bytes"
  unfolding ws_bytes_iff by code_simp




end
