(* ===== verification/Permission_Lease.thy ===== *)
theory Permission_Lease
  imports Rust_Std "HOL-Library.Multiset"
begin

text \<open>
  Leases for external tool processes, \<open>permission/lease.rs\<close>. The registry keeps, under one lock, a revision
  counter and a record per issued lease with the process groups started under it. Every method holds the
  lock from start to end, so a method is one step. A lease object and a process group are identified by a
  number; a weak reference can be upgraded while the object is in \<open>live\<close>, respectively \<open>live_groups\<close>. The theory
  shows that a change of policy leaves no process behind and that a revoked lease stays revoked.
\<close>

section \<open>State\<close>

record lease_record =
  rec_lease :: nat
  rec_groups :: "nat list"

record lease_registry =
  revision :: u64
  leases :: "lease_record list"
  next_lease :: nat
  live :: "nat list"
  cancelled :: "nat list"
  live_groups :: "nat list"
  killed :: "nat list"

record unrestricted_lease =
  inner :: nat
  lease_revision :: u64

datatype lease_revoked = LeaseRevoked

definition registry_empty :: lease_registry where
  "registry_empty =
     \<lparr>revision = 0, leases = [], next_lease = 0, live = [], cancelled = [], live_groups = [], killed = []\<rparr>"

section \<open>Operations\<close>

definition enqueue_snapshot :: "lease_registry \<Rightarrow> u64" where
  "enqueue_snapshot s = revision s"

definition kill_groups :: "nat list \<Rightarrow> lease_registry \<Rightarrow> lease_registry" where
  "kill_groups gs s = s\<lparr>killed := killed s @ filter (\<lambda>g. g \<in> set (live_groups s)) gs\<rparr>"

definition cancel :: "nat \<Rightarrow> lease_registry \<Rightarrow> lease_registry" where
  "cancel l s = s\<lparr>cancelled := l # cancelled s\<rparr>"

definition revoke_record :: "lease_record \<Rightarrow> lease_registry \<Rightarrow> lease_registry" where
  "revoke_record r s =
     (if rec_lease r \<in> set (live s) then kill_groups (rec_groups r) (cancel (rec_lease r) s) else s)"

text \<open>The change run at the end cannot reach the registry, whose lock is held.\<close>

definition transition :: "lease_registry \<Rightarrow> lease_registry" where
  "transition s = fold revoke_record (leases s) (s\<lparr>revision := revision s + 1, leases := []\<rparr>)"

definition issue :: "u64 \<Rightarrow> lease_registry \<Rightarrow> unrestricted_lease option \<times> lease_registry" where
  "issue rv s =
     (if rv \<noteq> revision s then (None, s)
      else
        (let kept = filter (\<lambda>r. rec_lease r \<in> set (live s)) (leases s);
             l = next_lease s
         in (Some \<lparr>inner = l, lease_revision = rv\<rparr>,
             s\<lparr>leases := kept @ [\<lparr>rec_lease = l, rec_groups = []\<rparr>], next_lease := l + 1, live := l # live s\<rparr>)))"

definition is_revoked :: "unrestricted_lease \<Rightarrow> lease_registry \<Rightarrow> bool" where
  "is_revoked h s \<longleftrightarrow> inner h \<in> set (cancelled s)"

fun push_group :: "nat \<Rightarrow> nat \<Rightarrow> lease_record list \<Rightarrow> lease_record list" where
  "push_group l g [] = []"
| "push_group l g (r # rs) =
     (if rec_lease r = l then r\<lparr>rec_groups := rec_groups r @ [g]\<rparr> # rs else r # push_group l g rs)"

text \<open>\<open>spawned\<close> is what the closure returns when it is run: an error, or a value and the group it started.\<close>

definition with_active_process ::
  "unrestricted_lease \<Rightarrow> 'e + 'a \<times> nat \<Rightarrow> lease_registry \<Rightarrow> (lease_revoked + ('e + 'a)) \<times> lease_registry" where
  "with_active_process h spawned s =
     (if lease_revision h \<noteq> revision s \<or> is_revoked h s then (Inl LeaseRevoked, s)
      else if \<not> list_ex (\<lambda>r. rec_lease r = inner h) (leases s) then (Inl LeaseRevoked, s)
      else (case spawned of
              Inl e \<Rightarrow> (Inr (Inl e), s)
            | Inr (v, g) \<Rightarrow>
                (Inr (Inr v),
                 s\<lparr>leases := push_group (inner h) g (leases s), live_groups := List.insert g (live_groups s)\<rparr>)))"

definition swap_remove :: "nat \<Rightarrow> 'a list \<Rightarrow> 'a list" where
  "swap_remove i xs = (if Suc i = length xs then butlast xs else (butlast xs)[i := last xs])"

fun position :: "('a \<Rightarrow> bool) \<Rightarrow> 'a list \<Rightarrow> nat option" where
  "position p [] = None"
| "position p (x # xs) = (if p x then Some 0 else map_option Suc (position p xs))"

text \<open>Dropping the handle also drops the only strong reference to the lease object.\<close>

definition drop_lease :: "unrestricted_lease \<Rightarrow> lease_registry \<Rightarrow> lease_registry" where
  "drop_lease h s =
     (let s' = (case position (\<lambda>r. rec_lease r = inner h) (leases s) of
                  None \<Rightarrow> s
                | Some i \<Rightarrow>
                    kill_groups (rec_groups (leases s ! i))
                      (cancel (inner h) (s\<lparr>leases := swap_remove i (leases s)\<rparr>)))
      in s'\<lparr>live := removeAll (inner h) (live s')\<rparr>)"

definition drop_group :: "nat \<Rightarrow> lease_registry \<Rightarrow> lease_registry" where
  "drop_group g s = s\<lparr>live_groups := removeAll g (live_groups s)\<rparr>"

section \<open>Steps\<close>

text \<open>A configuration adds the handles that exist and the groups ever enrolled with their lease. The
  number of a step counts policy changes. A group that is gone does not come back.\<close>

type_synonym lease_conf = "lease_registry \<times> unrestricted_lease set \<times> (nat \<times> nat) set"

inductive lease_step :: "nat \<Rightarrow> lease_conf \<Rightarrow> lease_conf \<Rightarrow> bool" where
  step_transition: "lease_step 1 (s, hs, ps) (transition s, hs, ps)"
| step_issue: "issue rv s = (Some h, s') \<Longrightarrow> lease_step 0 (s, hs, ps) (s', insert h hs, ps)"
| step_spawn: "h \<in> hs \<Longrightarrow> with_active_process h (Inr ((), g) :: unit + unit \<times> nat) s = (Inr (Inr ()), s') \<Longrightarrow>
     g \<notin> snd ` ps \<or> g \<in> set (live_groups s) \<Longrightarrow> lease_step 0 (s, hs, ps) (s', hs, insert (inner h, g) ps)"
| step_drop: "h \<in> hs \<Longrightarrow> lease_step 0 (s, hs, ps) (drop_lease h s, hs - {h}, ps)"
| step_group: "lease_step 0 (s, hs, ps) (drop_group g s, hs, ps)"

inductive lease_steps :: "nat \<Rightarrow> lease_conf \<Rightarrow> lease_conf \<Rightarrow> bool" where
  none: "lease_steps 0 c c"
| more: "lease_steps n c c' \<Longrightarrow> lease_step k c' c'' \<Longrightarrow> lease_steps (n + k) c c''"

definition lease_start :: lease_conf where
  "lease_start = (registry_empty, {}, {})"

inductive_cases lease_step_cases: "lease_step k c c'"

section \<open>Invariant\<close>

lemma swap_remove_mset: "i < length xs \<Longrightarrow> mset xs = add_mset (xs ! i) (mset (swap_remove i xs))"
proof (cases xs rule: rev_cases)
  case (snoc ys y)
  assume "i < length xs"
  with snoc show ?thesis
    by (auto simp: swap_remove_def mset_update nth_append less_Suc_eq add_mset_commute)
qed simp

lemma position_Some: "position p xs = Some i \<Longrightarrow> i < length xs \<and> p (xs ! i)"
  by (induction xs arbitrary: i) (auto split: if_splits)

lemma position_None: "position p xs = None \<longleftrightarrow> \<not> (\<exists>x\<in>set xs. p x)"
  by (induction xs) auto

lemma push_group_leases [simp]: "map rec_lease (push_group l g rs) = map rec_lease rs"
  by (induction rs) auto

lemma push_group_old: "r \<in> set rs \<Longrightarrow> \<exists>r'\<in>set (push_group l g rs). rec_lease r' = rec_lease r \<and> set (rec_groups r) \<subseteq> set (rec_groups r')"
  by (induction rs) auto

lemma push_group_new: "\<exists>r\<in>set rs. rec_lease r = l \<Longrightarrow> \<exists>r\<in>set (push_group l g rs). rec_lease r = l \<and> g \<in> set (rec_groups r)"
  by (induction rs) auto

lemma revoke_record_frame [simp]:
  "revision (revoke_record r s) = revision s" "leases (revoke_record r s) = leases s"
  "next_lease (revoke_record r s) = next_lease s" "live (revoke_record r s) = live s"
  "live_groups (revoke_record r s) = live_groups s"
  by (simp_all add: revoke_record_def kill_groups_def cancel_def)

lemma fold_revoke_frame [simp]:
  "revision (fold revoke_record rs s) = revision s" "leases (fold revoke_record rs s) = leases s"
  "next_lease (fold revoke_record rs s) = next_lease s" "live (fold revoke_record rs s) = live s"
  "live_groups (fold revoke_record rs s) = live_groups s"
  by (induction rs arbitrary: s) simp_all

lemma fold_revoke_cancelled:
  "set (cancelled (fold revoke_record rs s)) = set (cancelled s) \<union> (rec_lease ` set rs \<inter> set (live s))"
  by (induction rs arbitrary: s) (auto simp: revoke_record_def kill_groups_def cancel_def)

lemma fold_revoke_killed:
  "set (killed (fold revoke_record rs s)) =
     set (killed s) \<union> {g \<in> set (live_groups s). \<exists>r\<in>set rs. rec_lease r \<in> set (live s) \<and> g \<in> set (rec_groups r)}"
  by (induction rs arbitrary: s) (auto simp: revoke_record_def kill_groups_def cancel_def)

lemmas transition_fields = transition_def fold_revoke_cancelled fold_revoke_killed

definition lease_inv :: "lease_conf \<Rightarrow> bool" where
  "lease_inv c \<longleftrightarrow> (case c of (s, hs, ps) \<Rightarrow>
     distinct (map rec_lease (leases s)) \<and>
     (\<forall>r\<in>set (leases s). rec_lease r \<in> set (live s) \<and> rec_lease r \<notin> set (cancelled s) \<and>
        (\<exists>h\<in>hs. inner h = rec_lease r \<and> lease_revision h = revision s)) \<and>
     (\<forall>h\<in>hs. inner h \<in> set (live s) \<and> (inner h \<notin> set (cancelled s) \<longrightarrow> (\<exists>r\<in>set (leases s). rec_lease r = inner h))) \<and>
     inj_on inner hs \<and>
     (\<forall>l\<in>set (live s) \<union> set (cancelled s). l < next_lease s) \<and>
     (\<forall>(l, g)\<in>ps. g \<in> set (live_groups s) \<longrightarrow>
        g \<in> set (killed s) \<or> (\<exists>r\<in>set (leases s). rec_lease r = l \<and> g \<in> set (rec_groups r))))"

lemma lease_invI:
  assumes "distinct (map rec_lease (leases s))"
    and "\<And>r. r \<in> set (leases s) \<Longrightarrow> rec_lease r \<in> set (live s) \<and> rec_lease r \<notin> set (cancelled s) \<and>
        (\<exists>h\<in>hs. inner h = rec_lease r \<and> lease_revision h = revision s)"
    and "\<And>h. h \<in> hs \<Longrightarrow> inner h \<in> set (live s)"
    and "\<And>h. h \<in> hs \<Longrightarrow> inner h \<notin> set (cancelled s) \<Longrightarrow> \<exists>r\<in>set (leases s). rec_lease r = inner h"
    and "inj_on inner hs"
    and "\<And>l. l \<in> set (live s) \<or> l \<in> set (cancelled s) \<Longrightarrow> l < next_lease s"
    and "\<And>l g. (l, g) \<in> ps \<Longrightarrow> g \<in> set (live_groups s) \<Longrightarrow>
        g \<in> set (killed s) \<or> (\<exists>r\<in>set (leases s). rec_lease r = l \<and> g \<in> set (rec_groups r))"
  shows "lease_inv (s, hs, ps)"
  using assms unfolding lease_inv_def by (simp only: prod.case) blast

lemma lease_invD:
  assumes "lease_inv (s, hs, ps)"
  shows "distinct (map rec_lease (leases s))"
    and "r \<in> set (leases s) \<Longrightarrow> rec_lease r \<in> set (live s) \<and> rec_lease r \<notin> set (cancelled s) \<and>
        (\<exists>h\<in>hs. inner h = rec_lease r \<and> lease_revision h = revision s)"
    and "h \<in> hs \<Longrightarrow> inner h \<in> set (live s)"
    and "h \<in> hs \<Longrightarrow> inner h \<notin> set (cancelled s) \<Longrightarrow> \<exists>r\<in>set (leases s). rec_lease r = inner h"
    and "inj_on inner hs"
    and "l \<in> set (live s) \<or> l \<in> set (cancelled s) \<Longrightarrow> l < next_lease s"
    and "(l, g) \<in> ps \<Longrightarrow> g \<in> set (live_groups s) \<Longrightarrow>
        g \<in> set (killed s) \<or> (\<exists>r\<in>set (leases s). rec_lease r = l \<and> g \<in> set (rec_groups r))"
  using assms unfolding lease_inv_def by (simp_all only: prod.case) blast+

lemma transition_sel:
  "leases (transition s) = []" "live (transition s) = live s" "next_lease (transition s) = next_lease s"
  "live_groups (transition s) = live_groups s" "revision (transition s) = revision s + 1"
  "set (cancelled (transition s)) = set (cancelled s) \<union> (rec_lease ` set (leases s) \<inter> set (live s))"
  "set (killed (transition s)) = set (killed s) \<union>
     {g \<in> set (live_groups s). \<exists>r\<in>set (leases s). rec_lease r \<in> set (live s) \<and> g \<in> set (rec_groups r)}"
  by (simp_all add: transition_def fold_revoke_cancelled fold_revoke_killed)

lemma transition_revokes:
  "lease_inv (s, hs, ps) \<Longrightarrow> h \<in> hs \<Longrightarrow> inner h \<in> set (cancelled (transition s))"
  unfolding transition_sel using lease_invD(3,4) [of s hs ps h] by (metis IntI UnI1 UnI2 image_eqI)

lemma transition_kills:
  "lease_inv (s, hs, ps) \<Longrightarrow> (l, g) \<in> ps \<Longrightarrow> g \<in> set (live_groups s) \<Longrightarrow> g \<in> set (killed (transition s))"
  unfolding transition_sel using lease_invD(2,7) [of s hs ps] by blast

lemma lease_inv_transition:
  assumes "lease_inv (s, hs, ps)"
  shows "lease_inv (transition s, hs, ps)"
proof (rule lease_invI)
  show "inner h \<in> set (live (transition s))" if "h \<in> hs" for h
    using lease_invD(3) [OF assms that] by (simp add: transition_sel)
  show "l < next_lease (transition s)" if "l \<in> set (live (transition s)) \<or> l \<in> set (cancelled (transition s))" for l
    using that lease_invD(6) [OF assms, of l] by (auto simp: transition_sel)
  show "inj_on inner hs" by (rule lease_invD(5) [OF assms])
qed (use transition_revokes [OF assms] transition_kills [OF assms] in \<open>auto simp: transition_sel(1,4)\<close>)

lemma lease_inv_issue:
  assumes inv: "lease_inv (s, hs, ps)" and "issue rv s = (Some h, s')"
  shows "lease_inv (s', insert h hs, ps)"
proof -
  let ?l = "next_lease s"
  have "filter (\<lambda>r. rec_lease r \<in> set (live s)) (leases s) = leases s"
    using lease_invD(2) [OF inv] by (simp add: filter_id_conv)
  then have h: "h = \<lparr>inner = ?l, lease_revision = revision s\<rparr>"
    and s': "s' = s\<lparr>leases := leases s @ [\<lparr>rec_lease = ?l, rec_groups = []\<rparr>], next_lease := ?l + 1, live := ?l # live s\<rparr>"
    using assms(2) by (auto simp: issue_def Let_def split: if_splits)
  have fresh: "?l \<notin> set (live s)" "?l \<notin> set (cancelled s)" using lease_invD(6) [OF inv, of ?l] by auto
  have hs: "inner k \<noteq> ?l" if "k \<in> hs" for k using lease_invD(3) [OF inv that] fresh by metis
  show ?thesis
  proof (rule lease_invI)
    show "distinct (map rec_lease (leases s'))"
      using lease_invD(1) [OF inv] lease_invD(2) [OF inv] fresh by (auto simp: s')
    have "inner h \<notin> inner ` hs" using hs by (auto simp: h image_iff) metis
    then show "inj_on inner (insert h hs)" using lease_invD(5) [OF inv] unfolding inj_on_insert by blast
    show "l < next_lease s'" if "l \<in> set (live s') \<or> l \<in> set (cancelled s')" for l
      using that lease_invD(6) [OF inv, of l] by (auto simp: s')
    show "g \<in> set (killed s') \<or> (\<exists>r\<in>set (leases s'). rec_lease r = l \<and> g \<in> set (rec_groups r))"
      if "(l, g) \<in> ps" "g \<in> set (live_groups s')" for l g
      using lease_invD(7) [OF inv that(1)] that(2) by (auto simp: s')
    show "rec_lease r \<in> set (live s') \<and> rec_lease r \<notin> set (cancelled s') \<and>
        (\<exists>k\<in>insert h hs. inner k = rec_lease r \<and> lease_revision k = revision s')" if "r \<in> set (leases s')" for r
      using that lease_invD(2) [OF inv, of r] fresh by (auto simp: s' h)
    show "inner k \<in> set (live s')" if "k \<in> insert h hs" for k
      using that lease_invD(3) [OF inv, of k] by (auto simp: s' h)
    show "\<exists>r\<in>set (leases s'). rec_lease r = inner k" if "k \<in> insert h hs" "inner k \<notin> set (cancelled s')" for k
      using that lease_invD(4) [OF inv, of k] by (auto simp: s' h)
  qed
qed

lemma lease_inv_spawn:
  assumes inv: "lease_inv (s, hs, ps)" and "with_active_process h (Inr (v, g)) s = (Inr (Inr v), s')"
    and fresh: "g \<notin> snd ` ps \<or> g \<in> set (live_groups s)"
  shows "lease_inv (s', hs, insert (inner h, g) ps)"
proof -
  let ?rs = "push_group (inner h) g (leases s)"
  have s': "s' = s\<lparr>leases := ?rs, live_groups := List.insert g (live_groups s)\<rparr>"
    and r: "\<exists>r\<in>set (leases s). rec_lease r = inner h"
    using assms(2) by (auto simp: with_active_process_def list_ex_iff split: if_splits)
  have ids: "rec_lease ` set ?rs = rec_lease ` set (leases s)"
    using push_group_leases [of "inner h" g "leases s"] by (metis set_map)
  show ?thesis
  proof (rule lease_invI)
    show "distinct (map rec_lease (leases s'))" using lease_invD(1) [OF inv] by (simp add: s')
    show "inj_on inner hs" by (rule lease_invD(5) [OF inv])
    show "l < next_lease s'" if "l \<in> set (live s') \<or> l \<in> set (cancelled s')" for l
      using that lease_invD(6) [OF inv, of l] by (simp add: s')
    show "inner k \<in> set (live s')" if "k \<in> hs" for k using lease_invD(3) [OF inv that] by (simp add: s')
    show "\<exists>r\<in>set (leases s'). rec_lease r = inner k" if k: "k \<in> hs" "inner k \<notin> set (cancelled s')" for k
    proof -
      have "inner k \<in> rec_lease ` set (leases s)" using lease_invD(4) [OF inv, of k] k by (simp add: s' image_iff) metis
      then have "inner k \<in> rec_lease ` set ?rs" using ids by simp
      then show ?thesis by (auto simp: s')
    qed
    show "rec_lease r \<in> set (live s') \<and> rec_lease r \<notin> set (cancelled s') \<and>
        (\<exists>k\<in>hs. inner k = rec_lease r \<and> lease_revision k = revision s')" if "r \<in> set (leases s')" for r
    proof -
      have "rec_lease r \<in> rec_lease ` set (leases s)" using that ids by (auto simp: s')
      then obtain r0 where "r0 \<in> set (leases s)" "rec_lease r = rec_lease r0" by auto
      then show ?thesis using lease_invD(2) [OF inv, of r0] by (simp add: s')
    qed
    show "k \<in> set (killed s') \<or> (\<exists>r\<in>set (leases s'). rec_lease r = l \<and> k \<in> set (rec_groups r))"
      if lk: "(l, k) \<in> insert (inner h, g) ps" "k \<in> set (live_groups s')" for l k
    proof (cases "(l, k) = (inner h, g)")
      case True
      then show ?thesis using push_group_new [OF r, of g] by (simp add: s')
    next
      case False
      with lk(1) have ps: "(l, k) \<in> ps" by blast
      then have "k \<in> snd ` ps" by force
      then have "k \<in> set (live_groups s)" using lk(2) fresh by (auto simp: s')
      from lease_invD(7) [OF inv ps this] show ?thesis
      proof
        assume "\<exists>r\<in>set (leases s). rec_lease r = l \<and> k \<in> set (rec_groups r)"
        then obtain r where "r \<in> set (leases s)" "rec_lease r = l" "k \<in> set (rec_groups r)" by blast
        then show ?thesis using push_group_old [of r "leases s" "inner h" g] by (auto simp: s')
      qed (simp add: s')
    qed
  qed
qed

lemma drop_sel [simp]:
  "live (drop_lease h s) = removeAll (inner h) (live s)" "next_lease (drop_lease h s) = next_lease s"
  "live_groups (drop_lease h s) = live_groups s" "revision (drop_lease h s) = revision s"
  by (simp_all add: drop_lease_def kill_groups_def cancel_def Let_def split: option.split)

lemma drop_conj:
  assumes "distinct (map rec_lease (leases s))"
  shows "distinct (map rec_lease (leases (drop_lease h s))) \<and>
    set (leases (drop_lease h s)) = {r \<in> set (leases s). rec_lease r \<noteq> inner h} \<and>
    set (cancelled s) \<subseteq> set (cancelled (drop_lease h s)) \<and>
    set (cancelled (drop_lease h s)) \<subseteq> insert (inner h) (set (cancelled s)) \<and>
    (r \<in> set (leases s) \<longrightarrow> rec_lease r = inner h \<longrightarrow> g \<in> set (rec_groups r) \<longrightarrow> g \<in> set (live_groups s) \<longrightarrow>
      g \<in> set (killed (drop_lease h s))) \<and> set (killed s) \<subseteq> set (killed (drop_lease h s))"
proof (cases "position (\<lambda>r. rec_lease r = inner h) (leases s)")
  case None
  then have "drop_lease h s = s\<lparr>live := removeAll (inner h) (live s)\<rparr>" by (simp add: drop_lease_def)
  with None assms show ?thesis
    by (auto simp: position_None)
next
  case (Some i)
  let ?r = "leases s ! i" and ?rs = "swap_remove i (leases s)"
  have i: "i < length (leases s)" "rec_lease ?r = inner h" using position_Some [OF Some] by auto
  have m: "mset (leases s) = mset (?r # ?rs)" using swap_remove_mset [OF i(1)] by simp
  have "mset (map rec_lease (leases s)) = mset (map rec_lease (?r # ?rs))" using m by (simp only: mset_map)
  then have d: "distinct (map rec_lease (?r # ?rs))" using assms mset_eq_imp_distinct_iff by blast
  have rs: "set (leases s) = insert ?r (set ?rs)" using mset_eq_setD [OF m] by simp
  have ne: "rec_lease q \<noteq> inner h" if "q \<in> set ?rs" for q
    using d i(2) imageI [OF that, of rec_lease] by auto
  have only: "q = ?r" if "q \<in> set (leases s)" "rec_lease q = inner h" for q using that rs ne by blast
  have eq: "drop_lease h s = s\<lparr>leases := ?rs, cancelled := inner h # cancelled s,
      killed := killed s @ filter (\<lambda>g. g \<in> set (live_groups s)) (rec_groups ?r), live := removeAll (inner h) (live s)\<rparr>"
    by (simp add: drop_lease_def Some Let_def kill_groups_def cancel_def)
  have st: "set ?rs = {q \<in> set (leases s). rec_lease q \<noteq> inner h}" unfolding rs using ne i(2) by auto
  show ?thesis
    unfolding eq using d st only [of r] by auto
qed

lemma drop_records:
  assumes "distinct (map rec_lease (leases s))"
  shows "distinct (map rec_lease (leases (drop_lease h s)))"
    and "set (leases (drop_lease h s)) = {r \<in> set (leases s). rec_lease r \<noteq> inner h}"
    and "set (cancelled s) \<subseteq> set (cancelled (drop_lease h s))"
    and "set (cancelled (drop_lease h s)) \<subseteq> insert (inner h) (set (cancelled s))"
    and "r \<in> set (leases s) \<Longrightarrow> rec_lease r = inner h \<Longrightarrow> g \<in> set (rec_groups r) \<Longrightarrow> g \<in> set (live_groups s) \<Longrightarrow>
      g \<in> set (killed (drop_lease h s))"
    and "set (killed s) \<subseteq> set (killed (drop_lease h s))"
  using drop_conj [OF assms, of h r g] by blast+

lemma lease_inv_drop:
  assumes inv: "lease_inv (s, hs, ps)" and h: "h \<in> hs"
  shows "lease_inv (drop_lease h s, hs - {h}, ps)"
proof (rule lease_invI)
  note dr = drop_records [OF lease_invD(1) [OF inv]]
  have other: "inner k \<noteq> inner h" if "k \<in> hs - {h}" for k
    using inj_onD [OF lease_invD(5) [OF inv], of k h] that h by blast
  show "distinct (map rec_lease (leases (drop_lease h s)))" by (rule dr(1))
  show "inj_on inner (hs - {h})" using lease_invD(5) [OF inv] by (rule inj_on_diff)
  show "inner k \<in> set (live (drop_lease h s))" if "k \<in> hs - {h}" for k
    using lease_invD(3) [OF inv, of k] that other [OF that] by simp
  show "\<exists>r\<in>set (leases (drop_lease h s)). rec_lease r = inner k"
    if k: "k \<in> hs - {h}" "inner k \<notin> set (cancelled (drop_lease h s))" for k
  proof -
    have "inner k \<notin> set (cancelled s)" using k(2) dr(3) [of h] by blast
    then obtain r where "r \<in> set (leases s)" "rec_lease r = inner k"
      using lease_invD(4) [OF inv, of k] k(1) by blast
    then show ?thesis using other [OF k(1)] dr(2) [of h] by auto
  qed
  show "l < next_lease (drop_lease h s)"
    if "l \<in> set (live (drop_lease h s)) \<or> l \<in> set (cancelled (drop_lease h s))" for l
    using that dr(4) [of h] lease_invD(6) [OF inv] lease_invD(3) [OF inv h] by auto
  show "rec_lease r \<in> set (live (drop_lease h s)) \<and> rec_lease r \<notin> set (cancelled (drop_lease h s)) \<and>
      (\<exists>k\<in>hs - {h}. inner k = rec_lease r \<and> lease_revision k = revision (drop_lease h s))"
    if "r \<in> set (leases (drop_lease h s))" for r
  proof -
    have r: "r \<in> set (leases s)" "rec_lease r \<noteq> inner h" using that dr(2) [of h] by auto
    obtain k where "k \<in> hs" "inner k = rec_lease r" "lease_revision k = revision s"
      using lease_invD(2) [OF inv r(1)] by blast
    moreover have "k \<noteq> h" using calculation r(2) by auto
    ultimately show ?thesis using lease_invD(2) [OF inv r(1)] r(2) dr(4) [of h] by auto
  qed
  show "g \<in> set (killed (drop_lease h s)) \<or>
      (\<exists>r\<in>set (leases (drop_lease h s)). rec_lease r = l \<and> g \<in> set (rec_groups r))"
    if "(l, g) \<in> ps" "g \<in> set (live_groups (drop_lease h s))" for l g
  proof -
    have g: "g \<in> set (live_groups s)" using that(2) by simp
    from lease_invD(7) [OF inv that(1) g] show ?thesis
    proof
      assume "\<exists>r\<in>set (leases s). rec_lease r = l \<and> g \<in> set (rec_groups r)"
      then obtain r where r: "r \<in> set (leases s)" "rec_lease r = l" "g \<in> set (rec_groups r)" by blast
      show ?thesis
      proof (cases "l = inner h")
        case True
        then show ?thesis using dr(5) [OF r(1), of h g] r(2,3) g by blast
      next
        case False
        then show ?thesis using r dr(2) [of h] by blast
      qed
    qed (use dr(6) in blast)
  qed
qed

lemma lease_inv_group: "lease_inv (s, hs, ps) \<Longrightarrow> lease_inv (drop_group g s, hs, ps)"
  by (fastforce simp: lease_inv_def drop_group_def)

lemma lease_inv_step: "lease_step k c c' \<Longrightarrow> lease_inv c \<Longrightarrow> lease_inv c'"
  by (induction rule: lease_step.induct)
    (blast intro: lease_inv_transition lease_inv_issue lease_inv_spawn lease_inv_drop lease_inv_group)+

lemma lease_inv_steps: "lease_steps n c c' \<Longrightarrow> lease_inv c \<Longrightarrow> lease_inv c'"
  by (induction rule: lease_steps.induct) (auto intro: lease_inv_step)

lemma lease_inv_start: "lease_inv lease_start"
  by (simp add: lease_inv_def lease_start_def registry_empty_def)

lemma cancelled_step: "lease_step k c c' \<Longrightarrow> set (cancelled (fst c)) \<subseteq> set (cancelled (fst c'))"
  by (induction rule: lease_step.induct)
    (auto simp: transition_fields issue_def with_active_process_def drop_lease_def drop_group_def kill_groups_def
      cancel_def Let_def split: if_splits option.splits)

lemma cancelled_steps: "lease_steps n c c' \<Longrightarrow> set (cancelled (fst c)) \<subseteq> set (cancelled (fst c'))"
  by (induction rule: lease_steps.induct) (auto dest: cancelled_step)

lemma revision_step: "lease_step k c c' \<Longrightarrow> revision (fst c') = revision (fst c) + of_nat k"
  by (induction rule: lease_step.induct)
    (auto simp: transition_def issue_def with_active_process_def drop_lease_def drop_group_def kill_groups_def
      cancel_def Let_def split: if_splits option.splits)

lemma revision_steps: "lease_steps n c c' \<Longrightarrow> revision (fst c') = revision (fst c) + of_nat n"
  by (induction rule: lease_steps.induct) (auto dest: revision_step simp: add.assoc)

section \<open>Revocation\<close>

text \<open>C14: A change of policy ends every external process: whatever was issued, started and dropped before,
  after the transition each existing lease is revoked, each process group ever started under a lease has
  been killed unless it was already gone, and no registration through one of those leases succeeds ever
  again, also when the revision counter has wrapped around to the value of the lease.\<close>

theorem transition_revokes_all:
  assumes "lease_steps n lease_start (s, hs, ps)"
    and "lease_steps m (transition s, hs, ps) (s', hs', ps')"
  shows "(\<forall>h\<in>hs. is_revoked h (transition s)) \<and>
         (\<forall>(l, g)\<in>ps. g \<in> set (live_groups (transition s)) \<longrightarrow> g \<in> set (killed (transition s))) \<and>
         (\<forall>h\<in>hs. \<forall>spawned. with_active_process h spawned s' = (Inl LeaseRevoked, s'))"
proof -
  have inv: "lease_inv (s, hs, ps)" using lease_inv_steps [OF assms(1) lease_inv_start] .
  have r: "is_revoked h (transition s)" if "h \<in> hs" for h
    using inv that unfolding lease_inv_def is_revoked_def transition_fields by force
  moreover have "g \<in> set (killed (transition s))" if "(l, g) \<in> ps" "g \<in> set (live_groups (transition s))" for l g
    using inv that unfolding lease_inv_def transition_fields by (fastforce simp: transition_def)
  moreover have "with_active_process h spawned s' = (Inl LeaseRevoked, s')" if "h \<in> hs" for h spawned
    using r [OF that] cancelled_steps [OF assms(2)] by (auto simp: is_revoked_def with_active_process_def)
  ultimately show ?thesis by auto
qed

text \<open>A revision read when a request was queued yields a lease exactly if no policy change came in
  between, up to wrap-around of the 64-bit counter: after \<open>n\<close> changes it does iff \<open>2^64\<close> divides \<open>n\<close>.\<close>

theorem stale_snapshot_refused:
  assumes "lease_steps n (s, hs, ps) (s', hs', ps')"
  shows "fst (issue (enqueue_snapshot s) s') \<noteq> None \<longleftrightarrow> 2 ^ 64 dvd n"
proof -
  have "revision s' = revision s + of_nat n" using revision_steps [OF assms] by simp
  then have "fst (issue (enqueue_snapshot s) s') \<noteq> None \<longleftrightarrow> (of_nat n :: u64) = 0"
    by (auto simp: issue_def enqueue_snapshot_def Let_def)
  also have "\<dots> \<longleftrightarrow> 2 ^ 64 dvd n" by (simp add: word_of_nat_eq_0_iff)
  finally show ?thesis .
qed

definition example_lease :: unrestricted_lease where
  "example_lease = \<lparr>inner = 0, lease_revision = 0\<rparr>"

lemma example_history:
  "lease_steps 0 lease_start
     (snd (with_active_process example_lease (Inr ((), 7) :: unit + unit \<times> nat) (snd (issue 0 registry_empty))),
      {example_lease}, {(0, 7)})"
proof -
  let ?s = "snd (issue 0 registry_empty)"
  have i: "issue 0 registry_empty = (Some example_lease, ?s)" by code_simp
  have w: "with_active_process example_lease (Inr ((), 7) :: unit + unit \<times> nat) ?s =
      (Inr (Inr ()), snd (with_active_process example_lease (Inr ((), 7) :: unit + unit \<times> nat) ?s))" by code_simp
  have "lease_steps 0 lease_start (?s, {example_lease}, {})"
    using lease_steps.more [OF lease_steps.none lease_step.step_issue [OF i]] by (simp add: lease_start_def)
  then show ?thesis
    using lease_steps.more [OF _ lease_step.step_spawn [OF _ w]] by (fastforce simp: example_lease_def)
qed

theorem transition_revokes_all_witness:
  "7 \<in> set (killed (transition (snd (with_active_process example_lease (Inr ((), 7) :: unit + unit \<times> nat)
     (snd (issue 0 registry_empty))))))"
proof -
  have "7 \<in> set (live_groups (transition (snd (with_active_process example_lease (Inr ((), 7) :: unit + unit \<times> nat)
     (snd (issue 0 registry_empty))))))" by code_simp
  then show ?thesis using transition_revokes_all [OF example_history lease_steps.none] by blast
qed

theorem stale_snapshot_refused_witness:
  "fst (issue (enqueue_snapshot registry_empty) (transition registry_empty)) = None"
proof -
  have "lease_steps (0 + 1) (registry_empty, {}, {}) (transition registry_empty, {}, {})"
    by (rule lease_steps.more [OF lease_steps.none lease_step.step_transition])
  then show ?thesis using stale_snapshot_refused [of "0 + 1"] by fastforce
qed

end
