(* ===== verification/Shell_Access.thy ===== *)
theory Shell_Access
  imports Permission_Policy
begin

text \<open>
  The files a shell command reads and writes, \<open>permission/shell_access.rs\<close>: the operands and redirects
  found in a syntax tree, the working-directory changes before them, and the gate that matches every such
  path against the read and edit rules of a policy. A node of a tree does not know its parent, so a walk
  carries for each node its ancestors, each with the sibling that follows on the way down. As for the
  command gate, each level of inline scripts is given the next one as an argument.
\<close>

section \<open>Programs and their operands\<close>

datatype shell_file_mode = MRead | MWrite | MCreate

definition READ_PROGRAMS :: "string list" where
  "READ_PROGRAMS =
     [''cat'', ''tac'', ''nl'', ''head'', ''tail'', ''grep'', ''egrep'', ''fgrep'', ''rg'', ''sed'', ''awk'',
      ''less'', ''more'', ''bat'', ''strings'', ''xxd'', ''od'', ''hexdump'', ''base64'', ''base32'', ''cut'',
      ''sort'', ''uniq'', ''wc'', ''type'', ''get-content'', ''gc'', ''diff'', ''comm'', ''rev'', ''jq'', ''yq'',
      ''select-string'', ''sls'', ''ag'', ''ack'', ''zcat'', ''zless'', ''zmore'', ''zgrep'', ''zegrep'',
      ''zfgrep'', ''bzcat'', ''bzgrep'', ''xzcat'', ''xzgrep'', ''zstdcat'', ''lz4cat'']"

definition WRITE_PROGRAMS :: "string list" where
  "WRITE_PROGRAMS = [''tee'', ''set-content'', ''out-file'', ''add-content'', ''tee-object'', ''truncate'']"

definition program_file_mode :: "string \<Rightarrow> shell_file_mode option" where
  "program_file_mode program =
     (if program \<in> set READ_PROGRAMS then Some MRead
      else if program \<in> set WRITE_PROGRAMS then Some MWrite else None)"

definition shell_sed_in_place :: "string list \<Rightarrow> bool" where
  "shell_sed_in_place words =
     list_ex (\<lambda>w. w = ''--in-place'' \<or> starts_with w ''--in-place='' \<or>
                  (starts_with w ''-'' \<and> \<not> starts_with w ''--'' \<and> CHR ''i'' \<in> set w)) (tl words)"

definition next_word :: "string list \<Rightarrow> string list" where
  "next_word ws = (case ws of [] \<Rightarrow> [] | w # _ \<Rightarrow> [w])"

fun shell_output_flag_values :: "string list \<Rightarrow> string list" where
  "shell_output_flag_values [] = []"
| "shell_output_flag_values (token # ws) =
     (case strip_prefix token ''--output='' of
        Some v \<Rightarrow> [v]
      | None \<Rightarrow>
          (case strip_prefix token ''-o'' of
             Some (c # cs) \<Rightarrow> [c # cs]
           | _ \<Rightarrow> (if token = ''--output'' \<or> token = ''-o'' then next_word ws else [])))
     @ shell_output_flag_values ws"

fun value_flag_values :: "string \<Rightarrow> string list \<Rightarrow> string list" where
  "value_flag_values flag [] = []"
| "value_flag_values flag (token # ws) =
     (case strip_prefix token (flag @ ''='') of
        Some v \<Rightarrow> [v]
      | None \<Rightarrow>
          (if token = flag then next_word ws
           else if \<not> starts_with flag ''--'' then
             (case strip_prefix token flag of Some (c # cs) \<Rightarrow> [c # cs] | _ \<Rightarrow> [])
           else []))
     @ value_flag_values flag ws"

fun candidates_loop :: "bool \<Rightarrow> string list \<Rightarrow> string list" where
  "candidates_loop end_of_options [] = []"
| "candidates_loop end_of_options (token # ws) =
     (if \<not> end_of_options \<and> token = ''--'' then candidates_loop True ws
      else if end_of_options \<or> (token \<noteq> ''-'' \<and> \<not> starts_with token ''-'')
      then token # candidates_loop end_of_options ws
      else candidates_loop end_of_options ws)"

definition shell_file_candidates :: "string list \<Rightarrow> string list" where
  "shell_file_candidates words = candidates_loop False (tl words)"

definition dd_operand :: "string \<Rightarrow> (string \<times> shell_file_mode) list" where
  "dd_operand token =
     (case strip_prefix token ''if='' of
        Some p \<Rightarrow> [(p, MRead)]
      | None \<Rightarrow> (case strip_prefix token ''of='' of Some p \<Rightarrow> [(p, MWrite)] | None \<Rightarrow> []))"

definition special_file_operands :: "string \<Rightarrow> string list \<Rightarrow> (string \<times> shell_file_mode) list" where
  "special_file_operands program words =
     (if program = ''dd'' then concat (map dd_operand (tl words))
      else if program \<in> {''sort'', ''go'', ''git''} then map (\<lambda>p. (p, MWrite)) (shell_output_flag_values words)
      else if program = ''rustc'' then
        map (\<lambda>p. (p, MWrite)) (shell_output_flag_values words @ value_flag_values ''--out-dir'' words)
      else if program = ''rustfmt'' then map (\<lambda>p. (p, MWrite)) (shell_file_candidates words)
      else [])"

definition is_creation_program :: "string \<Rightarrow> bool" where
  "is_creation_program program \<longleftrightarrow> program = ''mkdir'' \<or> program = ''touch''"

definition shell_path_command_operands :: "string \<Rightarrow> string list \<Rightarrow> (string \<times> shell_file_mode) list option" where
  "shell_path_command_operands program words =
     (let operands = shell_file_candidates words
      in if program \<in> {''cp'', ''mv'', ''ln'', ''install''} then
           (if operands = [] then None
            else Some (map (\<lambda>s. (s, MRead)) (butlast operands) @ [(last operands, MWrite)]))
         else if program \<in> {''rm'', ''rmdir''} then Some (map (\<lambda>c. (c, MWrite)) operands)
         else if is_creation_program program then Some (map (\<lambda>c. (c, MCreate)) operands)
         else if program = ''uniq'' then
           (case operands of i # out # _ \<Rightarrow> Some [(i, MRead), (out, MWrite)] | _ \<Rightarrow> None)
         else None)"

definition shell_arg_is_ambiguous :: "string \<Rightarrow> bool" where
  "shell_arg_is_ambiguous token \<longleftrightarrow> CHR ''*'' \<in> set token \<or> CHR ''?'' \<in> set token \<or> CHR ''['' \<in> set token"

definition is_directory_operand :: "string \<Rightarrow> bool" where
  "is_directory_operand token \<longleftrightarrow> token = ''.'' \<or> token = ''..'' \<or> ends_with token ''/''"

definition shell_reader_can_recurse :: "string \<Rightarrow> string list \<Rightarrow> string list \<Rightarrow> bool" where
  "shell_reader_can_recurse program words candidates \<longleftrightarrow>
     (program \<in> {''grep'', ''egrep'', ''fgrep''} \<and>
      list_ex (\<lambda>w. w = ''--recursive'' \<or> w = ''--dereference-recursive'' \<or>
                   (starts_with w ''-'' \<and> \<not> starts_with w ''--'' \<and> (CHR ''r'' \<in> set w \<or> CHR ''R'' \<in> set w))) words) \<or>
     (program \<in> {''rg'', ''ag'', ''ack''} \<and>
      (length candidates \<le> 1 \<or> list_ex is_directory_operand (tl candidates)))"

section \<open>Paths\<close>

definition drive_colon :: "string \<Rightarrow> bool" where
  "drive_colon p \<longleftrightarrow> 1 < length p \<and> p ! 1 = CHR '':''"

definition is_absolute_shell_path :: "string \<Rightarrow> bool" where
  "is_absolute_shell_path p \<longleftrightarrow> starts_with p ''/'' \<or> starts_with p ''~/'' \<or> drive_colon p"

definition trim_quotes :: "string \<Rightarrow> string" where
  "trim_quotes p = rev (dropWhile (\<lambda>c. c \<in> {dq, sq}) (rev (dropWhile (\<lambda>c. c \<in> {dq, sq}) p)))"

definition normalize_shell_path_raw :: "string \<Rightarrow> string" where
  "normalize_shell_path_raw p =
     (let q = map (\<lambda>c. if c = CHR 0x5C then CHR ''/'' else c) (trim_quotes p)
      in case strip_prefix q ''/c/'' of Some rest \<Rightarrow> ''C:/'' @ rest | None \<Rightarrow> q)"

text \<open>The segments kept so far, the last one first.\<close>

definition segment_step :: "bool \<Rightarrow> string \<Rightarrow> string list \<Rightarrow> string list" where
  "segment_step absolute seg out =
     (if seg = [] \<or> seg = ''.'' then out
      else if seg = ''..'' then
        (case out of
           s # rest \<Rightarrow> (if s \<noteq> ''..'' then rest else if \<not> absolute then ''..'' # out else out)
         | [] \<Rightarrow> (if \<not> absolute then [''..''] else []))
      else seg # out)"

definition lexical_normalize :: "string \<Rightarrow> string" where
  "lexical_normalize p =
     (let n = (if drive_colon p then 2 else 0);
          drive = take n p; rest = drop n p;
          absolute = starts_with rest ''/'';
          body = join ''/'' (rev (fold (segment_step absolute) (split_on CHR ''/'' rest) []))
      in drive @ (if absolute then ''/'' else []) @ body)"

definition normalize_shell_path :: "string \<Rightarrow> string" where
  "normalize_shell_path p = lexical_normalize (normalize_shell_path_raw p)"

definition shell_access :: "shell_file_mode \<Rightarrow> string \<Rightarrow> access_kind" where
  "shell_access mode p = (case mode of MRead \<Rightarrow> Read (Some p) | _ \<Rightarrow> Edit p)"

section \<open>Nodes and their surroundings\<close>

text \<open>The ancestors of a node, nearest first, each with the sibling that follows the node below it.\<close>

type_synonym surroundings = "(node option \<times> node) list"

definition located_children :: "node \<Rightarrow> surroundings \<Rightarrow> (node \<times> surroundings) list" where
  "located_children n ctx =
     map (\<lambda>(c, sib). (c, (sib, n) # ctx)) (zip (children n) (map Some (tl (children n)) @ [None]))"

lemma located_children_fst: "map fst (located_children n ctx) = children n"
  by (cases "children n") (simp_all add: located_children_def case_prod_beta comp_def flip: map_fst_zip_take)

text \<open>The walk of every function that collects nodes: the children are pushed in order, so the last is on
  top of the stack.\<close>

function located_walk :: "(node \<times> surroundings) list \<Rightarrow> (node \<times> surroundings) list" where
  "located_walk [] = []"
| "located_walk ((n, ctx) # stack) = (n, ctx) # located_walk (rev (located_children n ctx) @ stack)"
  by pat_completeness auto
termination
proof (relation "measure (\<lambda>stack. sum_list (map (size \<circ> fst) stack))")
  fix n ctx and stack :: "(node \<times> surroundings) list"
  have "sum_list (map (size \<circ> fst) (rev (located_children n ctx))) = sum_list (map size (children n))"
    by (simp add: rev_map [symmetric] located_children_fst flip: map_map)
  then show "(rev (located_children n ctx) @ stack, (n, ctx) # stack)
      \<in> measure (\<lambda>stack. sum_list (map (size \<circ> fst) stack))"
    using size_children [of n] by simp
qed simp

record execution_scope =
  scope_start :: nat
  scope_end :: nat

definition node_scope :: "node \<Rightarrow> execution_scope" where
  "node_scope n = \<lparr>scope_start = start_byte n, scope_end = end_byte n\<rparr>"

fun execution_scope_of :: "node \<Rightarrow> surroundings \<Rightarrow> execution_scope" where
  "execution_scope_of current [] = \<lparr>scope_start = 0, scope_end = 2 ^ 64 - 1\<rparr>"
| "execution_scope_of current ((sib, par) # ctx) =
     (if (case sib of Some s \<Rightarrow> kind s = ''&'' | None \<Rightarrow> False)
      then node_scope (if kind current = ''list'' then current else par)
      else if kind par \<in> {''subshell'', ''command_substitution'', ''process_substitution''} then node_scope par
      else if kind par = ''pipeline'' then node_scope current
      else execution_scope_of par ctx)"

definition scope_contains :: "execution_scope \<Rightarrow> execution_scope \<Rightarrow> bool" where
  "scope_contains a b \<longleftrightarrow> scope_start a \<le> scope_start b \<and> scope_end b \<le> scope_end a"

section \<open>Changes of the working directory\<close>

definition CWD_PROGRAMS :: "string list" where
  "CWD_PROGRAMS = [''cd'', ''pushd'', ''popd'']"

record cwd_poison =
  poison_at :: nat
  poison_scope :: execution_scope

definition changes_cwd :: "string \<Rightarrow> node \<Rightarrow> bool" where
  "changes_cwd src n \<longleftrightarrow>
     kind n = ''command'' \<and>
     (case Option.bind (child_by_field_name n ''name'') (utf8_text src) of
        Some program \<Rightarrow> basename program \<in> set CWD_PROGRAMS
      | None \<Rightarrow> False)"

definition cwd_poison_positions :: "node \<Rightarrow> string \<Rightarrow> cwd_poison list" where
  "cwd_poison_positions root src =
     map (\<lambda>(n, ctx). \<lparr>poison_at = start_byte n, poison_scope = execution_scope_of n ctx\<rparr>)
       (filter (\<lambda>(n, ctx). changes_cwd src n) (located_walk [(root, [])]))"

definition script_has_cwd_change :: "node \<Rightarrow> string \<Rightarrow> bool" where
  "script_has_cwd_change root src \<longleftrightarrow> cwd_poison_positions root src \<noteq> []"

definition cwd_unpinned_before :: "cwd_poison list \<Rightarrow> nat \<Rightarrow> execution_scope \<Rightarrow> bool" where
  "cwd_unpinned_before positions pos scope =
     list_ex (\<lambda>p. poison_at p < pos \<and> (poison_scope p = scope \<or> scope_contains (poison_scope p) scope)) positions"

section \<open>Invocations\<close>

datatype invocation_word = InvLiteral string | InvUntrusted

record shell_invocation =
  inv_start :: nat
  inv_scope :: execution_scope
  inv_words :: "invocation_word list"
  wrapper_words :: "string list"

definition operand_word :: "string \<Rightarrow> node \<Rightarrow> invocation_word list" where
  "operand_word src child =
     (case (if kind child = ''command_name''
            then (case filter is_named (children child) of [] \<Rightarrow> None | i # _ \<Rightarrow> shell_node_arg i src)
            else shell_node_arg child src) of
        Some (LiteralArg w) \<Rightarrow> [InvLiteral w]
      | Some AmbiguousArg \<Rightarrow> [InvUntrusted]
      | None \<Rightarrow> [])"

fun wrapper_word :: "invocation_word \<Rightarrow> string" where
  "wrapper_word (InvLiteral w) = w"
| "wrapper_word InvUntrusted = [CHR 0x00]"

definition invocation_of :: "string \<Rightarrow> node \<times> surroundings \<Rightarrow> shell_invocation" where
  "invocation_of src nc =
     (case nc of (n, ctx) \<Rightarrow>
        (let words = concat (map (operand_word src) (filter is_named (children n)))
         in \<lparr>inv_start = start_byte n, inv_scope = execution_scope_of n ctx, inv_words = words,
             wrapper_words = map wrapper_word words\<rparr>))"

definition shell_command_invocations :: "node \<Rightarrow> string \<Rightarrow> shell_invocation list" where
  "shell_command_invocations root src =
     sort_key inv_start (map (invocation_of src)
       (filter (\<lambda>(n, ctx). kind n = ''command'') (located_walk [(root, [])])))"

definition literal_words :: "invocation_word list \<Rightarrow> string list" where
  "literal_words ws = concat (map (\<lambda>w. case w of InvLiteral l \<Rightarrow> [l] | InvUntrusted \<Rightarrow> []) ws)"

definition shell_words :: "invocation_word list \<Rightarrow> shell_word list" where
  "shell_words ws = map (\<lambda>w. case w of InvLiteral l \<Rightarrow> ShLiteral l | InvUntrusted \<Rightarrow> ShUntrusted) ws"

text \<open>The words of an invocation without its wrappers, with the flags of the normalisation.\<close>

definition unwrap_invocation_checked :: "shell_invocation \<Rightarrow> invocation_word list \<times> normalized" where
  "unwrap_invocation_checked iv =
     (let norm = normalize_command_words (wrapper_words iv);
          peeled_count = length (wrapper_words iv) - length (norm_words norm)
      in (drop peeled_count (inv_words iv), norm))"

definition words_are_opaque_shell :: "shell_word list \<Rightarrow> bool" where
  "words_are_opaque_shell ws \<longleftrightarrow>
     is_potential_inline (shell_dash_c_script ws) \<or>
     (case ws of ShLiteral program # _ \<Rightarrow> basename program = ''eval'' | _ \<Rightarrow> False)"

definition tree_has_opaque_shell :: "node \<Rightarrow> string \<Rightarrow> bool" where
  "tree_has_opaque_shell root src =
     list_ex (\<lambda>iv. words_are_opaque_shell (shell_words (fst (unwrap_invocation_checked iv))))
       (shell_command_invocations root src)"

section \<open>Redirects\<close>

record shell_redirect_target =
  redirect_path :: "string option"
  redirect_mode :: shell_file_mode
  redirect_ambiguous :: bool
  redirect_start :: nat
  redirect_scope :: execution_scope

fun redirect_operator :: "node list \<Rightarrow> string option" where
  "redirect_operator [] = None"
| "redirect_operator (c # cs) =
     (if contains_str (kind c) ''<<'' then None
      else if CHR ''>'' \<in> set (kind c) \<or> CHR ''<'' \<in> set (kind c) then Some (kind c)
      else redirect_operator cs)"

definition shell_redirect_one :: "node \<Rightarrow> string \<Rightarrow> (string option \<times> shell_file_mode \<times> bool) option" where
  "shell_redirect_one n src =
     (case redirect_operator (children n) of
        None \<Rightarrow> None
      | Some redirect \<Rightarrow>
          (let mode = (if CHR ''>'' \<in> set redirect then MWrite else MRead);
               duplicates_fd = (redirect \<in> {''>&'', ''<&''})
           in case Option.bind (child_by_field_name n ''destination'') (\<lambda>d. shell_node_arg d src) of
                None \<Rightarrow> None
              | Some (LiteralArg s) \<Rightarrow>
                  (if s = [] \<or> starts_with s ''&'' \<or> (duplicates_fd \<and> (s = ''-'' \<or> list_all is_ascii_digit s))
                   then None else Some (Some s, mode, shell_arg_is_ambiguous s))
              | Some AmbiguousArg \<Rightarrow> Some (None, mode, True)))"

definition redirect_of :: "string \<Rightarrow> node \<times> surroundings \<Rightarrow> shell_redirect_target list" where
  "redirect_of src nc =
     (case nc of (n, ctx) \<Rightarrow>
        (if kind n = ''file_redirect'' then
           (case shell_redirect_one n src of
              None \<Rightarrow> []
            | Some (p, mode, ambiguous) \<Rightarrow>
                [\<lparr>redirect_path = p, redirect_mode = mode, redirect_ambiguous = ambiguous,
                  redirect_start = start_byte n, redirect_scope = execution_scope_of n ctx\<rparr>])
         else []))"

definition shell_redirect_targets :: "node \<Rightarrow> string \<Rightarrow> shell_redirect_target list" where
  "shell_redirect_targets root src = concat (map (redirect_of src) (located_walk [(root, [])]))"

section \<open>The gate\<close>

definition escalate_access :: "policy_env \<Rightarrow> compiled_policy \<Rightarrow> string option \<Rightarrow> access_kind \<Rightarrow> gate_decision option" where
  "escalate_access env pol cwd access =
     (case evaluate_lexical_with_cwd env pol access cwd of
        Some (Reject reason) \<Rightarrow> Some (GReject reason)
      | Some DAsk \<Rightarrow> Some AskRuleMatch
      | _ \<Rightarrow> None)"

definition anchored_path :: "string \<Rightarrow> string \<Rightarrow> string" where
  "anchored_path cwd p = (if is_absolute_shell_path p then p else normalize_shell_path (join_path cwd p))"

definition raw_absolute_path :: "string \<Rightarrow> bool \<Rightarrow> string \<Rightarrow> string option" where
  "raw_absolute_path cwd cwd_unpinned token =
     (let raw = normalize_shell_path_raw token
      in if is_absolute_shell_path raw then Some raw
         else if cwd_unpinned then None
         else Some (normalize_shell_path_raw (join_path cwd raw)))"

definition resolved_gate ::
  "policy_env \<Rightarrow> (access_kind \<Rightarrow> gate_decision option) \<Rightarrow> shell_file_mode \<Rightarrow> string \<Rightarrow> string \<Rightarrow> gate_decision option" where
  "resolved_gate env esc mode raw_absolute absolute =
     (case follow_absolute_symlink (links env) raw_absolute absolute of
        Target resolved \<Rightarrow> esc (shell_access mode resolved)
      | Unresolvable \<Rightarrow> Some AskFailClosed
      | NoFollow \<Rightarrow> None)"

definition evaluate_shell_path ::
  "policy_env \<Rightarrow> compiled_policy \<Rightarrow> string \<Rightarrow> bool \<Rightarrow> string \<Rightarrow> shell_file_mode \<Rightarrow> gate_decision option" where
  "evaluate_shell_path env pol cwd cwd_unpinned token mode =
     (let p = normalize_shell_path token;
          absolute = is_absolute_shell_path p;
          esc = escalate_access env pol (if absolute \<or> \<not> cwd_unpinned then Some cwd else None);
          resolved = (case raw_absolute_path cwd cwd_unpinned token of
                        None \<Rightarrow> None
                      | Some ra \<Rightarrow> resolved_gate env esc mode ra (anchored_path cwd p));
          anchored = (if cwd_unpinned \<and> \<not> absolute then None
                      else combine_gate_decisions (esc (shell_access mode (anchored_path cwd p))) resolved)
      in combine_gate_decisions
           (combine_gate_decisions (esc (shell_access mode p)) anchored)
           (fail_closed_if (cwd_unpinned \<and> \<not> absolute)))"

text \<open>The decision so far and whether the command must at least be asked about.\<close>

type_synonym gate_state = "gate_decision option \<times> bool"

definition gate_path ::
  "policy_env \<Rightarrow> compiled_policy \<Rightarrow> string \<Rightarrow> bool \<Rightarrow> string \<times> shell_file_mode \<Rightarrow> gate_state \<Rightarrow> gate_state" where
  "gate_path env pol cwd unpinned pm st =
     (combine_gate_decisions (fst st) (evaluate_shell_path env pol cwd unpinned (fst pm) (snd pm)),
      snd st \<or> shell_arg_is_ambiguous (fst pm))"

definition gate_redirect ::
  "policy_env \<Rightarrow> compiled_policy \<Rightarrow> string \<Rightarrow> bool \<Rightarrow> cwd_poison list \<Rightarrow> shell_redirect_target \<Rightarrow> gate_state \<Rightarrow>
   gate_state" where
  "gate_redirect env pol cwd cwd_unpinned changes r st =
     ((case redirect_path r of
         None \<Rightarrow> fst st
       | Some p \<Rightarrow>
           combine_gate_decisions (fst st)
             (evaluate_shell_path env pol cwd
                (cwd_unpinned \<or> cwd_unpinned_before changes (redirect_start r) (redirect_scope r)) p (redirect_mode r))),
      snd st \<or> redirect_ambiguous r)"

type_synonym script_gate = "string \<Rightarrow> bool \<Rightarrow> gate_decision option"

definition gate_inline ::
  "script_gate option \<Rightarrow> bool \<Rightarrow> bool \<Rightarrow> shell_word list \<Rightarrow> gate_state \<Rightarrow> gate_state" where
  "gate_inline recurse parse_failed unpinned ws st =
     (case shell_dash_c_script ws of
        NotInline \<Rightarrow> st
      | LiteralAt i \<Rightarrow>
          (case recurse of
             None \<Rightarrow> (fst st, True)
           | Some f \<Rightarrow>
               ((case ws ! i of
                   ShLiteral script \<Rightarrow> combine_gate_decisions (fst st) (f script unpinned)
                 | ShUntrusted \<Rightarrow> fst st),
                snd st \<or> parse_failed))
      | _ \<Rightarrow> (fst st, True))"

definition operand_modes :: "string \<Rightarrow> string list \<Rightarrow> shell_file_mode list option" where
  "operand_modes program words =
     (case program_file_mode program of
        Some m \<Rightarrow>
          (if program = ''sed'' \<and> shell_sed_in_place words then Some [MRead, MWrite]
           else (case m of MRead \<Rightarrow> Some [MRead] | MWrite \<Rightarrow> Some [MWrite] | MCreate \<Rightarrow> None))
      | None \<Rightarrow> None)"

definition gate_program ::
  "policy_env \<Rightarrow> compiled_policy \<Rightarrow> string \<Rightarrow> bool \<Rightarrow> bool \<Rightarrow> string \<Rightarrow> invocation_word list \<Rightarrow> gate_state \<Rightarrow> gate_state" where
  "gate_program env pol cwd parse_failed unpinned program words st =
     (if program \<in> set CWD_PROGRAMS then st
      else
        (let lits = literal_words words;
             candidates = shell_file_candidates lits;
             operands = shell_path_command_operands program lits;
             is_known = (program = ''dd'' \<or> program_file_mode program \<noteq> None \<or> operands \<noteq> None);
             st = (fst st, snd st \<or> (is_known \<and> (unpinned \<or> InvUntrusted \<in> set words \<or> parse_failed)));
             st = fold (gate_path env pol cwd unpinned) (special_file_operands program lits) st
         in if program = ''dd'' then st
            else (case operands of
                    Some ops \<Rightarrow> fold (gate_path env pol cwd unpinned) ops st
                  | None \<Rightarrow>
                      (case operand_modes program lits of
                         None \<Rightarrow> st
                       | Some modes \<Rightarrow>
                           (let st = fold (gate_path env pol cwd unpinned)
                                       (concat (map (\<lambda>token. map (Pair token) modes) candidates)) st
                            in (fst st, snd st \<or> shell_reader_can_recurse program lits candidates))))))"

definition gate_invocation ::
  "policy_env \<Rightarrow> compiled_policy \<Rightarrow> string \<Rightarrow> script_gate option \<Rightarrow> bool \<Rightarrow> bool \<Rightarrow> cwd_poison list \<Rightarrow>
   shell_invocation \<Rightarrow> gate_state \<Rightarrow> gate_state" where
  "gate_invocation env pol cwd recurse parse_failed cwd_unpinned changes iv st =
     (case unwrap_invocation_checked iv of (words, norm) \<Rightarrow>
        (let unpinned = (cwd_unpinned \<or> cwd_unpinned_before changes (inv_start iv) (inv_scope iv) \<or> norm_chdir norm);
             st = (fst st, snd st \<or> norm_exhausted norm \<or> norm_split norm \<or> norm_uncertain norm \<or> norm_ambiguous norm);
             st = gate_inline recurse parse_failed unpinned (shell_words words) st
         in case words of
              InvLiteral program # _ \<Rightarrow>
                gate_program env pol cwd parse_failed unpinned (to_ascii_lowercase (basename program)) words st
            | _ \<Rightarrow> st))"

definition shell_file_gate ::
  "policy_env \<Rightarrow> compiled_policy \<Rightarrow> string \<Rightarrow> script_gate option \<Rightarrow> bool \<Rightarrow> script_gate" where
  "shell_file_gate env pol cwd recurse entered_inline cmd cwd_unpinned =
     (case shell_parse env cmd of
        None \<Rightarrow> fail_closed_if entered_inline
      | Some t \<Rightarrow>
          (let root = root_node t; parse_failed = has_error t;
               changes = cwd_poison_positions root cmd;
               st = (None, entered_inline \<and> parse_failed);
               st = fold (gate_redirect env pol cwd cwd_unpinned changes) (shell_redirect_targets root cmd) st;
               st = fold (gate_invocation env pol cwd recurse parse_failed cwd_unpinned changes)
                      (shell_command_invocations root cmd) st
           in combine_gate_decisions (fst st) (fail_closed_if (snd st))))"

primrec inner_shell_file_gate :: "policy_env \<Rightarrow> compiled_policy \<Rightarrow> string \<Rightarrow> nat \<Rightarrow> bool \<Rightarrow> script_gate" where
  "inner_shell_file_gate env pol cwd 0 = shell_file_gate env pol cwd None"
| "inner_shell_file_gate env pol cwd (Suc d) =
     shell_file_gate env pol cwd (Some (inner_shell_file_gate env pol cwd d True))"

definition evaluate_shell_file_access_gate :: "policy_env \<Rightarrow> compiled_policy \<Rightarrow> string \<Rightarrow> string \<Rightarrow> gate_decision option" where
  "evaluate_shell_file_access_gate env pol cmd cwd =
     (if \<not> has_file_restrictions pol then None
      else inner_shell_file_gate env pol cwd MAX_INLINE_SHELL_DEPTH False cmd False)"

definition evaluate_shell_file_access :: "policy_env \<Rightarrow> compiled_policy \<Rightarrow> string \<Rightarrow> string \<Rightarrow> decision option" where
  "evaluate_shell_file_access env pol cmd cwd =
     map_option into_decision (evaluate_shell_file_access_gate env pol cmd cwd)"

section \<open>Paths a command writes\<close>

definition written :: "(string \<times> shell_file_mode) list \<Rightarrow> string list" where
  "written ops = map fst (filter (\<lambda>(p, m). m = MWrite) ops)"

definition command_words_write_paths :: "string list \<Rightarrow> string list" where
  "command_words_write_paths words =
     (let inner = unwrap_wrappers words
      in case inner of
           [] \<Rightarrow> []
         | w # _ \<Rightarrow>
             (let program = to_ascii_lowercase (basename w)
              in written (special_file_operands program inner) @
                 (case shell_path_command_operands program inner of
                    Some ops \<Rightarrow> written ops
                  | None \<Rightarrow>
                      (if program_file_mode program = Some MWrite \<or> (program = ''sed'' \<and> shell_sed_in_place inner)
                       then shell_file_candidates inner else []))))"

definition command_words_creation_paths :: "string list \<Rightarrow> string list" where
  "command_words_creation_paths words =
     (let inner = unwrap_wrappers words
      in case inner of
           [] \<Rightarrow> []
         | w # _ \<Rightarrow>
             (case shell_path_command_operands (to_ascii_lowercase (basename w)) inner of
                None \<Rightarrow> []
              | Some ops \<Rightarrow> map fst (filter (\<lambda>(p, m). m = MCreate) ops)))"

record write_paths_split =
  redirect_paths :: "string list"
  unextracted_write_redirect :: bool
  word_paths :: "string list"
  creation_paths :: "string list"

definition command_write_paths_split :: "node \<Rightarrow> string \<Rightarrow> write_paths_split" where
  "command_write_paths_split root src =
     (let writes = filter (\<lambda>r. redirect_mode r = MWrite) (shell_redirect_targets root src);
          words = map (literal_words \<circ> inv_words) (shell_command_invocations root src)
      in \<lparr>redirect_paths = concat (map (\<lambda>r. case redirect_path r of Some p \<Rightarrow> [p] | None \<Rightarrow> []) writes),
          unextracted_write_redirect = list_ex (\<lambda>r. redirect_path r = None) writes,
          word_paths = concat (map command_words_write_paths words),
          creation_paths = concat (map command_words_creation_paths words)\<rparr>)"

definition command_write_paths_in_tree :: "node \<Rightarrow> string \<Rightarrow> string list" where
  "command_write_paths_in_tree root src =
     (let split = command_write_paths_split root src in redirect_paths split @ word_paths split)"

definition is_safe_write_sink :: "string \<Rightarrow> bool" where
  "is_safe_write_sink p \<longleftrightarrow> p = ''/dev/null'' \<or> p = ''/dev/stdout'' \<or> p = ''/dev/stderr''"

section \<open>Normalised paths\<close>

text \<open>The segments a normalised path may have, the last one first: names, and above them \<open>..\<close> in a relative
  path only.\<close>

definition canonical :: "bool \<Rightarrow> string list \<Rightarrow> bool" where
  "canonical absolute out \<longleftrightarrow>
     (\<exists>ss n. out = ss @ replicate n ''..'' \<and> (absolute \<longrightarrow> n = 0) \<and>
        (\<forall>s\<in>set ss. s \<noteq> [] \<and> s \<noteq> ''.'' \<and> s \<noteq> ''..'' \<and> CHR ''/'' \<notin> set s))"

lemma canonical_seg: "canonical a out \<Longrightarrow> s \<in> set out \<Longrightarrow> s \<noteq> [] \<and> s \<noteq> ''.'' \<and> CHR ''/'' \<notin> set s \<and> (a \<longrightarrow> s \<noteq> ''..'')"
  unfolding canonical_def by (elim exE conjE) (cases "s = ''..''", simp_all, blast)

lemma canonical_step:
  assumes "canonical a out" "CHR ''/'' \<notin> set seg"
  shows "canonical a (segment_step a seg out)"
proof -
  obtain ss n where o: "out = ss @ replicate n ''..''" "a \<longrightarrow> n = 0"
    "\<forall>s\<in>set ss. s \<noteq> [] \<and> s \<noteq> ''.'' \<and> s \<noteq> ''..'' \<and> CHR ''/'' \<notin> set s"
    using assms(1) by (auto simp: canonical_def)
  consider (skip) "seg = [] \<or> seg = ''.''" | (up) "seg = ''..''" | (name) "seg \<noteq> []" "seg \<noteq> ''.''" "seg \<noteq> ''..''" by blast
  then show ?thesis
  proof cases
    case skip
    then show ?thesis using assms(1) by (auto simp: segment_step_def)
  next
    case name
    then show ?thesis unfolding canonical_def
      by (intro exI [of _ "seg # ss"] exI [of _ n]) (use o assms(2) in \<open>auto simp: segment_step_def\<close>)
  next
    case up
    show ?thesis
    proof (cases ss)
      case Nil
      then show ?thesis unfolding canonical_def
        by (intro exI [of _ "[]"] exI [of _ "if a then 0 else Suc n"])
          (use o up in \<open>cases n; auto simp: segment_step_def\<close>)
    next
      case (Cons s ss')
      then show ?thesis unfolding canonical_def
        by (intro exI [of _ ss'] exI [of _ n]) (use o up in \<open>auto simp: segment_step_def\<close>)
    qed
  qed
qed

lemma canonical_fold: "list_all (\<lambda>s. CHR ''/'' \<notin> set s) segs \<Longrightarrow> canonical a out \<Longrightarrow> canonical a (fold (segment_step a) segs out)"
  by (induction segs arbitrary: out) (simp_all add: canonical_step)

lemma fold_ups: "fold (segment_step False) (replicate n ''..'') (replicate m ''..'') = replicate (n + m) ''..''"
proof (induction n arbitrary: m)
  case (Suc n)
  have "segment_step False ''..'' (replicate m ''..'') = replicate (Suc m) ''..''" by (cases m) (simp_all add: segment_step_def)
  with Suc [of "Suc m"] show ?case by simp
qed simp

lemma fold_names:
  "\<forall>s\<in>set ss. s \<noteq> [] \<and> s \<noteq> ''.'' \<and> s \<noteq> ''..'' \<Longrightarrow> fold (segment_step a) ss out = rev ss @ out"
  by (induction ss arbitrary: out) (auto simp: segment_step_def)

lemma fold_canonical:
  assumes "canonical a out"
  shows "fold (segment_step a) (rev out) [] = out"
proof -
  obtain ss n where o: "out = ss @ replicate n ''..''" "a \<longrightarrow> n = 0"
    "\<forall>s\<in>set ss. s \<noteq> [] \<and> s \<noteq> ''.'' \<and> s \<noteq> ''..''"
    using assms by (auto simp: canonical_def)
  have "fold (segment_step a) (replicate n ''..'') [] = replicate n ''..''"
    using o(2) fold_ups [of n 0] by (cases a) simp_all
  with o(1,3) show ?thesis by (simp add: fold_names)
qed

definition normal_segments :: "string \<Rightarrow> string list" where
  "normal_segments rest = fold (segment_step (starts_with rest ''/'')) (split_on CHR ''/'' rest) []"

definition normal_rest :: "string \<Rightarrow> string" where
  "normal_rest rest = (if starts_with rest ''/'' then ''/'' else []) @ join ''/'' (rev (normal_segments rest))"

lemma normal_segments_canonical: "canonical (starts_with rest ''/'') (normal_segments rest)"
  unfolding normal_segments_def by (rule canonical_fold) (auto simp: list_all_iff canonical_def dest: split_on_no_sep)

lemma split_normal_rest:
  "split_on CHR ''/'' (normal_rest rest) =
     (if starts_with rest ''/'' then [[]] else []) @ (if normal_segments rest = [] then [[]] else rev (normal_segments rest))"
proof -
  have "split_on CHR ''/'' (join ''/'' (rev (normal_segments rest))) = rev (normal_segments rest)"
    if "normal_segments rest \<noteq> []"
    using that canonical_seg [OF normal_segments_canonical] by (intro split_on_join) auto
  then show ?thesis by (simp add: normal_rest_def)
qed

lemma normal_rest_absolute: "starts_with (normal_rest rest) ''/'' = starts_with rest ''/''"
proof (cases "starts_with rest ''/''")
  case False
  let ?ws = "rev (normal_segments rest)"
  have ok: "w \<noteq> [] \<and> CHR ''/'' \<notin> set w" if "w \<in> set ?ws" for w
    using that canonical_seg [OF normal_segments_canonical [of rest]] by simp
  have "\<not> starts_with (join ''/'' ?ws) ''/''"
  proof (cases ?ws)
    case (Cons w ws)
    have "w \<noteq> []" "CHR ''/'' \<notin> set w" using ok [of w] unfolding Cons by simp_all
    then show ?thesis unfolding Cons by (cases w; cases ws) simp_all
  qed simp
  with False show ?thesis by (simp add: normal_rest_def)
qed (simp add: normal_rest_def)

lemma normal_rest_stable: "normal_rest (normal_rest rest) = normal_rest rest"
proof -
  have f: "fold (segment_step (starts_with rest ''/'')) (rev (normal_segments rest)) [] = normal_segments rest"
    by (rule fold_canonical [OF normal_segments_canonical])
  have e: "segment_step a [] out = out" for a out by (simp add: segment_step_def)
  have "normal_segments (normal_rest rest) = normal_segments rest"
    by (subst normal_segments_def, cases "starts_with rest ''/''"; cases "normal_segments rest = []")
      (use f in \<open>simp_all only: normal_rest_absolute split_normal_rest if_True if_False append.simps fold.simps
         comp_apply id_apply e simp_thms\<close>)
  then show ?thesis by (simp only: normal_rest_def [of "normal_rest rest"] normal_rest_absolute) (simp only: normal_rest_def)
qed

text \<open>Normalising a path settles it: unless dropping its first segments leaves what looks like a drive, a
  second normalisation changes nothing, and the segments of a normalised absolute path are never empty,
  \<open>.\<close> or \<open>..\<close>, so that a rule on a directory cannot be left by way of its parent.\<close>

theorem lexical_normalize_stable:
  assumes "drive_colon (lexical_normalize p) \<longleftrightarrow> drive_colon p"
  shows "lexical_normalize (lexical_normalize p) = lexical_normalize p \<and>
         (starts_with p ''/'' \<and> \<not> drive_colon p \<longrightarrow>
            (\<exists>ss. lexical_normalize p = ''/'' @ join ''/'' ss \<and>
               (\<forall>s\<in>set ss. s \<noteq> [] \<and> s \<noteq> ''.'' \<and> s \<noteq> ''..'' \<and> CHR ''/'' \<notin> set s)))"
proof
  have n: "lexical_normalize q = (let n = (if drive_colon q then 2 else 0) in take n q @ normal_rest (drop n q))" for q
    by (simp add: lexical_normalize_def normal_rest_def normal_segments_def Let_def)
  show "lexical_normalize (lexical_normalize p) = lexical_normalize p"
  proof (cases "drive_colon p")
    case True
    then have "length (take 2 p) = 2" by (simp add: drive_colon_def)
    with True assms show ?thesis unfolding n [of "lexical_normalize p"]
      by (simp add: n [of p] normal_rest_stable del: length_take)
  next
    case False
    with assms show ?thesis unfolding n [of "lexical_normalize p"] by (simp add: n [of p] normal_rest_stable)
  qed
  show "starts_with p ''/'' \<and> \<not> drive_colon p \<longrightarrow>
            (\<exists>ss. lexical_normalize p = ''/'' @ join ''/'' ss \<and>
               (\<forall>s\<in>set ss. s \<noteq> [] \<and> s \<noteq> ''.'' \<and> s \<noteq> ''..'' \<and> CHR ''/'' \<notin> set s))"
  proof
    assume "starts_with p ''/'' \<and> \<not> drive_colon p"
    then have d: "\<not> drive_colon p" "starts_with p ''/''" by blast+
    then have "lexical_normalize p = ''/'' @ join ''/'' (rev (normal_segments p))" by (simp add: n normal_rest_def)
    moreover have "s \<noteq> [] \<and> s \<noteq> ''.'' \<and> s \<noteq> ''..'' \<and> CHR ''/'' \<notin> set s" if "s \<in> set (rev (normal_segments p))" for s
      using canonical_seg [OF normal_segments_canonical [of p], of s] that d(2) by simp
    ultimately show "\<exists>ss. lexical_normalize p = ''/'' @ join ''/'' ss \<and>
        (\<forall>s\<in>set ss. s \<noteq> [] \<and> s \<noteq> ''.'' \<and> s \<noteq> ''..'' \<and> CHR ''/'' \<notin> set s)" by blast
  qed
qed

theorem lexical_normalize_stable_witness:
  "lexical_normalize (lexical_normalize ''/a/./b/../../../c//d'') = lexical_normalize ''/a/./b/../../../c//d'' \<and>
   lexical_normalize ''/a/./b/../../../c//d'' = ''/c/d''"
proof
  have "drive_colon (lexical_normalize ''/a/./b/../../../c//d'') \<longleftrightarrow> drive_colon ''/a/./b/../../../c//d''" by code_simp
  from lexical_normalize_stable [OF this]
  show "lexical_normalize (lexical_normalize ''/a/./b/../../../c//d'') = lexical_normalize ''/a/./b/../../../c//d''" by (rule conjunct1)
  show "lexical_normalize ''/a/./b/../../../c//d'' = ''/c/d''" by code_simp
qed

section \<open>What a script touches\<close>

text \<open>The operands of a program that name files, in the order of the gate.\<close>

definition file_operands :: "string \<Rightarrow> string list \<Rightarrow> (string \<times> shell_file_mode) list" where
  "file_operands program lits =
     (if program \<in> set CWD_PROGRAMS then []
      else special_file_operands program lits @
        (if program = ''dd'' then []
         else (case shell_path_command_operands program lits of
                 Some ops \<Rightarrow> ops
               | None \<Rightarrow>
                   (case operand_modes program lits of
                      None \<Rightarrow> []
                    | Some modes \<Rightarrow> concat (map (\<lambda>token. map (Pair token) modes) (shell_file_candidates lits))))))"

definition invocation_operands :: "shell_invocation \<Rightarrow> (string \<times> shell_file_mode) list" where
  "invocation_operands iv =
     (case fst (unwrap_invocation_checked iv) of
        InvLiteral program # ws \<Rightarrow>
          file_operands (to_ascii_lowercase (basename program)) (literal_words (InvLiteral program # ws))
      | _ \<Rightarrow> [])"

definition invocation_script :: "shell_invocation \<Rightarrow> string option" where
  "invocation_script iv =
     (let ws = shell_words (fst (unwrap_invocation_checked iv))
      in case shell_dash_c_script ws of
           LiteralAt i \<Rightarrow> (case ws ! i of ShLiteral script \<Rightarrow> Some script | ShUntrusted \<Rightarrow> None)
         | _ \<Rightarrow> None)"

definition invocation_unpinned :: "bool \<Rightarrow> cwd_poison list \<Rightarrow> shell_invocation \<Rightarrow> bool" where
  "invocation_unpinned c changes iv \<longleftrightarrow>
     c \<or> cwd_unpinned_before changes (inv_start iv) (inv_scope iv) \<or> norm_chdir (snd (unwrap_invocation_checked iv))"

text \<open>A script touches a path in some mode at nesting \<open>k\<close>, as a redirect, as an operand, or in an inline
  script; \<open>c\<close> says whether the working directory is unknown at the start, \<open>u\<close> whether it is at the path.\<close>

inductive touches :: "policy_env \<Rightarrow> nat \<Rightarrow> bool \<Rightarrow> string \<Rightarrow> bool \<Rightarrow> string \<Rightarrow> shell_file_mode \<Rightarrow> bool" for env where
  redirect: "shell_parse env cmd = Some t \<Longrightarrow> r \<in> set (shell_redirect_targets (root_node t) cmd) \<Longrightarrow>
     redirect_path r = Some p \<Longrightarrow>
     u = (c \<or> cwd_unpinned_before (cwd_poison_positions (root_node t) cmd) (redirect_start r) (redirect_scope r)) \<Longrightarrow>
     touches env 0 c cmd u p (redirect_mode r)"
| operand: "shell_parse env cmd = Some t \<Longrightarrow> iv \<in> set (shell_command_invocations (root_node t) cmd) \<Longrightarrow>
     (p, m) \<in> set (invocation_operands iv) \<Longrightarrow>
     u = invocation_unpinned c (cwd_poison_positions (root_node t) cmd) iv \<Longrightarrow>
     touches env 0 c cmd u p m"
| inline: "shell_parse env cmd = Some t \<Longrightarrow> iv \<in> set (shell_command_invocations (root_node t) cmd) \<Longrightarrow>
     invocation_script iv = Some script \<Longrightarrow>
     touches env k (invocation_unpinned c (cwd_poison_positions (root_node t) cmd) iv) script u p m \<Longrightarrow>
     touches env (Suc k) c cmd u p m"

inductive_cases touches_0E: "touches env 0 c cmd u p m"
inductive_cases touches_SucE: "touches env (Suc k) c cmd u p m"

text \<open>The names the rules see of a path: as written and, while the working directory is known or the path
  is absolute, anchored there and behind its links.\<close>

definition pinned :: "bool \<Rightarrow> string \<Rightarrow> bool" where
  "pinned u token \<longleftrightarrow> \<not> u \<or> is_absolute_shell_path (normalize_shell_path token)"

definition link_behind :: "policy_env \<Rightarrow> string \<Rightarrow> bool \<Rightarrow> string \<Rightarrow> symlink_follow" where
  "link_behind env cwd u token =
     (case raw_absolute_path cwd u token of
        Some ra \<Rightarrow> (if pinned u token
                    then follow_absolute_symlink (links env) ra (anchored_path cwd (normalize_shell_path token))
                    else NoFollow)
      | None \<Rightarrow> NoFollow)"

definition named :: "policy_env \<Rightarrow> string \<Rightarrow> bool \<Rightarrow> string \<Rightarrow> string \<Rightarrow> bool" where
  "named env cwd u token q \<longleftrightarrow>
     q = normalize_shell_path token \<or>
     pinned u token \<and> q = anchored_path cwd (normalize_shell_path token) \<or>
     link_behind env cwd u token = Target q"

definition rule_cwd :: "string \<Rightarrow> bool \<Rightarrow> string \<Rightarrow> string option" where
  "rule_cwd cwd u token = (if pinned u token then Some cwd else None)"

lemma escalate_access_deny:
  "cg.at_least 3 (escalate_access env (session_policy env cfg s) cwd access) \<longleftrightarrow>
     (\<exists>r\<in>set (rules cfg @ s). action r = Deny \<and> hit env access cwd r)"
proof (cases "\<exists>r\<in>set (rules cfg @ s). hit env access cwd r \<and> action r = Deny")
  case True
  from rules_loop_deny [OF True, of False False] True show ?thesis
    unfolding escalate_access_def evaluate_lexical_with_cwd_def session_policy_sel zip_compiled
    by (auto simp: cg.at_least_def)
next
  case False
  then show ?thesis
    unfolding escalate_access_def evaluate_lexical_with_cwd_def session_policy_sel zip_compiled
      rules_loop_pass [OF False]
    by (auto simp: cg.at_least_def split: access_kind.split)
qed

lemma at_least_plain: "\<not> cg.at_least n None" "cg.at_least n (Some AskFailClosed) \<longleftrightarrow> n \<le> 1"
  by (simp_all add: cg.at_least_def)

lemma at_least_fail_closed_if: "cg.at_least n (fail_closed_if b) \<longleftrightarrow> b \<and> n \<le> 1"
  by (auto simp: fail_closed_if_def cg.at_least_def)

lemma shell_path_at_least:
  "cg.at_least n (evaluate_shell_path env pol cwd u token m) \<longleftrightarrow>
     (\<exists>q. named env cwd u token q \<and>
          cg.at_least n (escalate_access env pol (rule_cwd cwd u token) (shell_access m q))) \<or>
     n \<le> 1 \<and> (\<not> pinned u token \<or> link_behind env cwd u token = Unresolvable)"
proof -
  have rc: "(if is_absolute_shell_path (normalize_shell_path token) \<or> \<not> u then Some cwd else None) = rule_cwd cwd u token"
    by (auto simp: rule_cwd_def pinned_def)
  have pn: "u \<and> \<not> is_absolute_shell_path (normalize_shell_path token) \<longleftrightarrow> \<not> pinned u token"
    by (auto simp: pinned_def)
  show ?thesis
    unfolding evaluate_shell_path_def Let_def rc pn
    by (cases "pinned u token"; cases "raw_absolute_path cwd u token";
        cases "link_behind env cwd u token")
      (auto simp: cg.at_least_combine at_least_fail_closed_if named_def link_behind_def resolved_gate_def at_least_plain)
qed

section \<open>What the gate does with it\<close>

lemma fold_iff:
  assumes "\<And>x st. P (f x st) \<longleftrightarrow> P st \<or> Q x"
  shows "P (fold f xs st) \<longleftrightarrow> P st \<or> (\<exists>x\<in>set xs. Q x)"
  by (induction xs arbitrary: st) (auto simp: assms)

lemma fold_keeps:
  assumes "\<And>x st. P st \<or> Q x \<Longrightarrow> P (f x st)" "P st \<or> (\<exists>x\<in>set xs. Q x)"
  shows "P (fold f xs st)"
  using assms(2) by (induction xs arbitrary: st) (auto intro: assms(1))

abbreviation raised :: "nat \<Rightarrow> gate_state \<Rightarrow> bool" where
  "raised n st \<equiv> cg.at_least n (fst st)"

lemma paths_raised:
  "raised n (fold (gate_path env pol cwd u) ops st) \<longleftrightarrow>
     raised n st \<or> (\<exists>p m. (p, m) \<in> set ops \<and> cg.at_least n (evaluate_shell_path env pol cwd u p m))"
proof -
  have "raised n (fold (gate_path env pol cwd u) ops st) \<longleftrightarrow>
      raised n st \<or> (\<exists>pm\<in>set ops. case pm of (p, m) \<Rightarrow> cg.at_least n (evaluate_shell_path env pol cwd u p m))"
    by (rule fold_iff) (simp add: gate_path_def cg.at_least_combine case_prod_beta)
  then show ?thesis by auto
qed

lemma paths_forced:
  "snd (fold (gate_path env pol cwd u) ops st) \<longleftrightarrow>
     snd st \<or> (\<exists>pm\<in>set ops. shell_arg_is_ambiguous (fst pm))"
  by (rule fold_iff) (simp add: gate_path_def)

lemma program_folds:
  "\<exists>b b'. gate_program env pol cwd parse_failed u program words st =
     (let s = fold (gate_path env pol cwd u) (file_operands program (literal_words words)) (fst st, snd st \<or> b)
      in (fst s, snd s \<or> b'))"
proof -
  let ?lits = "literal_words words"
  let ?ops = "shell_path_command_operands program ?lits" and ?modes = "operand_modes program ?lits"
  let ?b = "program \<notin> set CWD_PROGRAMS \<and>
    (program = ''dd'' \<or> program_file_mode program \<noteq> None \<or> ?ops \<noteq> None) \<and> (u \<or> InvUntrusted \<in> set words \<or> parse_failed)"
  let ?b' = "program \<notin> set CWD_PROGRAMS \<and> program \<noteq> ''dd'' \<and> ?ops = None \<and> ?modes \<noteq> None \<and>
    shell_reader_can_recurse program ?lits (shell_file_candidates ?lits)"
  show ?thesis
    by (rule exI [of _ ?b], rule exI [of _ ?b'], cases ?ops; cases ?modes)
      (simp_all add: gate_program_def file_operands_def Let_def)
qed

lemma program_raised:
  "raised n (gate_program env pol cwd parse_failed u program words st) \<longleftrightarrow>
     raised n st \<or> (\<exists>p m. (p, m) \<in> set (file_operands program (literal_words words)) \<and>
                      cg.at_least n (evaluate_shell_path env pol cwd u p m))"
  using program_folds [of env pol cwd parse_failed u program words st] by (elim exE) (simp add: Let_def paths_raised)

lemma program_forced:
  "snd st \<or> (\<exists>pm\<in>set (file_operands program (literal_words words)). shell_arg_is_ambiguous (fst pm)) \<Longrightarrow>
   snd (gate_program env pol cwd parse_failed u program words st)"
  using program_folds [of env pol cwd parse_failed u program words st]
  by (elim exE) (simp only: Let_def fst_conv snd_conv paths_forced, blast)

definition invocation_raises ::
  "policy_env \<Rightarrow> compiled_policy \<Rightarrow> string \<Rightarrow> script_gate option \<Rightarrow> bool \<Rightarrow> nat \<Rightarrow> shell_invocation \<Rightarrow> bool" where
  "invocation_raises env pol cwd recurse u n iv \<longleftrightarrow>
     (\<exists>p m. (p, m) \<in> set (invocation_operands iv) \<and> cg.at_least n (evaluate_shell_path env pol cwd u p m)) \<or>
     (\<exists>script f. invocation_script iv = Some script \<and> recurse = Some f \<and> cg.at_least n (f script u))"

lemma inline_raised:
  "raised n (gate_inline recurse parse_failed u (shell_words (fst (unwrap_invocation_checked iv))) st) \<longleftrightarrow>
     raised n st \<or> (\<exists>script f. invocation_script iv = Some script \<and> recurse = Some f \<and> cg.at_least n (f script u))"
  by (cases recurse)
    (auto simp: gate_inline_def invocation_script_def Let_def cg.at_least_combine
      split: inline_shell_script.split shell_word.split)

lemma inline_forced:
  "snd st \<or> (invocation_script iv \<noteq> None \<and> recurse = None) \<Longrightarrow>
   snd (gate_inline recurse parse_failed u (shell_words (fst (unwrap_invocation_checked iv))) st)"
  by (cases recurse)
    (auto simp: gate_inline_def invocation_script_def Let_def
      split: inline_shell_script.splits shell_word.splits)

lemma invocation_raised:
  "raised n (gate_invocation env pol cwd recurse parse_failed c changes iv st) \<longleftrightarrow>
     raised n st \<or> invocation_raises env pol cwd recurse (invocation_unpinned c changes iv) n iv"
proof -
  obtain words norm where un: "unwrap_invocation_checked iv = (words, norm)" by (cases "unwrap_invocation_checked iv")
  show ?thesis
    using inline_raised [of n recurse parse_failed _ iv]
    by (cases words rule: list.exhaust; cases "hd words")
      (auto simp: gate_invocation_def un Let_def invocation_unpinned_def invocation_raises_def
        invocation_operands_def program_raised)
qed

lemma invocation_forced:
  assumes "snd st \<or> (\<exists>pm\<in>set (invocation_operands iv). shell_arg_is_ambiguous (fst pm)) \<or>
           (invocation_script iv \<noteq> None \<and> recurse = None)"
  shows "snd (gate_invocation env pol cwd recurse parse_failed c changes iv st)"
proof -
  obtain words norm where un: "unwrap_invocation_checked iv = (words, norm)" by (cases "unwrap_invocation_checked iv")
  note forced = inline_forced [of _ iv recurse, unfolded un fst_conv]
  show ?thesis
  proof (cases "\<exists>program ws. words = InvLiteral program # ws")
    case True
    then obtain program ws where w: "words = InvLiteral program # ws" by blast
    have "snd (gate_program env pol cwd parse_failed u (to_ascii_lowercase (basename program)) words
        (gate_inline recurse parse_failed u (shell_words words) (fst st, snd st \<or> x)))" for u x
      using assms forced [of "(fst st, snd st \<or> x)" parse_failed u]
      by (intro program_forced) (simp only: invocation_operands_def un w fst_conv snd_conv list.case invocation_word.case, blast)
    then show ?thesis by (simp add: gate_invocation_def un w Let_def)
  next
    case False
    then have "invocation_operands iv = []"
      by (cases words rule: list.exhaust; cases "hd words") (simp_all add: invocation_operands_def un)
    with assms have "snd (gate_inline recurse parse_failed u (shell_words words) (fst st, snd st \<or> x))" for u x
      by (intro forced) auto
    with False show ?thesis
      by (cases words rule: list.exhaust; cases "hd words") (simp_all add: gate_invocation_def un Let_def)
  qed
qed

definition redirect_unpinned :: "bool \<Rightarrow> cwd_poison list \<Rightarrow> shell_redirect_target \<Rightarrow> bool" where
  "redirect_unpinned c changes r \<longleftrightarrow> c \<or> cwd_unpinned_before changes (redirect_start r) (redirect_scope r)"

lemma redirect_raised:
  "raised n (gate_redirect env pol cwd c changes r st) \<longleftrightarrow>
     raised n st \<or> (\<exists>p. redirect_path r = Some p \<and>
       cg.at_least n (evaluate_shell_path env pol cwd (redirect_unpinned c changes r) p (redirect_mode r)))"
  by (auto simp: gate_redirect_def redirect_unpinned_def cg.at_least_combine split: option.split)

lemma redirect_forced: "snd st \<or> redirect_ambiguous r \<Longrightarrow> snd (gate_redirect env pol cwd c changes r st)"
  by (auto simp: gate_redirect_def)

text \<open>What one level raises above a fail-closed question is raised by one of its paths or inline scripts.\<close>

definition script_raises ::
  "policy_env \<Rightarrow> compiled_policy \<Rightarrow> string \<Rightarrow> script_gate option \<Rightarrow> string \<Rightarrow> bool \<Rightarrow> nat \<Rightarrow> bool" where
  "script_raises env pol cwd recurse cmd c n \<longleftrightarrow>
     (\<exists>t. shell_parse env cmd = Some t \<and>
        (let changes = cwd_poison_positions (root_node t) cmd
         in (\<exists>r\<in>set (shell_redirect_targets (root_node t) cmd). \<exists>p. redirect_path r = Some p \<and>
               cg.at_least n (evaluate_shell_path env pol cwd (redirect_unpinned c changes r) p (redirect_mode r))) \<or>
            (\<exists>iv\<in>set (shell_command_invocations (root_node t) cmd).
               invocation_raises env pol cwd recurse (invocation_unpinned c changes iv) n iv)))"

lemma folds_raised:
  "raised n (fold (gate_invocation env pol cwd recurse parse_failed c changes) ivs
     (fold (gate_redirect env pol cwd c changes) rs (None, b))) \<longleftrightarrow>
   (\<exists>r\<in>set rs. \<exists>p. redirect_path r = Some p \<and>
      cg.at_least n (evaluate_shell_path env pol cwd (redirect_unpinned c changes r) p (redirect_mode r))) \<or>
   (\<exists>iv\<in>set ivs. invocation_raises env pol cwd recurse (invocation_unpinned c changes iv) n iv)"
  by (subst fold_iff [where P = "raised n", OF invocation_raised],
      subst fold_iff [where P = "raised n", OF redirect_raised]) (simp add: at_least_plain)

lemma file_gate_raised:
  assumes "script_raises env pol cwd recurse cmd c n"
  shows "cg.at_least n (shell_file_gate env pol cwd recurse e cmd c)"
proof -
  obtain t where t: "shell_parse env cmd = Some t" using assms by (auto simp: script_raises_def)
  show ?thesis using assms unfolding script_raises_def shell_file_gate_def t
    by (simp add: Let_def cg.at_least_combine folds_raised)
qed

lemma file_gate_raised_iff:
  assumes "2 \<le> n"
  shows "cg.at_least n (shell_file_gate env pol cwd recurse e cmd c) \<longleftrightarrow> script_raises env pol cwd recurse cmd c n"
proof (cases "shell_parse env cmd")
  case None
  with assms show ?thesis by (simp add: shell_file_gate_def script_raises_def at_least_fail_closed_if)
next
  case (Some t)
  with assms show ?thesis
    by (simp add: shell_file_gate_def script_raises_def Let_def cg.at_least_combine folds_raised at_least_fail_closed_if)
qed

lemma file_gate_forced:
  assumes "shell_parse env cmd = Some t"
    and "(\<exists>r\<in>set (shell_redirect_targets (root_node t) cmd). redirect_ambiguous r) \<or>
         (\<exists>iv\<in>set (shell_command_invocations (root_node t) cmd).
            (\<exists>pm\<in>set (invocation_operands iv). shell_arg_is_ambiguous (fst pm)) \<or>
            (invocation_script iv \<noteq> None \<and> recurse = None))"
  shows "cg.at_least 1 (shell_file_gate env pol cwd recurse e cmd c)"
proof -
  define changes where "changes = cwd_poison_positions (root_node t) cmd"
  define st where "st = fold (gate_redirect env pol cwd c changes) (shell_redirect_targets (root_node t) cmd)
    (None, e \<and> has_error t)"
  have "snd (fold (gate_invocation env pol cwd recurse (has_error t) c changes)
      (shell_command_invocations (root_node t) cmd) st)"
  proof (rule fold_keeps [where P = snd, OF invocation_forced])
    have "snd st" if "\<exists>r\<in>set (shell_redirect_targets (root_node t) cmd). redirect_ambiguous r"
      unfolding st_def using that by (intro fold_keeps [where P = snd, OF redirect_forced]) auto
    with assms(2) show "snd st \<or> (\<exists>iv\<in>set (shell_command_invocations (root_node t) cmd).
        (\<exists>pm\<in>set (invocation_operands iv). shell_arg_is_ambiguous (fst pm)) \<or>
        (invocation_script iv \<noteq> None \<and> recurse = None))" by blast
  qed
  then show ?thesis
    by (simp add: shell_file_gate_def assms(1) Let_def cg.at_least_combine at_least_fail_closed_if
        changes_def st_def)
qed

abbreviation next_script_gate :: "policy_env \<Rightarrow> compiled_policy \<Rightarrow> string \<Rightarrow> nat \<Rightarrow> script_gate option" where
  "next_script_gate env pol cwd d \<equiv>
     (case d of 0 \<Rightarrow> None | Suc e \<Rightarrow> Some (inner_shell_file_gate env pol cwd e True))"

lemma inner_level: "inner_shell_file_gate env pol cwd d = shell_file_gate env pol cwd (next_script_gate env pol cwd d)"
  by (cases d) simp_all

abbreviation raising_touch :: "policy_env \<Rightarrow> compiled_policy \<Rightarrow> string \<Rightarrow> nat \<Rightarrow> nat \<Rightarrow> bool \<Rightarrow> string \<Rightarrow> bool" where
  "raising_touch env pol cwd n k c cmd \<equiv>
     (\<exists>u p m. touches env k c cmd u p m \<and> cg.at_least n (evaluate_shell_path env pol cwd u p m))"

lemma touch_raises_here:
  "raising_touch env pol cwd n 0 c cmd \<longleftrightarrow> script_raises env pol cwd None cmd c n"
  by (auto simp: script_raises_def invocation_raises_def Let_def redirect_unpinned_def
      elim!: touches_0E intro: touches.redirect touches.operand)

lemma touch_raises_inside:
  "script_raises env pol cwd (Some f) cmd c n \<longleftrightarrow>
     raising_touch env pol cwd n 0 c cmd \<or>
     (\<exists>t iv script. shell_parse env cmd = Some t \<and> iv \<in> set (shell_command_invocations (root_node t) cmd) \<and>
        invocation_script iv = Some script \<and>
        cg.at_least n (f script (invocation_unpinned c (cwd_poison_positions (root_node t) cmd) iv)))"
  unfolding touch_raises_here by (auto simp: script_raises_def invocation_raises_def Let_def)

lemma touch_nested:
  "raising_touch env pol cwd n (Suc k) c cmd \<longleftrightarrow>
     (\<exists>t iv script. shell_parse env cmd = Some t \<and> iv \<in> set (shell_command_invocations (root_node t) cmd) \<and>
        invocation_script iv = Some script \<and>
        raising_touch env pol cwd n k (invocation_unpinned c (cwd_poison_positions (root_node t) cmd) iv) script)"
  by (blast elim: touches_SucE intro: touches.inline)

lemma gate_raises_exactly:
  assumes "2 \<le> n"
  shows "cg.at_least n (inner_shell_file_gate env pol cwd d e cmd c) \<longleftrightarrow>
         (\<exists>k\<le>d. raising_touch env pol cwd n k c cmd)"
proof (induction d arbitrary: e cmd c)
  case 0
  then show ?case by (simp add: file_gate_raised_iff [OF assms] touch_raises_here)
next
  case (Suc d)
  have "(\<exists>k\<le>Suc d. raising_touch env pol cwd n k c cmd) \<longleftrightarrow>
      raising_touch env pol cwd n 0 c cmd \<or> (\<exists>k\<le>d. raising_touch env pol cwd n (Suc k) c cmd)"
    by (metis Suc_le_mono le0 not0_implies_Suc)
  then show ?case
    unfolding inner_shell_file_gate.simps file_gate_raised_iff [OF assms] touch_raises_inside Suc.IH touch_nested
    by blast
qed

lemma redirect_one_ambiguous:
  "shell_redirect_one n src = Some (Some p, mode, a) \<Longrightarrow> a = shell_arg_is_ambiguous p"
  by (cases "redirect_operator (children n)";
      cases "Option.bind (child_by_field_name n ''destination'') (\<lambda>d. shell_node_arg d src)";
      cases "the (Option.bind (child_by_field_name n ''destination'') (\<lambda>d. shell_node_arg d src))")
    (auto simp: shell_redirect_one_def Let_def split: if_splits)

lemma redirect_of_in:
  assumes "r \<in> set (redirect_of src (n, ctx))"
  shows "shell_redirect_one n src = Some (redirect_path r, redirect_mode r, redirect_ambiguous r)"
proof (cases "kind n = ''file_redirect''")
  case True
  with assms show ?thesis by (cases "shell_redirect_one n src") (simp_all add: redirect_of_def case_prod_beta)
next
  case False
  with assms show ?thesis by (simp add: redirect_of_def)
qed

lemma redirect_ambiguous_iff:
  assumes "r \<in> set (shell_redirect_targets root src)" "redirect_path r = Some p"
  shows "redirect_ambiguous r \<longleftrightarrow> shell_arg_is_ambiguous p"
proof -
  obtain n ctx where "r \<in> set (redirect_of src (n, ctx))" using assms(1) by (auto simp: shell_redirect_targets_def)
  from redirect_of_in [OF this] assms(2) show ?thesis using redirect_one_ambiguous by simp
qed

lemma touch_raises:
  "raising_touch env pol cwd n 0 c cmd \<Longrightarrow> script_raises env pol cwd recurse cmd c n"
  unfolding touch_raises_here by (cases recurse) (simp, simp add: touch_raises_inside touch_raises_here)

lemma touch_forced:
  assumes "touches env 0 c cmd u p m" "shell_arg_is_ambiguous p"
  shows "cg.at_least 1 (shell_file_gate env pol cwd recurse e cmd c)"
  using assms(1)
proof cases
  case (redirect t r)
  then have "redirect_ambiguous r" using assms(2) redirect_ambiguous_iff by blast
  with redirect show ?thesis by (intro file_gate_forced) blast+
next
  case (operand t iv)
  then have "\<exists>pm\<in>set (invocation_operands iv). shell_arg_is_ambiguous (fst pm)" using assms(2) by force
  with operand show ?thesis by (intro file_gate_forced) blast+
qed

text \<open>A path that cannot be pinned down, or an inline script past the last level, at least asks.\<close>

lemma gate_asks:
  assumes "touches env k c cmd u p m"
    and "d < k \<or> cg.at_least 1 (evaluate_shell_path env pol cwd u p m) \<or> shell_arg_is_ambiguous p"
  shows "cg.at_least 1 (inner_shell_file_gate env pol cwd d e cmd c)"
  using assms
proof (induction k arbitrary: d e c cmd)
  case 0
  then have "raising_touch env pol cwd 1 0 c cmd \<or> shell_arg_is_ambiguous p" by blast
  then show ?case
    by (subst inner_level) (use touch_forced [OF "0.prems"(1)] in \<open>blast intro: file_gate_raised touch_raises\<close>)
next
  case (Suc k)
  from Suc.prems(1) show ?case
  proof cases
    case (inline t iv script)
    show ?thesis
    proof (cases d)
      case 0
      with inline have "invocation_script iv \<noteq> None \<and> next_script_gate env pol cwd d = None" by simp
      with inline show ?thesis by (subst inner_level) (rule file_gate_forced, blast+)
    next
      case (Suc d')
      with inline Suc.IH [of _ script d' True] Suc.prems(2)
      have "script_raises env pol cwd (next_script_gate env pol cwd d) cmd c 1"
        by (auto simp: touch_raises_inside)
      then show ?thesis by (subst inner_level) (rule file_gate_raised)
    qed
  qed
qed

lemma session_file_restrictions [simp]:
  "has_file_restrictions (session_policy env cfg s) = file_restrictions (rules cfg @ s)"
  by (simp add: session_policy_def policy_new_def)

lemma shell_access_filter:
  "tool_filter_matches (shell_access m q) f \<Longrightarrow> f \<in> {FRead, FEdit, FAny}"
  by (cases m; cases f) (simp_all add: shell_access_def tool_filter_matches_def)

lemma deny_restricts_files:
  "r \<in> set rs \<Longrightarrow> action r = Deny \<Longrightarrow> hit env (shell_access m q) cwd r \<Longrightarrow> file_restrictions rs"
  unfolding file_restrictions_def list_ex_iff hit_def restrictive_def using shell_access_filter by blast

lemma path_denied:
  "cg.at_least 3 (evaluate_shell_path env (session_policy env cfg s) cwd u p m) \<longleftrightarrow>
     (\<exists>q. named env cwd u p q \<and>
        (\<exists>r\<in>set (rules cfg @ s). action r = Deny \<and> hit env (shell_access m q) (rule_cwd cwd u p) r))"
  by (simp only: shell_path_at_least escalate_access_deny) simp

text \<open>C10: The file gate rejects exactly the scripts that touch a denied file. A shell command is rejected if
  and only if some redirect, operand or inline script of it, at most eight scripts deep, reads or writes a
  path that a deny rule applies to, by the path as written, anchored at the working directory, or behind
  its symbolic links.\<close>

theorem denied_file_rejected:
  assumes "session_run env cfg pol"
  shows "(\<exists>reason. evaluate_shell_file_access env pol cmd cwd = Some (Reject reason)) \<longleftrightarrow>
         (\<exists>k u p m q. k \<le> MAX_INLINE_SHELL_DEPTH \<and> touches env k False cmd u p m \<and> named env cwd u p q \<and>
            (\<exists>r\<in>set (rules (config pol)). action r = Deny \<and> hit env (shell_access m q) (rule_cwd cwd u p) r))"
proof -
  obtain s where s: "pol = session_policy env cfg s" using session_run_form assms by blast
  have "(\<exists>reason. map_option into_decision g = Some (Reject reason)) \<longleftrightarrow> cg.at_least 3 g" for g
    by (cases g rule: option.exhaust; cases "the g") (auto simp: cg.at_least_def)
  then have "(\<exists>reason. evaluate_shell_file_access env pol cmd cwd = Some (Reject reason)) \<longleftrightarrow>
      file_restrictions (rules cfg @ s) \<and>
      cg.at_least 3 (inner_shell_file_gate env pol cwd MAX_INLINE_SHELL_DEPTH False cmd False)"
    unfolding s by (simp add: evaluate_shell_file_access_def evaluate_shell_file_access_gate_def at_least_plain)
  also have "\<dots> \<longleftrightarrow> (\<exists>k\<le>MAX_INLINE_SHELL_DEPTH. raising_touch env pol cwd 3 k False cmd)"
    unfolding s gate_raises_exactly [of 3, simplified]
    using deny_restricts_files [of _ "rules cfg @ s" env _ _ "rule_cwd cwd _ _"] by (simp add: path_denied) blast
  finally show ?thesis
    unfolding s by (simp add: path_denied)
qed


section \<open>Example scripts\<close>

definition command_node :: "nat \<Rightarrow> nat \<Rightarrow> (nat \<times> nat) list \<Rightarrow> node" where
  "command_node a b args =
     Node ''command'' True [] a (snd (last ((a, b) # args)))
       (Node ''command_name'' True ''name'' a b [word_node a b] # map (\<lambda>(s, e). word_node s e) args)"

definition cat_tree :: tree where
  "cat_tree = \<lparr>root_node = Node ''program'' True [] 0 5 [command_node 0 3 [(4, 5)]], has_error = False\<rparr>"

definition cd_tree :: "nat \<Rightarrow> (nat \<times> nat) list \<Rightarrow> tree" where
  "cd_tree n args =
     \<lparr>root_node = Node ''program'' True [] 0 (n + 18)
        [(case args of [] \<Rightarrow> command_node 0 2 [(3, 7)] | _ \<Rightarrow> command_node 0 7 args),
         Node '';'' False [] (n + 7) (n + 8) [], command_node (n + 8) (n + 11) [(n + 12, n + 18)]],
      has_error = False\<rparr>"

definition cd_script :: string where
  "cd_script = ''cd /etc;cat shadow''"

definition disguised_script :: string where
  "disguised_script = ''command cd /etc;cat shadow''"

definition shadow_config :: permission_config where
  "shadow_config = config_new [rule_on Deny FRead ''/etc/shadow'', rule_on Deny FRead ''/w/x'']"

definition file_env :: policy_env where
  "file_env = example_env\<lparr>shell_parse := (\<lambda>s.
     if s = ''cat x'' then Some cat_tree
     else if s = cd_script then Some (cd_tree 0 [])
     else if s = disguised_script then Some (cd_tree 8 [(8, 10), (11, 15)])
     else None)\<rparr>"

theorem denied_file_rejected_witness:
  "\<exists>reason. evaluate_shell_file_access file_env (policy_new file_env shadow_config) ''cat x'' ''/w''
     = Some (Reject reason)"
proof -
  let ?iv = "\<lparr>inv_start = 0, inv_scope = \<lparr>scope_start = 0, scope_end = 2 ^ 64 - 1\<rparr>,
    inv_words = [InvLiteral ''cat'', InvLiteral ''x''], wrapper_words = [''cat'', ''x'']\<rparr>"
  let ?r = "rule_on Deny FRead ''/w/x''"
  have p: "shell_parse file_env ''cat x'' = Some cat_tree" by code_simp
  have i: "?iv \<in> set (shell_command_invocations (root_node cat_tree) ''cat x'')" by code_simp
  have o: "(''x'', MRead) \<in> set (invocation_operands ?iv)" by code_simp
  have u: "False = invocation_unpinned False (cwd_poison_positions (root_node cat_tree) ''cat x'') ?iv" by code_simp
  have t: "touches file_env 0 False ''cat x'' False ''x'' MRead" by (rule touches.operand [OF p i o u])
  have n: "named file_env ''/w'' False ''x'' ''/w/x''" by code_simp
  have h: "hit file_env (shell_access MRead ''/w/x'') (rule_cwd ''/w'' False ''x'') ?r" by code_simp
  have r: "?r \<in> set (rules (config (policy_new file_env shadow_config)))" "action ?r = Deny"
    by (simp_all add: policy_new_def shadow_config_def config_new_def rule_on_def)
  have "\<exists>k u p m q. k \<le> MAX_INLINE_SHELL_DEPTH \<and> touches file_env k False ''cat x'' u p m \<and>
      named file_env ''/w'' u p q \<and>
      (\<exists>r\<in>set (rules (config (policy_new file_env shadow_config))). action r = Deny \<and>
         hit file_env (shell_access m q) (rule_cwd ''/w'' u p) r)"
    using t n h r by (intro exI [of _ 0] exI conjI bexI) (assumption | simp)+
  then show ?thesis using denied_file_rejected [OF session_run.start] by blast
qed


text \<open>In a directory where \<open>shadow\<close> is a plain file, reading it is not restricted.\<close>

lemma shadow_unmatched:
  assumes "\<And>p m b t. p \<in> {''/etc/shadow'', ''/w/x''} \<Longrightarrow> glob_new env p = Some m \<Longrightarrow> m b t \<Longrightarrow> t = p"
    and "list_all (\<lambda>f. f \<notin> {''/etc/shadow'', ''/w/x''}) (path_match_forms q (Some ''/w''))"
  shows "\<not> cg.at_least 0 (escalate_access env (policy_new env shadow_config) (Some ''/w'') (Read (Some q)))"
proof -
  have "\<not> pattern_matches env (Read (Some q)) (rule_on Deny FRead p) (compile_matcher env (rule_on Deny FRead p)) (Some ''/w'')"
    if "p \<in> {''/etc/shadow'', ''/w/x''}" for p
    using assms(1) [OF that] that assms(2)
    by (auto simp: pattern_matches_def path_context_matches_def glob_matches_def compile_matcher_def rule_on_def
        list_ex_iff list_all_iff split: option.splits)
  then have "evaluate_lexical_with_cwd env (policy_new env shadow_config) (Read (Some q)) (Some ''/w'') = None"
    by (simp add: evaluate_lexical_with_cwd_def policy_new_def shadow_config_def config_new_def)
  then show ?thesis by (simp add: escalate_access_def at_least_plain)
qed

lemma shadow_quiet:
  assumes "\<And>p m b t. p \<in> {''/etc/shadow'', ''/w/x''} \<Longrightarrow> glob_new env p = Some m \<Longrightarrow> m b t \<Longrightarrow> t = p"
    and "follow_absolute_symlink (links env) ''/w/shadow'' ''/w/shadow'' = NoFollow"
  shows "gate_path env (policy_new env shadow_config) ''/w'' False (''shadow'', MRead) st = st"
proof -
  have f: "list_all (\<lambda>f. f \<notin> {''/etc/shadow'', ''/w/x''}) (path_match_forms ''shadow'' (Some ''/w''))"
    "list_all (\<lambda>f. f \<notin> {''/etc/shadow'', ''/w/x''}) (path_match_forms ''/w/shadow'' (Some ''/w''))" by code_simp+
  have n: "normalize_shell_path ''shadow'' = ''shadow''" "anchored_path ''/w'' ''shadow'' = ''/w/shadow''"
    "raw_absolute_path ''/w'' False ''shadow'' = Some ''/w/shadow''" "pinned False ''shadow''"
    "\<not> shell_arg_is_ambiguous ''shadow''" by code_simp+
  have "\<not> cg.at_least 0 (evaluate_shell_path env (policy_new env shadow_config) ''/w'' False ''shadow'' MRead)"
    using shadow_unmatched [OF assms(1) f(1)] shadow_unmatched [OF assms(1) f(2)] n assms(2)
    by (auto simp: shell_path_at_least named_def rule_cwd_def shell_access_def link_behind_def)
  then have "evaluate_shell_path env (policy_new env shadow_config) ''/w'' False ''shadow'' MRead = None"
    by (auto simp: cg.at_least_def)
  with n(5) show ?thesis by (simp add: gate_path_def cg.combine_none)
qed

abbreviation unflagged :: "string list \<Rightarrow> invocation_word list \<times> normalized" where
  "unflagged ws \<equiv> (map InvLiteral ws, \<lparr>norm_words = ws, norm_chdir = False, norm_split = False,
     norm_uncertain = False, norm_exhausted = False, norm_ambiguous = False\<rparr>)"

lemma cd_quiet:
  assumes "unwrap_invocation_checked iv = unflagged [''cd'', ''/etc'']"
  shows "gate_invocation env pol ''/w'' recurse False False [] iv st = st"
proof -
  have "''cd'' \<in> set CWD_PROGRAMS" "to_ascii_lowercase (basename ''cd'') = ''cd''"
    "shell_dash_c_script (shell_words [InvLiteral ''cd'', InvLiteral ''/etc'']) = NotInline" by code_simp+
  then show ?thesis
    by (simp add: gate_invocation_def assms Let_def gate_inline_def gate_program_def cwd_unpinned_before_def)
qed

lemma cat_quiet:
  assumes "unwrap_invocation_checked iv = unflagged [''cat'', ''shadow'']"
    and "\<And>st. gate_path env pol ''/w'' False (''shadow'', MRead) st = st"
  shows "gate_invocation env pol ''/w'' recurse False False [] iv st = st"
proof -
  have "''cat'' \<notin> set CWD_PROGRAMS" "to_ascii_lowercase (basename ''cat'') = ''cat''"
    "shell_dash_c_script (shell_words [InvLiteral ''cat'', InvLiteral ''shadow'']) = NotInline"
    "special_file_operands ''cat'' [''cat'', ''shadow''] = []"
    "shell_path_command_operands ''cat'' [''cat'', ''shadow''] = None"
    "operand_modes ''cat'' [''cat'', ''shadow''] = Some [MRead]"
    "shell_file_candidates [''cat'', ''shadow''] = [''shadow'']"
    "\<not> shell_reader_can_recurse ''cat'' [''cat'', ''shadow''] [''shadow'']"
    "literal_words [InvLiteral ''cat'', InvLiteral ''shadow''] = [''cat'', ''shadow'']" by code_simp+
  then show ?thesis
    by (simp add: gate_invocation_def assms Let_def gate_inline_def gate_program_def cwd_unpinned_before_def)
qed

text \<open>A change of the working directory is seen only under its own name. The peeling of wrappers knows
  that \<open>command cd /etc\<close> runs \<open>cd\<close>, but the search for directory changes looks at the first word as written:
  the relative path read after it is matched in the old directory, and the gate says nothing about a script
  that reads the denied file \<open>/etc/shadow\<close>.\<close>

theorem disguised_cd_unseen:
  assumes "shell_parse env disguised_script = Some (cd_tree 8 [(8, 10), (11, 15)])"
    and "\<And>p m b t. p \<in> {''/etc/shadow'', ''/w/x''} \<Longrightarrow> glob_new env p = Some m \<Longrightarrow> m b t \<Longrightarrow> t = p"
    and "follow_absolute_symlink (links env) ''/w/shadow'' ''/w/shadow'' = NoFollow"
  shows "fst (unwrap_invocation_checked (hd (shell_command_invocations
             (root_node (cd_tree 8 [(8, 10), (11, 15)])) disguised_script))) = [InvLiteral ''cd'', InvLiteral ''/etc''] \<and>
         evaluate_shell_file_access env (policy_new env shadow_config) disguised_script ''/w'' = None"
proof
  let ?t = "cd_tree 8 [(8, 10), (11, 15)]" and ?pol = "policy_new env shadow_config"
  have l: "shell_redirect_targets (root_node ?t) disguised_script = []" "cwd_poison_positions (root_node ?t) disguised_script = []"
    "map unwrap_invocation_checked (shell_command_invocations (root_node ?t) disguised_script) =
       [unflagged [''cd'', ''/etc''], unflagged [''cat'', ''shadow'']]" "\<not> has_error ?t" by code_simp+
  then obtain iv1 iv2 where iv: "shell_command_invocations (root_node ?t) disguised_script = [iv1, iv2]"
    "unwrap_invocation_checked iv1 = unflagged [''cd'', ''/etc'']"
    "unwrap_invocation_checked iv2 = unflagged [''cat'', ''shadow'']"
    by (auto simp: map_eq_Cons_conv)
  show "fst (unwrap_invocation_checked (hd (shell_command_invocations (root_node ?t) disguised_script)))
      = [InvLiteral ''cd'', InvLiteral ''/etc'']" by (simp add: iv)
  have "shell_file_gate env ?pol ''/w'' recurse False disguised_script False = None" for recurse
    unfolding shell_file_gate_def assms(1) option.case Let_def l(1,2) iv(1)
    using cd_quiet [OF iv(2)] cat_quiet [OF iv(3) shadow_quiet [OF assms(2,3)]] l(4) by (simp add: fail_closed_if_def)
  then have "inner_shell_file_gate env ?pol ''/w'' depth False disguised_script False = None" for depth
    by (subst inner_level)
  then show "evaluate_shell_file_access env ?pol disguised_script ''/w'' = None"
    by (simp add: evaluate_shell_file_access_def evaluate_shell_file_access_gate_def)
qed

theorem disguised_cd_unseen_witness:
  "evaluate_shell_file_access file_env (policy_new file_env shadow_config) disguised_script ''/w'' = None"
proof -
  have p: "shell_parse file_env disguised_script = Some (cd_tree 8 [(8, 10), (11, 15)])" by code_simp
  have l: "follow_absolute_symlink (links file_env) ''/w/shadow'' ''/w/shadow'' = NoFollow" by code_simp
  have g: "t = p" if "glob_new file_env p = Some m" "m b t" for p m b t
    using that by (auto simp: file_env_def example_env_def split: if_splits)
  show ?thesis by (rule disguised_cd_unseen [OF p _ l, THEN conjunct2]) (erule (1) g)
qed

end
