(* ===== verification/Protected_Edits.thy ===== *)
theory Protected_Edits
  imports Path_Match
begin

text \<open>
  The edit targets that are confirmed even when edits are accepted, the second half of
  \<open>permission/shell_access.rs\<close>: hooks, credentials, startup files and the configuration of the program
  itself. The home of the program (\<open>user_grok_home\<close>, read from the environment) and the links of the file
  system are arguments. The theory shows which targets go unprompted.
\<close>

section \<open>Reasons\<close>

datatype protected_edit_reason =
  HookRoot | GitHooks | Ssh | StartupFile | Etc | GrokConfig | GrokSandbox | ClaudeSettings | CursorHooks | Sensitive

fun reason_kind :: "protected_edit_reason \<Rightarrow> string" where
  "reason_kind HookRoot = ''hook_root''"
| "reason_kind GitHooks = ''git_hooks''"
| "reason_kind Ssh = ''ssh''"
| "reason_kind StartupFile = ''startup_file''"
| "reason_kind Etc = ''etc''"
| "reason_kind GrokConfig = ''grok_config''"
| "reason_kind GrokSandbox = ''grok_sandbox''"
| "reason_kind ClaudeSettings = ''claude_settings''"
| "reason_kind CursorHooks = ''cursor_hooks''"
| "reason_kind Sensitive = ''sensitive''"

abbreviation backquote :: char where "backquote \<equiv> CHR 0x60"

fun description :: "protected_edit_reason \<Rightarrow> string option" where
  "description HookRoot = Some ''Note: This edit contains changes to hooks, which can be executed as code on later sessions without a separate execution approval.''"
| "description GitHooks = Some ''Note: This edit contains changes to Git hooks, which can run automatically on commit, push, or other Git actions without a separate execution approval.''"
| "description Ssh = Some (''Note: This edit contains changes under '' @ [backquote] @ ''.ssh'' @ [backquote] @ '', which can affect credentials and authentication for future sessions.'')"
| "description StartupFile = Some ''Note: This edit contains changes to a shell startup file, which can run automatically in future terminals without a separate execution approval.''"
| "description Etc = Some (''Note: This edit contains changes under '' @ [backquote] @ ''/etc'' @ [backquote] @ '', which is system configuration and can affect this machine beyond the current project.'')"
| "description GrokConfig = Some ''Note: This edit contains changes to Grok config, which can alter permissions, tools, and other behavior in later sessions.''"
| "description GrokSandbox = Some ''Note: This edit contains changes to the Grok sandbox config, which can loosen filesystem and network restrictions on commands.''"
| "description ClaudeSettings = Some ''Note: This edit contains changes to Claude-compatible settings, which can install hooks or change permission mode without a separate execution approval.''"
| "description CursorHooks = Some ''Note: This edit contains changes to Cursor hooks, which can run automatically in later sessions without a separate execution approval.''"
| "description Sensitive = None"

record protected_edit_permission =
  pep_kind :: string
  pep_description :: "string option"

definition from_reason :: "protected_edit_reason \<Rightarrow> protected_edit_permission" where
  "from_reason reason = \<lparr>pep_kind = reason_kind reason, pep_description = description reason\<rparr>"

section \<open>Protected places\<close>

definition CONFIG_FILENAMES :: "string list" where
  "CONFIG_FILENAMES = [''config.toml'', ''managed_config.toml'', ''requirements.toml'']"

definition SANDBOX_CONFIG_FILENAME :: string where
  "SANDBOX_CONFIG_FILENAME = ''sandbox.toml''"

definition STARTUP_FILES :: "string list" where
  "STARTUP_FILES =
     [''.bashrc'', ''.bash_profile'', ''.bash_login'', ''.bash_logout'', ''.profile'', ''.zshrc'', ''.zshenv'',
      ''.zprofile'', ''.zlogin'', ''.zlogout'', ''.kshrc'', ''.cshrc'', ''.tcshrc'', ''.login'', ''.logout'',
      ''.inputrc'', ''.xprofile'']"

definition path_under :: "string \<Rightarrow> string \<Rightarrow> bool" where
  "path_under p root \<longleftrightarrow> prefix (components root) (components p)"

definition same_path :: "string \<Rightarrow> string \<Rightarrow> bool" where
  "same_path p q \<longleftrightarrow> components p = components q"

fun adjacent :: "string \<Rightarrow> string \<Rightarrow> string list \<Rightarrow> bool" where
  "adjacent a b (x # y # zs) \<longleftrightarrow> (x = a \<and> y = b) \<or> adjacent a b (y # zs)"
| "adjacent a b _ \<longleftrightarrow> False"

definition grok_home_matches :: "link_fs \<Rightarrow> string option \<Rightarrow> (string \<Rightarrow> bool) \<Rightarrow> bool" where
  "grok_home_matches fs home pred =
     (case home of
        None \<Rightarrow> False
      | Some h \<Rightarrow>
          (let lexical = normalize_lexically h
           in pred lexical \<or>
              (case resolve_following_symlinks fs lexical of Some resolved \<Rightarrow> pred resolved | None \<Rightarrow> False)))"

definition path_is_under_user_grok_hook_root :: "string \<Rightarrow> string \<Rightarrow> bool" where
  "path_is_under_user_grok_hook_root p grok_home \<longleftrightarrow>
     path_under p (join_path grok_home ''hooks'') \<or> same_path p (join_path grok_home ''hooks-paths'')"

definition protected_grok_hook_root :: "link_fs \<Rightarrow> string option \<Rightarrow> string \<Rightarrow> string list \<Rightarrow> bool" where
  "protected_grok_hook_root fs home p names \<longleftrightarrow>
     adjacent ''.opengrok'' ''hooks'' names \<or> suffix [''.opengrok'', ''hooks-paths''] names \<or>
     grok_home_matches fs home (path_is_under_user_grok_hook_root p)"

fun submodule_hooks :: "string list \<Rightarrow> bool" where
  "submodule_hooks [] \<longleftrightarrow> False"
| "submodule_hooks (x # rest) \<longleftrightarrow>
     (x = ''.git'' \<and> (case rest of m # after \<Rightarrow> m = ''modules'' \<and> ''hooks'' \<in> set (tl after) | [] \<Rightarrow> False)) \<or>
     submodule_hooks rest"

definition protected_git_hooks_path :: "string list \<Rightarrow> bool" where
  "protected_git_hooks_path names \<longleftrightarrow> adjacent ''.git'' ''hooks'' names \<or> submodule_hooks names"

definition config_reason :: "string list \<Rightarrow> protected_edit_reason option" where
  "config_reason names =
     (if names = [] then None
      else if last names \<in> set CONFIG_FILENAMES then Some GrokConfig
      else if last names = SANDBOX_CONFIG_FILENAME then Some GrokSandbox
      else None)"

definition protected_grok_config_file :: "link_fs \<Rightarrow> string option \<Rightarrow> string \<Rightarrow> string list \<Rightarrow> protected_edit_reason option" where
  "protected_grok_config_file fs home p names =
     (case config_reason names of
        None \<Rightarrow> None
      | Some reason \<Rightarrow>
          (if (2 \<le> length names \<and> names ! (length names - 2) = ''.opengrok'') \<or>
              grok_home_matches fs home (\<lambda>h. case parent p of Some par \<Rightarrow> same_path par h | None \<Rightarrow> False)
           then Some reason else None))"

definition lower_names :: "string \<Rightarrow> string list" where
  "lower_names p =
     concat (map (\<lambda>c. case c of Normal part \<Rightarrow> [to_ascii_lowercase part] | _ \<Rightarrow> []) (components p))"

definition protected_edit_reason_of :: "link_fs \<Rightarrow> string option \<Rightarrow> string \<Rightarrow> protected_edit_reason option" where
  "protected_edit_reason_of fs home p =
     (let names = lower_names p;
          file = (if names = [] then [] else last names)
      in if protected_grok_hook_root fs home p names then Some HookRoot
         else if suffix [''.claude'', ''settings.json''] names \<or> suffix [''.claude'', ''settings.local.json''] names
           then Some ClaudeSettings
         else if suffix [''.cursor'', ''hooks.json''] names then Some CursorHooks
         else if protected_git_hooks_path names then Some GitHooks
         else if ''.ssh'' \<in> set names then Some Ssh
         else if file \<in> set STARTUP_FILES then Some StartupFile
         else (case protected_grok_config_file fs home p names of
                 Some reason \<Rightarrow> Some reason
               | None \<Rightarrow> (if same_path p ''/etc'' \<or> path_under p ''/etc'' then Some Etc else None)))"

definition resolved_path_is_within_root :: "link_fs \<Rightarrow> string \<Rightarrow> string \<Rightarrow> bool" where
  "resolved_path_is_within_root fs resolved root =
     (case resolve_following_symlinks fs root of
        Some resolved_root \<Rightarrow> path_under resolved resolved_root
      | None \<Rightarrow> True)"

definition edit_target_protection :: "link_fs \<Rightarrow> string option \<Rightarrow> string \<Rightarrow> protected_edit_reason option" where
  "edit_target_protection fs home p =
     (if \<not> is_absolute p then Some Sensitive
      else (case protected_edit_reason_of fs home (normalize_lexically p) of
              Some reason \<Rightarrow> Some reason
            | None \<Rightarrow>
                (case resolve_following_symlinks fs p of
                   None \<Rightarrow> Some Sensitive
                 | Some resolved \<Rightarrow>
                     (case protected_edit_reason_of fs home resolved of
                        Some reason \<Rightarrow> Some reason
                      | None \<Rightarrow>
                          (if resolved_path_is_within_root fs resolved ''/etc'' then Some Sensitive else None)))))"

section \<open>What goes unprompted\<close>

text \<open>The places, described by what their names look like: \<open>ds\<close> the directories above.\<close>

inductive private_names :: "string list \<Rightarrow> bool" where
  ssh: "private_names (ds @ ''.ssh'' # rest)"
| startup: "f \<in> set STARTUP_FILES \<Longrightarrow> private_names (ds @ [f])"
| git_hooks: "private_names (ds @ ''.git'' # ''hooks'' # rest)"
| module_hooks: "private_names (ds @ ''.git'' # ''modules'' # m # mid @ ''hooks'' # rest)"
| hooks: "private_names (ds @ ''.opengrok'' # ''hooks'' # rest)"
| hooks_paths: "private_names (ds @ [''.opengrok'', ''hooks-paths''])"
| config: "f \<in> set (SANDBOX_CONFIG_FILENAME # CONFIG_FILENAMES) \<Longrightarrow> private_names (ds @ [''.opengrok'', f])"
| claude: "f \<in> {''settings.json'', ''settings.local.json''} \<Longrightarrow> private_names (ds @ [''.claude'', f])"
| cursor: "private_names (ds @ [''.cursor'', ''hooks.json''])"

definition home_form :: "link_fs \<Rightarrow> string option \<Rightarrow> string \<Rightarrow> bool" where
  "home_form fs home h \<longleftrightarrow>
     (\<exists>g. home = Some g \<and> (h = normalize_lexically g \<or> resolve_following_symlinks fs (normalize_lexically g) = Some h))"

definition home_private :: "string \<Rightarrow> string \<Rightarrow> bool" where
  "home_private h p \<longleftrightarrow>
     path_is_under_user_grok_hook_root p h \<or>
     (\<exists>par ds f. parent p = Some par \<and> same_path par h \<and> lower_names p = ds @ [f] \<and>
        f \<in> set (SANDBOX_CONFIG_FILENAME # CONFIG_FILENAMES))"

lemma adjacent_iff: "adjacent a b xs \<longleftrightarrow> (\<exists>ds rest. xs = ds @ a # b # rest)"
proof (induction a b xs rule: adjacent.induct)
  case (1 a b x y zs)
  have "(\<exists>ds rest. x # y # zs = ds @ a # b # rest) \<longleftrightarrow> x = a \<and> y = b \<or> (\<exists>ds rest. y # zs = ds @ a # b # rest)"
    by (auto simp: Cons_eq_append_conv)
  with 1 show ?case by simp
qed (auto simp: Cons_eq_append_conv)

lemma submodule_hooks_iff:
  "submodule_hooks xs \<longleftrightarrow> (\<exists>ds m mid rest. xs = ds @ ''.git'' # ''modules'' # m # mid @ ''hooks'' # rest)"
proof (induction xs)
  case (Cons x xs)
  have s: "(\<exists>ds m mid rest. ys = ds @ ''.git'' # ''modules'' # m # mid @ ''hooks'' # rest) \<longleftrightarrow>
      (\<exists>m mid rest. suffix (''.git'' # ''modules'' # m # mid @ ''hooks'' # rest) ys)" for ys
    unfolding suffix_def by blast
  have "(\<exists>ds m mid rest. x # xs = ds @ ''.git'' # ''modules'' # m # mid @ ''hooks'' # rest) \<longleftrightarrow>
      (x = ''.git'' \<and> (\<exists>m mid rest. xs = ''modules'' # m # mid @ ''hooks'' # rest)) \<or> submodule_hooks xs"
    unfolding Cons.IH s suffix_Cons list.inject by (intro iffI; elim exE disjE conjE; blast)
  moreover have "(\<exists>m mid rest. xs = ''modules'' # m # mid @ ''hooks'' # rest) \<longleftrightarrow>
      (case xs of m # after \<Rightarrow> m = ''modules'' \<and> ''hooks'' \<in> set (tl after) | [] \<Rightarrow> False)"
    by (cases xs; cases "tl xs") (auto simp: in_set_conv_decomp)
  ultimately show ?case by simp
qed simp

lemma private_names_iff:
  "private_names xs \<longleftrightarrow>
     ''.ssh'' \<in> set xs \<or> (xs \<noteq> [] \<and> last xs \<in> set STARTUP_FILES) \<or>
     adjacent ''.git'' ''hooks'' xs \<or> submodule_hooks xs \<or> adjacent ''.opengrok'' ''hooks'' xs \<or>
     suffix [''.opengrok'', ''hooks-paths''] xs \<or>
     (\<exists>f\<in>set (SANDBOX_CONFIG_FILENAME # CONFIG_FILENAMES). suffix [''.opengrok'', f] xs) \<or>
     (\<exists>f\<in>{''settings.json'', ''settings.local.json''}. suffix [''.claude'', f] xs) \<or>
     suffix [''.cursor'', ''hooks.json''] xs"
proof -
  have ends: "xs \<noteq> [] \<and> last xs \<in> F \<longleftrightarrow> (\<exists>f ds. xs = ds @ [f] \<and> f \<in> F)" for F
    by (cases xs rule: rev_cases) auto
  have ex: "(\<exists>f\<in>F. suffix [d, f] xs) \<longleftrightarrow> (\<exists>f ds. xs = ds @ [d, f] \<and> f \<in> F)" for d F
    unfolding suffix_def by blast
  show ?thesis
    unfolding private_names.simps [of xs] in_set_conv_decomp [of "''.ssh''"] adjacent_iff submodule_hooks_iff ends ex
    unfolding suffix_def by (rule refl)
qed

lemma grok_home_matches_iff: "grok_home_matches fs home pred \<longleftrightarrow> (\<exists>h. home_form fs home h \<and> pred h)"
  by (auto simp: grok_home_matches_def home_form_def Let_def split: option.splits)

lemma config_reason_iff:
  "config_reason xs \<noteq> None \<longleftrightarrow> (\<exists>ds f. xs = ds @ [f] \<and> f \<in> set (SANDBOX_CONFIG_FILENAME # CONFIG_FILENAMES))"
  by (cases xs rule: rev_cases) (auto simp: config_reason_def)

lemma second_last: "2 \<le> length xs \<and> xs ! (length xs - 2) = d \<and> (\<exists>ds. xs = ds @ [f]) \<longleftrightarrow> suffix [d, f] xs"
proof
  assume a: "2 \<le> length xs \<and> xs ! (length xs - 2) = d \<and> (\<exists>ds. xs = ds @ [f])"
  then obtain ds where "xs = ds @ [f]" "1 \<le> length ds" by auto
  with a show "suffix [d, f] xs" by (cases ds rule: rev_cases) (auto simp: suffix_def nth_append)
qed (auto simp: suffix_def nth_append)

lemma config_file_iff:
  "protected_grok_config_file fs home p names \<noteq> None \<longleftrightarrow>
     (\<exists>f\<in>set (SANDBOX_CONFIG_FILENAME # CONFIG_FILENAMES). suffix [''.opengrok'', f] names) \<or>
     (\<exists>h par ds f. home_form fs home h \<and> parent p = Some par \<and> same_path par h \<and> names = ds @ [f] \<and>
        f \<in> set (SANDBOX_CONFIG_FILENAME # CONFIG_FILENAMES))"
proof -
  have "protected_grok_config_file fs home p names \<noteq> None \<longleftrightarrow>
      config_reason names \<noteq> None \<and>
      ((2 \<le> length names \<and> names ! (length names - 2) = ''.opengrok'') \<or>
       (\<exists>h par. home_form fs home h \<and> parent p = Some par \<and> same_path par h))"
    by (cases "config_reason names"; cases "parent p")
      (simp_all add: protected_grok_config_file_def grok_home_matches_iff)
  then show ?thesis unfolding config_reason_iff second_last [symmetric] by blast
qed

lemma reason_iff:
  "protected_edit_reason_of fs home p = None \<longleftrightarrow>
     \<not> private_names (lower_names p) \<and> (\<forall>h. home_form fs home h \<longrightarrow> \<not> home_private h p) \<and> \<not> path_under p ''/etc''"
proof -
  have e: "same_path p ''/etc'' \<or> path_under p ''/etc'' \<longleftrightarrow> path_under p ''/etc''"
    by (auto simp: same_path_def path_under_def)
  have f: "(if lower_names p = [] then [] else last (lower_names p)) \<in> set STARTUP_FILES \<longleftrightarrow>
      lower_names p \<noteq> [] \<and> last (lower_names p) \<in> set STARTUP_FILES"
    by (simp add: STARTUP_FILES_def)
  have "protected_edit_reason_of fs home p = None \<longleftrightarrow>
      \<not> protected_grok_hook_root fs home p (lower_names p) \<and>
      \<not> (\<exists>f\<in>{''settings.json'', ''settings.local.json''}. suffix [''.claude'', f] (lower_names p)) \<and>
      \<not> suffix [''.cursor'', ''hooks.json''] (lower_names p) \<and> \<not> protected_git_hooks_path (lower_names p) \<and>
      ''.ssh'' \<notin> set (lower_names p) \<and> \<not> (lower_names p \<noteq> [] \<and> last (lower_names p) \<in> set STARTUP_FILES) \<and>
      \<not> protected_grok_config_file fs home p (lower_names p) \<noteq> None \<and> \<not> path_under p ''/etc''"
    unfolding protected_edit_reason_of_def Let_def e f
    by (cases "protected_grok_config_file fs home p (lower_names p)") simp_all
  moreover have "(\<forall>h. home_form fs home h \<longrightarrow> \<not> home_private h p) \<longleftrightarrow>
      \<not> (\<exists>h. home_form fs home h \<and> path_is_under_user_grok_hook_root p h) \<and>
      \<not> (\<exists>h par ds f. home_form fs home h \<and> parent p = Some par \<and> same_path par h \<and> lower_names p = ds @ [f] \<and>
        f \<in> set (SANDBOX_CONFIG_FILENAME # CONFIG_FILENAMES))"
    unfolding home_private_def by blast
  ultimately show ?thesis
    unfolding config_file_iff private_names_iff protected_grok_hook_root_def protected_git_hooks_path_def
      grok_home_matches_iff
    by argo
qed


text \<open>A file system with the directories \<open>/w\<close> and \<open>/etc\<close> and a link from \<open>/w/log\<close> to \<open>/etc/hosts\<close>.\<close>

definition edit_links :: link_fs where
  "edit_links =
     \<lparr>fs_canonicalize = (\<lambda>p. if p = ''/w'' \<or> p = ''/etc'' then Some p else if p = ''/w/log'' then Some ''/etc/hosts'' else None),
      symlink_metadata = (\<lambda>p. if p = ''/w/log'' then IsSymlink else LstatNotFound),
      read_link = (\<lambda>p. if p = ''/w/log'' then Some ''/etc/hosts'' else None)\<rparr>"


end
