(* ===== verification/Exec_Risk.thy ===== *)
theory Exec_Risk
  imports Permission_Policy
begin

text \<open>
  Arguments that make a harmless command run programs, \<open>permission/exec_risk.rs\<close>: options of \<open>git\<close> and
  \<open>sort\<close>, the one decision on read-only \<open>git\<close> queries, and the directories whose \<open>git\<close> configuration must
  be looked at. Reading that configuration (libgit2) and its booleans are arguments.
\<close>

section \<open>Normalised arguments\<close>

datatype normalized_argv = ArgvReady "string list" | ArgvFailClosed

text \<open>A suffix of the same length is the same slice, so the pointer comparisons of the code are comparisons
  of lengths.\<close>

primrec exec_risk_loop :: "nat \<Rightarrow> string list \<Rightarrow> normalized_argv" where
  "exec_risk_loop 0 current = ArgvFailClosed"
| "exec_risk_loop (Suc n) current =
     (let checked = unwrap_wrappers_checked current
      in if exhausted checked \<or> peel_split checked \<or> peel_chdir checked then ArgvFailClosed
         else (case peel_transparent_prefixes (peeled_words checked) of
                 None \<Rightarrow> ArgvFailClosed
               | Some after_trans \<Rightarrow>
                   (if length after_trans = length current \<or> length after_trans = length (peeled_words checked)
                    then ArgvReady after_trans
                    else exec_risk_loop n after_trans)))"

definition normalize_for_exec_risk :: "string list \<Rightarrow> normalized_argv" where
  "normalize_for_exec_risk words = exec_risk_loop MAX_NORMALIZE_ROUNDS words"

definition before_eq :: "string \<Rightarrow> string" where
  "before_eq tok = takeWhile (\<lambda>c. c \<noteq> CHR ''='') tok"

definition is_accepted_long_option_prefix :: "string \<Rightarrow> string \<Rightarrow> nat \<Rightarrow> bool" where
  "is_accepted_long_option_prefix flag full min_len \<longleftrightarrow>
     starts_with flag ''--'' \<and> min_len \<le> length flag \<and> starts_with full flag \<and>
     list_all (\<lambda>b. is_ascii_alphanumeric b \<or> b = CHR ''-'') flag"

definition normalized_token_basename :: "string \<Rightarrow> string" where
  "normalized_token_basename token =
     (let name = to_ascii_lowercase (basename token)
      in case strip_suffix name ''.exe'' of Some stem \<Rightarrow> stem | None \<Rightarrow> name)"

definition normalized_program_name :: "string list \<Rightarrow> string option" where
  "normalized_program_name words =
     (case words of
        [] \<Rightarrow> None
      | raw # _ \<Rightarrow> (if basename raw = [] then None else Some (normalized_token_basename raw)))"

definition is_git_program :: "string list \<Rightarrow> bool" where
  "is_git_program words \<longleftrightarrow> normalized_program_name words = Some ''git''"

definition is_sort_program :: "string list \<Rightarrow> bool" where
  "is_sort_program words \<longleftrightarrow> normalized_program_name words = Some ''sort''"

section \<open>Options that run programs\<close>

fun compress_program_loop :: "string list \<Rightarrow> bool" where
  "compress_program_loop [] \<longleftrightarrow> False"
| "compress_program_loop (w # ws) \<longleftrightarrow>
     (if w = ''--'' then False
      else w = ''--compress-program'' \<or> starts_with w ''--compress-program='' \<or>
           is_accepted_long_option_prefix (before_eq w) ''--compress-program'' 4 \<or>
           compress_program_loop ws)"

definition sort_has_compress_program_flag :: "string list \<Rightarrow> bool" where
  "sort_has_compress_program_flag words = compress_program_loop (tl words)"

definition is_git_config_env_flag :: "string \<Rightarrow> bool" where
  "is_git_config_env_flag tok \<longleftrightarrow>
     tok = ''--config-env'' \<or> starts_with tok ''--config-env='' \<or>
     is_accepted_long_option_prefix (before_eq tok) ''--config-env'' 4"

definition is_git_repo_retarget_flag :: "string \<Rightarrow> bool" where
  "is_git_repo_retarget_flag tok \<longleftrightarrow>
     tok = ''--git-dir'' \<or> starts_with tok ''--git-dir='' \<or> tok = ''--work-tree'' \<or> starts_with tok ''--work-tree='' \<or>
     is_accepted_long_option_prefix (before_eq tok) ''--git-dir'' 4 \<or>
     is_accepted_long_option_prefix (before_eq tok) ''--work-tree'' 4"

definition is_attached_git_config_c :: "string \<Rightarrow> bool" where
  "is_attached_git_config_c tok \<longleftrightarrow> starts_with tok ''-c'' \<and> 2 < length tok \<and> \<not> starts_with tok ''--''"

definition attached_git_c_path :: "string \<Rightarrow> string option" where
  "attached_git_c_path tok =
     (case strip_prefix tok ''-C'' of
        Some rest \<Rightarrow> (if rest \<noteq> [] \<and> \<not> starts_with tok ''--'' then Some rest else None)
      | None \<Rightarrow> None)"

definition git_global_option_takes_value :: "string \<Rightarrow> bool" where
  "git_global_option_takes_value tok \<longleftrightarrow>
     tok \<in> {''-C'', ''-c'', ''--git-dir'', ''--work-tree'', ''--namespace'', ''--super-prefix'', ''--exec-path'',
            ''--list-cmds'', ''--attr-source'', ''--config-env''} \<or>
     is_accepted_long_option_prefix tok ''--config-env'' 4 \<or>
     is_accepted_long_option_prefix tok ''--git-dir'' 4 \<or>
     is_accepted_long_option_prefix tok ''--work-tree'' 4 \<or>
     is_accepted_long_option_prefix tok ''--namespace'' 7 \<or>
     is_accepted_long_option_prefix tok ''--super-prefix'' 8 \<or>
     is_accepted_long_option_prefix tok ''--exec-path'' 7 \<or>
     is_accepted_long_option_prefix tok ''--list-cmds'' 7 \<or>
     is_accepted_long_option_prefix tok ''--attr-source'' 8"

definition ends_globals :: "string \<Rightarrow> bool" where
  "ends_globals tok \<longleftrightarrow> tok = ''--'' \<or> \<not> starts_with tok ''-'' \<or> tok = ''-''"

definition takes_separate_value :: "string \<Rightarrow> string list \<Rightarrow> bool" where
  "takes_separate_value tok rest \<longleftrightarrow>
     CHR ''='' \<notin> set tok \<and> git_global_option_takes_value tok \<and>
     (case rest of n # _ \<Rightarrow> \<not> starts_with n ''-'' \<or> n = ''-'' | [] \<Rightarrow> False)"

definition risky_global :: "string \<Rightarrow> bool" where
  "risky_global tok \<longleftrightarrow>
     tok = ''-c'' \<or> is_attached_git_config_c tok \<or> is_git_config_env_flag tok \<or> is_git_repo_retarget_flag tok"

function git_global_loop :: "string list \<Rightarrow> bool" where
  "git_global_loop [] = False"
| "git_global_loop (tok # rest) =
     (if ends_globals tok then False
      else if risky_global tok then True
      else if attached_git_c_path tok \<noteq> None then git_global_loop rest
      else git_global_loop (if takes_separate_value tok rest then tl rest else rest))"
  by pat_completeness auto
termination
  by (relation "measure length") auto

definition git_has_exec_risk_global :: "string list \<Rightarrow> bool" where
  "git_has_exec_risk_global words = git_global_loop (tl words)"

definition segment_has_exec_risk_flag :: "string list \<Rightarrow> bool" where
  "segment_has_exec_risk_flag words =
     (if is_sort_program words then sort_has_compress_program_flag words
      else if is_git_program words then git_has_exec_risk_global words
      else False)"

record segment_exec_facts =
  exec_risk :: bool
  has_git :: bool

definition segment_exec_facts_of :: "string list \<Rightarrow> segment_exec_facts" where
  "segment_exec_facts_of words =
     (case normalize_for_exec_risk words of
        ArgvFailClosed \<Rightarrow> \<lparr>exec_risk = True, has_git = False\<rparr>
      | ArgvReady inner \<Rightarrow> \<lparr>exec_risk = segment_has_exec_risk_flag inner, has_git = is_git_program inner\<rparr>)"

section \<open>Read-only queries\<close>

definition SAFE_GIT_SUBCOMMANDS :: "string list" where
  "SAFE_GIT_SUBCOMMANDS =
     [''status'', ''branch'', ''log'', ''diff'', ''ls-files'', ''show'', ''rev-parse'', ''blame'', ''grep'',
      ''describe'', ''merge-base'', ''check-ignore'', ''check-attr'', ''cat-file'', ''ls-tree'', ''show-ref'',
      ''for-each-ref'', ''rev-list'', ''name-rev'', ''count-objects'', ''shortlog'']"

definition GIT_QUERY_UNSAFE_OPTIONS :: "string list" where
  "GIT_QUERY_UNSAFE_OPTIONS =
     [''--filters'', ''--textconv'', ''--output'', ''--ext-diff'', ''--open-files-in-pager'']"

definition git_query_option_is_unsafe :: "string \<Rightarrow> bool" where
  "git_query_option_is_unsafe word \<longleftrightarrow>
     2 < length (before_eq word) \<and> list_ex (\<lambda>full. starts_with full (before_eq word)) GIT_QUERY_UNSAFE_OPTIONS"

fun query_verb_loop :: "nat \<Rightarrow> string list \<Rightarrow> nat option" where
  "query_verb_loop i [] = None"
| "query_verb_loop i (tok # rest) =
     (if tok = ''-'' \<or> tok = ''--'' then None
      else if \<not> starts_with tok ''-'' then Some i
      else if tok = ''-C'' then (case rest of [] \<Rightarrow> None | _ # rest' \<Rightarrow> query_verb_loop (i + 2) rest')
      else if attached_git_c_path tok \<noteq> None \<or> tok = ''--no-pager'' \<or> tok = ''-P'' then query_verb_loop (i + 1) rest
      else None)"

definition git_safe_query_verb_index :: "string list \<Rightarrow> nat option" where
  "git_safe_query_verb_index words = query_verb_loop 1 (tl words)"

definition is_literal_git :: "string list \<Rightarrow> bool" where
  "is_literal_git words \<longleftrightarrow> (case words of w # _ \<Rightarrow> w = ''git'' | [] \<Rightarrow> False)"

definition git_words_have_unsafe_query_option :: "string list \<Rightarrow> bool" where
  "git_words_have_unsafe_query_option words \<longleftrightarrow>
     is_literal_git words \<and>
     (list_ex git_query_option_is_unsafe (tl words) \<or>
      (case git_safe_query_verb_index words of Some i \<Rightarrow> words ! i = ''grep'' | None \<Rightarrow> False) \<and>
      list_ex (\<lambda>w. starts_with w ''-O'') (tl words))"

definition git_words_are_read_only_query :: "string list \<Rightarrow> bool" where
  "git_words_are_read_only_query words \<longleftrightarrow>
     is_literal_git words \<and> \<not> git_has_exec_risk_global words \<and>
     (case git_safe_query_verb_index words of
        None \<Rightarrow> False
      | Some verb_idx \<Rightarrow> words ! verb_idx \<in> set SAFE_GIT_SUBCOMMANDS \<and> \<not> git_words_have_unsafe_query_option words)"

section \<open>Configuration of the repository\<close>

definition local_git_config_entry_is_exec :: "(string \<Rightarrow> bool) \<Rightarrow> string \<Rightarrow> string \<Rightarrow> bool" where
  "local_git_config_entry_is_exec is_bool raw_name raw_value =
     (let name = to_ascii_lowercase raw_name; v = trim raw_value
      in if v = [] then False
         else if name = ''core.fsmonitor'' then \<not> is_bool v
         else if name = ''diff.external'' then True
         else if (case strip_prefix name ''diff.'' of
                    Some rest \<Rightarrow> ends_with rest ''.command'' \<or> ends_with rest ''.textconv'' \<or> ends_with rest ''.external''
                  | None \<Rightarrow> False) then True
         else (case strip_prefix name ''alias.'' of
                 Some verb \<Rightarrow> verb \<in> set SAFE_GIT_SUBCOMMANDS \<and> starts_with v ''!''
               | None \<Rightarrow> False))"

definition is_static_path_operand :: "string \<Rightarrow> bool" where
  "is_static_path_operand p \<longleftrightarrow>
     p \<noteq> [] \<and> p \<noteq> ''-'' \<and> \<not> starts_with p ''-'' \<and> CHR ''$'' \<notin> set p \<and> CHR 0x60 \<notin> set p \<and> \<not> contains_str p ''$(''"

fun chdir_target :: "string option \<Rightarrow> string list \<Rightarrow> string option" where
  "chdir_target target [] = target"
| "chdir_target target (tok # rest) =
     (if tok = ''--'' then (case rest of [] \<Rightarrow> None | t # _ \<Rightarrow> Some t)
      else if starts_with tok ''-'' then None
      else if target \<noteq> None then None
      else chdir_target (Some tok) rest)"

definition apply_literal_chdir :: "string \<Rightarrow> string list \<Rightarrow> string option" where
  "apply_literal_chdir cwd words =
     (case chdir_target None (tl words) of
        None \<Rightarrow> None
      | Some target \<Rightarrow> (if is_static_path_operand target then Some (join_path cwd target) else None))"

function effective_cwd_loop :: "string \<Rightarrow> string list \<Rightarrow> string option" where
  "effective_cwd_loop cwd [] = Some cwd"
| "effective_cwd_loop cwd (tok # rest) =
     (if ends_globals tok then Some cwd
      else if is_git_repo_retarget_flag tok then None
      else if tok = ''-C'' then
        (case rest of
           [] \<Rightarrow> None
         | p # rest' \<Rightarrow> (if is_static_path_operand p then effective_cwd_loop (join_path cwd p) rest' else None))
      else (case attached_git_c_path tok of
              Some p \<Rightarrow> (if is_static_path_operand p then effective_cwd_loop (join_path cwd p) rest else None)
            | None \<Rightarrow> effective_cwd_loop cwd (if takes_separate_value tok rest then tl rest else rest)))"
  by pat_completeness auto
termination
  by (relation "measure (\<lambda>(_, ws). length ws)") auto

definition git_effective_cwd :: "string list \<Rightarrow> string \<Rightarrow> string option" where
  "git_effective_cwd words start_cwd = effective_cwd_loop start_cwd (tl words)"

datatype ambient_scan_plan = PlanFailClosed | CheckDirs "string list"

fun scan_plan_loop :: "string \<Rightarrow> string list \<Rightarrow> string list list \<Rightarrow> ambient_scan_plan" where
  "scan_plan_loop cwd git_cwds [] = (if git_cwds = [] then PlanFailClosed else CheckDirs git_cwds)"
| "scan_plan_loop cwd git_cwds (raw # segments) =
     (case normalize_for_exec_risk raw of
        ArgvFailClosed \<Rightarrow> PlanFailClosed
      | ArgvReady words \<Rightarrow>
          (let name = normalized_program_name words
           in if name = Some ''cd'' \<or> name = Some ''pushd'' then
                (case apply_literal_chdir cwd words of
                   Some nxt \<Rightarrow> scan_plan_loop nxt git_cwds segments
                 | None \<Rightarrow> PlanFailClosed)
              else if name = Some ''popd'' then PlanFailClosed
              else if name = Some ''git'' then
                (case git_effective_cwd words cwd of
                   Some effective \<Rightarrow> scan_plan_loop cwd (git_cwds @ [effective]) segments
                 | None \<Rightarrow> PlanFailClosed)
              else scan_plan_loop cwd git_cwds segments))"

definition ambient_scan_plan_from_segments :: "string list list \<Rightarrow> string \<Rightarrow> ambient_scan_plan" where
  "ambient_scan_plan_from_segments raw_segments session_cwd = scan_plan_loop session_cwd [] raw_segments"

definition ambient_exec_risk_from_plan :: "(string \<Rightarrow> bool) \<Rightarrow> ambient_scan_plan \<Rightarrow> bool" where
  "ambient_exec_risk_from_plan repo_risk plan =
     (case plan of PlanFailClosed \<Rightarrow> True | CheckDirs dirs \<Rightarrow> list_ex repo_risk dirs)"

section \<open>Scripts that cannot be taken apart\<close>

definition token_separators :: string where
  "token_separators = [CHR ''|'', CHR ''&'', CHR '';'', CHR ''('', CHR '')'', CHR 0x60, nl, CHR ''<'', CHR ''>'']"

function shell_tokens :: "string \<Rightarrow> string \<Rightarrow> string list" where
  "shell_tokens current [] = [current]"
| "shell_tokens current (c # cs) =
     (case ws_prefix (c # cs) of
        Some w \<Rightarrow> current # shell_tokens [] (drop (length w - 1) cs)
      | None \<Rightarrow> (if c \<in> set token_separators then current # shell_tokens [] cs
                 else shell_tokens (current @ [c]) cs))"
  by pat_completeness auto
termination
  by (relation "measure (\<lambda>(_, s). length s)") auto

definition trim_token :: "string \<Rightarrow> string" where
  "trim_token t = (let q = (\<lambda>c. c \<in> {sq, dq, CHR 0x60}) in rev (dropWhile q (rev (dropWhile q t))))"

definition script_may_invoke_git :: "string \<Rightarrow> bool" where
  "script_may_invoke_git cmd =
     list_ex (\<lambda>t. trim_token t \<noteq> [] \<and> normalized_token_basename (trim_token t) = ''git'') (shell_tokens [] cmd)"

section \<open>What counts as a read-only query\<close>

text \<open>The global options that may stand before the verb.\<close>

inductive benign_globals :: "string list \<Rightarrow> bool" where
  no_global: "benign_globals []"
| directory: "benign_globals gs \<Longrightarrow> benign_globals (''-C'' # p # gs)"
| attached_directory: "attached_git_c_path g \<noteq> None \<Longrightarrow> benign_globals gs \<Longrightarrow> benign_globals (g # gs)"
| no_pager: "g \<in> {''--no-pager'', ''-P''} \<Longrightarrow> benign_globals gs \<Longrightarrow> benign_globals (g # gs)"

lemma query_verb_found:
  "query_verb_loop i ws = Some j \<Longrightarrow>
   \<exists>gs verb args. ws = gs @ verb # args \<and> j = i + length gs \<and> benign_globals gs \<and> \<not> starts_with verb ''-''"
proof (induction i ws rule: query_verb_loop.induct)
  case (2 i tok rest)
  consider (verb) "\<not> starts_with tok ''-''" | (C) p rest' where "tok = ''-C''" "rest = p # rest'"
    | (flag) "attached_git_c_path tok \<noteq> None \<or> tok = ''--no-pager'' \<or> tok = ''-P''" "tok \<noteq> ''-C''" "starts_with tok ''-''"
    using "2.prems" by (cases rest) (auto split: if_splits)
  then show ?case
  proof cases
    case verb
    with "2.prems" have "j = i" by (auto split: if_splits)
    with verb show ?thesis using no_global by (metis add_0_right append_Nil list.size(3))
  next
    case C
    with "2.prems" have "query_verb_loop (i + 2) rest' = Some j" by simp
    with "2.IH"(1) C obtain gs verb args where
      "rest' = gs @ verb # args" "j = i + 2 + length gs" "benign_globals gs" "\<not> starts_with verb ''-''" by fastforce
    with C show ?thesis
      by (intro exI [of _ "''-C'' # p # gs"] exI [of _ verb] exI [of _ args]) (simp add: directory)
  next
    case flag
    with "2.prems" have "query_verb_loop (i + 1) rest = Some j" "tok \<noteq> ''-''" "tok \<noteq> ''--''" by (auto split: if_splits)
    with "2.IH"(2) flag obtain gs verb args where
      "rest = gs @ verb # args" "j = i + 1 + length gs" "benign_globals gs" "\<not> starts_with verb ''-''" by fastforce
    with flag show ?thesis
      by (intro exI [of _ "tok # gs"] exI [of _ verb] exI [of _ args]) (auto intro: attached_directory no_pager)
  qed
qed simp

lemma attached_shape: "attached_git_c_path g \<noteq> None \<Longrightarrow> starts_with g ''-'' \<and> g \<noteq> ''-'' \<and> g \<noteq> ''--'' \<and> g \<noteq> ''-C''"
  by (cases g; cases "tl g") (auto simp: attached_git_c_path_def strip_prefix_def split: option.splits if_splits)

lemma query_verb_after:
  assumes "benign_globals gs" "\<not> starts_with verb ''-''"
  shows "query_verb_loop i (gs @ verb # args) = Some (i + length gs)"
  using assms(1)
proof (induction arbitrary: i)
  case no_global
  with assms(2) show ?case by auto
next
  case (attached_directory g gs)
  with attached_shape show ?case by simp
qed auto

lemma safe_verbs_plain: "verb \<in> set SAFE_GIT_SUBCOMMANDS \<Longrightarrow> \<not> starts_with verb ''-''"
proof -
  have "list_all (\<lambda>verb. \<not> starts_with verb ''-'') SAFE_GIT_SUBCOMMANDS" by code_simp
  then show "verb \<in> set SAFE_GIT_SUBCOMMANDS \<Longrightarrow> \<not> starts_with verb ''-''" by (auto simp: list_all_iff)
qed

lemma git_not_wrapped: "normalize_for_exec_risk (''git'' # ws) = ArgvReady (''git'' # ws)"
proof -
  have b: "basename ''git'' = ''git''" by code_simp
  then have "strip_wrapper_command (''git'' # ws) = None" "strip_transparent_prefix (''git'' # ws) = NotPrefix"
    by (simp_all add: strip_wrapper_command_def strip_transparent_prefix_def)
  then show ?thesis
    by (simp add: normalize_for_exec_risk_def MAX_NORMALIZE_ROUNDS_def MAX_WRAPPER_DEPTH_def
        MAX_TRANSPARENT_PREFIX_DEPTH_def unwrap_wrappers_checked_def scan_env_layer_def b
        peel_transparent_prefixes_def eval_nat_numeral Let_def)
qed

text \<open>C29: What is approved as a read-only \<open>git\<close> query: exactly the words \<open>git\<close>, then only \<open>-C\<close>,
  \<open>--no-pager\<close> and \<open>-P\<close>, then a listed verb, where no word abbreviates an option that runs a driver or
  writes a file and the globals carry no configuration. Such a query raises no execution risk by itself and
  its repository is always scanned.\<close>

theorem read_only_query_exactly:
  "git_words_are_read_only_query ws \<longleftrightarrow>
     (\<exists>gs verb args. ws = ''git'' # gs @ verb # args \<and> benign_globals gs \<and> verb \<in> set SAFE_GIT_SUBCOMMANDS \<and>
        (\<forall>w\<in>set (gs @ verb # args). \<not> git_query_option_is_unsafe w \<and> (verb = ''grep'' \<longrightarrow> \<not> starts_with w ''-O'')) \<and>
        segment_exec_facts_of ws = \<lparr>exec_risk = False, has_git = True\<rparr>)"
proof -
  have n: "normalized_program_name (''git'' # ws) = Some ''git''" for ws
  proof -
    have "normalized_token_basename ''git'' = ''git''" "basename ''git'' \<noteq> []" by code_simp+
    then show ?thesis by (simp add: normalized_program_name_def)
  qed
  have facts: "segment_exec_facts_of (''git'' # ws) = \<lparr>exec_risk = False, has_git = True\<rparr> \<longleftrightarrow>
      \<not> git_has_exec_risk_global (''git'' # ws)" for ws
    by (simp add: segment_exec_facts_of_def git_not_wrapped segment_has_exec_risk_flag_def is_sort_program_def is_git_program_def n)
  have shape: "git_words_are_read_only_query (''git'' # rest) \<longleftrightarrow>
      (\<exists>gs verb args. rest = gs @ verb # args \<and> benign_globals gs \<and> verb \<in> set SAFE_GIT_SUBCOMMANDS \<and>
        (\<forall>w\<in>set rest. \<not> git_query_option_is_unsafe w \<and> (verb = ''grep'' \<longrightarrow> \<not> starts_with w ''-O'')) \<and>
        \<not> git_has_exec_risk_global (''git'' # rest))" for rest
  proof (cases "query_verb_loop 1 rest")
    case None
    then have "\<not> (rest = gs @ verb # args \<and> benign_globals gs \<and> verb \<in> set SAFE_GIT_SUBCOMMANDS)" for gs verb args
      using query_verb_after safe_verbs_plain by (metis option.distinct(1))
    then show ?thesis using None
      by (auto simp: git_words_are_read_only_query_def git_safe_query_verb_index_def)
  next
    case (Some j)
    from query_verb_found [OF this] obtain gs verb args where
      r: "rest = gs @ verb # args" "j = 1 + length gs" "benign_globals gs" "\<not> starts_with verb ''-''" by blast
    have u: "verb' = verb" if "rest = gs' @ verb' # args'" "benign_globals gs'" "verb' \<in> set SAFE_GIT_SUBCOMMANDS" for gs' verb' args'
      using query_verb_after [OF that(2) safe_verbs_plain [OF that(3)], of 1 args'] that(1) r Some
      by (metis add_left_cancel append_eq_append_conv list.inject option.inject)
    have i: "git_safe_query_verb_index (''git'' # rest) = Some j" "(''git'' # rest) ! j = verb"
      using Some r by (simp_all add: git_safe_query_verb_index_def)
    define Q where "Q verb \<longleftrightarrow> (\<forall>w\<in>set rest. \<not> git_query_option_is_unsafe w \<and> (verb = ''grep'' \<longrightarrow> \<not> starts_with w ''-O''))" for verb
    have "git_words_are_read_only_query (''git'' # rest) \<longleftrightarrow>
        \<not> git_has_exec_risk_global (''git'' # rest) \<and> verb \<in> set SAFE_GIT_SUBCOMMANDS \<and> Q verb"
      unfolding git_words_are_read_only_query_def git_words_have_unsafe_query_option_def i option.case Q_def
      by (auto simp: is_literal_git_def list_ex_iff)
    then show ?thesis unfolding Q_def [symmetric] using r(1,3) u by blast
  qed
  show ?thesis
  proof (cases "\<exists>rest. ws = ''git'' # rest")
    case True
    then obtain rest where w: "ws = ''git'' # rest" by blast
    show ?thesis by (simp only: w shape facts list.inject simp_thms cong: conj_cong)
  next
    case False
    then show ?thesis
      by (cases ws) (auto simp: git_words_are_read_only_query_def is_literal_git_def)
  qed
qed

theorem read_only_query_exactly_witness:
  "git_words_are_read_only_query [''git'', ''-C'', ''/w'', ''--no-pager'', ''log'', ''-p''] \<and>
   segment_exec_facts_of [''git'', ''-C'', ''/w'', ''--no-pager'', ''log'', ''-p''] = \<lparr>exec_risk = False, has_git = True\<rparr> \<and>
   \<not> git_words_are_read_only_query [''git'', ''-c'', ''core.fsmonitor=x'', ''status''] \<and>
   \<not> git_words_are_read_only_query [''git'', ''diff'', ''--text'']"
proof -
  have q: "git_words_are_read_only_query [''git'', ''-C'', ''/w'', ''--no-pager'', ''log'', ''-p'']" by code_simp
  then have "segment_exec_facts_of [''git'', ''-C'', ''/w'', ''--no-pager'', ''log'', ''-p'']
      = \<lparr>exec_risk = False, has_git = True\<rparr>"
    using read_only_query_exactly by blast
  moreover have "\<not> git_words_are_read_only_query [''git'', ''-c'', ''core.fsmonitor=x'', ''status'']"
    "\<not> git_words_are_read_only_query [''git'', ''diff'', ''--text'']" by code_simp+
  ultimately show ?thesis using q by blast
qed

end
