(* ===== verification/Bash_Evaluation.thy ===== *)
theory Bash_Evaluation
  imports Shell_Access Exec_Risk
begin

text \<open>
  What one Bash request amounts to, before any grant is consulted: the safe lists, the dangerous verbs and
  the scopes of \<open>permission/manager/mod.rs\<close>, the security findings of \<open>auto_mode/security_findings.rs\<close>, the
  environment risk of \<open>auto_mode/mod.rs\<close>, the remembered answers of \<open>permission/state.rs\<close> and the evaluation
  \<open>evaluate_bash\<close> of a script against them. A \<open>HashSet\<close> is the list of its elements in iteration order.
  The theory shows which scripts an earlier refusal rejects.
\<close>

section \<open>Findings\<close>

datatype security_finding =
    FailClosedPolicy | UnparseableShell | UnresolvedArg | OpaqueShell | ExecOrAmbientGit | EnvInjection
  | UnvettedEnv | FileWrite | DangerousCommand | SpecialExecSurface

definition all_findings :: "security_finding list" where
  "all_findings =
     [FailClosedPolicy, UnparseableShell, UnresolvedArg, OpaqueShell, ExecOrAmbientGit, EnvInjection,
      UnvettedEnv, FileWrite, DangerousCommand, SpecialExecSurface]"

fun finding_token :: "security_finding \<Rightarrow> string" where
  "finding_token FailClosedPolicy = ''fail_closed_policy''"
| "finding_token UnparseableShell = ''unparseable_shell''"
| "finding_token UnresolvedArg = ''unresolved_argument''"
| "finding_token OpaqueShell = ''opaque_shell''"
| "finding_token ExecOrAmbientGit = ''exec_or_ambient_git''"
| "finding_token EnvInjection = ''env_injection''"
| "finding_token UnvettedEnv = ''unvetted_env''"
| "finding_token FileWrite = ''file_write''"
| "finding_token DangerousCommand = ''dangerous_command''"
| "finding_token SpecialExecSurface = ''special_exec_surface''"

definition is_grant_floor :: "security_finding \<Rightarrow> bool" where
  "is_grant_floor f \<longleftrightarrow>
     f \<in> {FileWrite, UnvettedEnv, EnvInjection, OpaqueShell, ExecOrAmbientGit, SpecialExecSurface}"

type_synonym security_assessment = "security_finding set"

definition constrains_broad_grant :: "security_assessment \<Rightarrow> bool" where
  "constrains_broad_grant a \<longleftrightarrow> (\<exists>f\<in>a. is_grant_floor f)"

definition is_file_write_only :: "security_assessment \<Rightarrow> bool" where
  "is_file_write_only a \<longleftrightarrow> a = {FileWrite}"

section \<open>Environment risk of a script\<close>

fun risk_level :: "env_risk \<Rightarrow> nat" where
  "risk_level Safe = 0"
| "risk_level Unvetted = 1"
| "risk_level Injection = 2"

instantiation env_risk :: linorder
begin

definition less_eq_env_risk :: "env_risk \<Rightarrow> env_risk \<Rightarrow> bool" where
  "less_eq_env_risk r s \<longleftrightarrow> risk_level r \<le> risk_level s"

definition less_env_risk :: "env_risk \<Rightarrow> env_risk \<Rightarrow> bool" where
  "less_env_risk r s \<longleftrightarrow> risk_level r < risk_level s"

instance
proof
  show "r \<le> s \<Longrightarrow> s \<le> r \<Longrightarrow> r = s" for r s :: env_risk
    by (cases r; cases s) (simp_all add: less_eq_env_risk_def)
qed (auto simp: less_eq_env_risk_def less_env_risk_def)

end

definition assignment_key :: "node \<Rightarrow> string \<Rightarrow> string" where
  "assignment_key n src =
     (case List.find (\<lambda>c. kind c = ''variable_name'' \<and> utf8_text src c \<noteq> None) (children n) of
        Some c \<Rightarrow> the (utf8_text src c)
      | None \<Rightarrow> (case utf8_text src n of Some t \<Rightarrow> before_eq t | None \<Rightarrow> []))"

function assignment_risk :: "string \<Rightarrow> node list \<Rightarrow> env_risk \<Rightarrow> env_risk" where
  "assignment_risk src [] risk = risk"
| "assignment_risk src (n # stack) risk =
     assignment_risk src (rev (children n) @ stack)
       (if kind n = ''variable_assignment'' then max risk (env_key_risk (assignment_key n src)) else risk)"
  by pat_completeness auto
termination
  by (relation "measure (\<lambda>(_, stack, _). sum_list (map size stack))")
    (auto simp: rev_map [symmetric] size_children)

text \<open>The arguments of one \<open>env\<close>: nothing when an option makes the whole command an injection.\<close>

fun env_args_risk :: "bool \<Rightarrow> string list \<Rightarrow> env_risk \<Rightarrow> env_risk option" where
  "env_args_risk options_done [] risk = Some risk"
| "env_args_risk options_done (arg # args) risk =
     (if arg = ''--'' then env_args_risk True args risk
      else if \<not> options_done \<and> starts_with arg ''-'' then None
      else if CHR ''='' \<in> set arg then env_args_risk options_done args (max risk (env_key_risk (before_eq arg)))
      else Some risk)"

fun command_env_loop :: "nat \<Rightarrow> string list \<Rightarrow> env_risk \<Rightarrow> env_risk" where
  "command_env_loop 0 current risk = risk"
| "command_env_loop (Suc n) current risk =
     (case (if current \<noteq> [] \<and> basename (hd current) = ''env'' then env_args_risk False (tl current) risk
            else Some risk) of
        None \<Rightarrow> Injection
      | Some r \<Rightarrow>
          (case strip_wrapper_command current of
             Some inner \<Rightarrow> command_env_loop n inner r
           | None \<Rightarrow> r))"

definition command_env_risk :: "string list \<Rightarrow> env_risk" where
  "command_env_risk words = command_env_loop 8 words Safe"

definition script_env_risk :: "node \<Rightarrow> string \<Rightarrow> plain_command list \<Rightarrow> env_risk" where
  "script_env_risk root src cmds =
     fold (\<lambda>c risk. max risk (command_env_risk (pc_words c))) cmds (assignment_risk src [root] Safe)"

section \<open>Safe commands\<close>

definition rg_has_pre_flag :: "string list \<Rightarrow> bool" where
  "rg_has_pre_flag words \<longleftrightarrow>
     normalized_command_head words = Some ''rg'' \<and>
     list_ex (\<lambda>w. w = ''--pre'' \<or> starts_with w ''--pre='') words"

definition KUBECTL_UNSAFE_FLAGS :: "string list" where
  "KUBECTL_UNSAFE_FLAGS =
     [''--kubeconfig'', ''--context'', ''--cluster'', ''--server'', ''-s'', ''--token'', ''--user'', ''--as'',
      ''--as-group'', ''--as-uid'', ''--as-user-extra'', ''--username'', ''--password'',
      ''--client-certificate'', ''--client-key'', ''--certificate-authority'']"

definition kubectl_has_unsafe_flag :: "string list \<Rightarrow> bool" where
  "kubectl_has_unsafe_flag words \<longleftrightarrow>
     normalized_command_head words = Some ''kubectl'' \<and>
     list_ex (\<lambda>w. before_eq w \<in> set KUBECTL_UNSAFE_FLAGS) (tl words)"

definition PS_VALUE_OPTIONS :: "string list" where
  "PS_VALUE_OPTIONS =
     [''-o'', ''-O'', ''--format'', ''--sort'', ''-p'', ''-q'', ''-t'', ''-u'', ''-U'', ''-g'', ''-G'', ''-C'',
      ''-s'', ''--pid'', ''--ppid'', ''--sid'', ''--tty'', ''--user'', ''--group'', ''--cols'', ''--columns'',
      ''--width'', ''o'', ''O'']"

fun ps_loop :: "string list \<Rightarrow> bool" where
  "ps_loop [] = False"
| "ps_loop (s # rest) =
     (let rest_after_value = (case rest of [] \<Rightarrow> False | _ # rest' \<Rightarrow> ps_loop rest');
          cluster = starts_with s ''-'' \<and> \<not> starts_with s ''--''
      in if starts_with s ''--format='' \<or> starts_with s ''--sort='' then ps_loop rest
         else if s \<in> set PS_VALUE_OPTIONS then rest_after_value
         else if starts_with s ''-o'' \<or> starts_with s ''-O'' then ps_loop rest
         else if CHR ''E'' \<in> set s \<or>
           CHR ''e'' \<in> set s \<and> (\<not> starts_with s ''-'' \<or> cluster \<and> (CHR ''a'' \<in> set s \<or> CHR ''x'' \<in> set s))
         then True
         else if cluster \<and> (last s = CHR ''o'' \<or> last s = CHR ''O'') then rest_after_value
         else ps_loop rest)"

definition ps_dumps_environment :: "string list \<Rightarrow> bool" where
  "ps_dumps_environment words \<longleftrightarrow> normalized_command_head words = Some ''ps'' \<and> ps_loop (tl words)"

definition is_safe_git_query_prefix :: "string \<Rightarrow> bool" where
  "is_safe_git_query_prefix cmd =
     (case strip_prefix cmd ''git '' of
        Some rest \<Rightarrow> list_ex (matches_command_prefix rest) SAFE_GIT_SUBCOMMANDS
      | None \<Rightarrow> False)"

definition safe_prefixes :: "string list" where
  "safe_prefixes =
     [''ls'', ''cat'', ''pwd'', ''date'', ''whoami'', ''hostname'', ''uptime'', ''grep'', ''rg'', ''kubectl get'',
      ''kubectl logs'', ''kubectl describe'', ''ps'', ''bin/explorer ls'', ''head'', ''tail'', ''wc'', ''sort'',
      ''uniq'', ''tr'', ''cut'', ''echo'', ''printf'']"

definition is_safe_command_words_str :: "string \<Rightarrow> bool" where
  "is_safe_command_words_str cmd \<longleftrightarrow>
     list_ex (matches_command_prefix cmd) safe_prefixes \<or> is_safe_git_query_prefix cmd"

definition is_safe_command_words :: "string list \<Rightarrow> bool" where
  "is_safe_command_words words =
     (if words = [] then False
      else if rg_has_pre_flag words then False
      else if kubectl_has_unsafe_flag words then False
      else if ps_dumps_environment words then False
      else if hd words = ''git'' then git_words_are_read_only_query words
      else is_safe_command_words_str (join '' '' words))"

definition ALWAYS_SAFE_COMMANDS :: "string list" where
  "ALWAYS_SAFE_COMMANDS =
     [''ls'', ''cat'', ''pwd'', ''date'', ''whoami'', ''hostname'', ''uptime'', ''ps'', ''grep'', ''rg'',
      ''kubectl get'', ''kubectl logs'', ''kubectl describe'', ''bin/explorer ls'']"

definition is_safe_creation_command :: "string list \<Rightarrow> bool" where
  "is_safe_creation_command words \<longleftrightarrow> words \<noteq> [] \<and> is_creation_program (hd words)"

definition is_always_safe_command_words :: "string list \<Rightarrow> bool" where
  "is_always_safe_command_words words =
     (if words = [] then False
      else if rg_has_pre_flag words then False
      else if kubectl_has_unsafe_flag words then False
      else if ps_dumps_environment words then False
      else if hd words = ''git'' then git_words_are_read_only_query words
      else list_ex (matches_command_prefix (join '' '' words)) ALWAYS_SAFE_COMMANDS)"

section \<open>Dangerous verbs and scopes\<close>

definition dangerous_prefixes :: "string list" where
  "dangerous_prefixes =
     [''rm'', ''chmod'', ''chown'', ''chgrp'', ''chattr'', ''pkill'', ''kill'', ''killall'', ''git push'']"

definition is_dangerous_command_words :: "string list \<Rightarrow> bool" where
  "is_dangerous_command_words words =
     (case normalized_command_head words of
        None \<Rightarrow> False
      | Some head \<Rightarrow>
          (let joined = (if length words = 1 then head else head @ '' '' @ join '' '' (tl words))
           in list_ex (matches_command_prefix joined) dangerous_prefixes))"

definition always_allow_scope_pinned :: "string list \<Rightarrow> bool" where
  "always_allow_scope_pinned words \<longleftrightarrow>
     is_dangerous_command_words words \<or> head_is_exec_vehicle words \<or>
     normalized_command_head words = Some ''sed''"

definition gh_always_allow_scope :: "string list \<Rightarrow> nat option" where
  "gh_always_allow_scope words =
     (if normalized_command_head words \<noteq> Some ''gh'' then None
      else Some (case words of
          _ # grp # verb # _ \<Rightarrow>
            (if \<not> starts_with grp ''-'' \<and> \<not> starts_with verb ''-'' then 3 else length words)
        | _ \<Rightarrow> length words))"

definition base_scope :: "string list \<Rightarrow> nat" where
  "base_scope words =
     (if is_safe_command_words words \<and> is_safe_command_words_str (hd words) then 1
      else if is_safe_command_words words \<and> 2 \<le> length words \<and> is_safe_command_words_str (join '' '' (take 2 words))
      then 2
      else (let n = min (length words) 2
            in n + length (takeWhile (\<lambda>w. starts_with w ''-'') (drop n words))))"

definition default_always_allow_scope :: "string list \<Rightarrow> nat" where
  "default_always_allow_scope words =
     (if words = [] then 0
      else if always_allow_scope_pinned words then length words
      else (case gh_always_allow_scope words of Some n \<Rightarrow> n | None \<Rightarrow> base_scope words))"

definition default_always_deny_scope :: "string list \<Rightarrow> nat" where
  "default_always_deny_scope words = (if words = [] then 0 else base_scope words)"

definition minimum_always_allow_scope :: "string list \<Rightarrow> nat" where
  "minimum_always_allow_scope words =
     (if always_allow_scope_pinned words then length words
      else (case gh_always_allow_scope words of Some n \<Rightarrow> n | None \<Rightarrow> 1))"

section \<open>Remembered answers\<close>

datatype edit_policy = EditAsk | EditAllow | EditReject

definition VALIDATED_MCP_SERVER_GRANTS_VERSION :: int where
  "VALIDATED_MCP_SERVER_GRANTS_VERSION = 1"

record permission_state =
  edit_policy :: edit_policy
  allow_bash_execute :: bool
  allowed_bash_commands :: "string list"
  disallowed_bash_commands :: "string list"
  allowed_bash_globs :: "string list"
  allowed_web_fetch_domains :: "string list"
  allowed_mcp_tools :: "string list"
  allowed_mcp_servers :: "string list"
  disallowed_mcp_tools :: "string list"
  disallowed_web_fetch_domains :: "string list"
  validated_mcp_server_grants_version :: int

definition default_state :: permission_state where
  "default_state =
     \<lparr>edit_policy = EditAsk, allow_bash_execute = False, allowed_bash_commands = [],
      disallowed_bash_commands = [], allowed_bash_globs = [], allowed_web_fetch_domains = [],
      allowed_mcp_tools = [], allowed_mcp_servers = [], disallowed_mcp_tools = [],
      disallowed_web_fetch_domains = [],
      validated_mcp_server_grants_version = VALIDATED_MCP_SERVER_GRANTS_VERSION\<rparr>"

definition has_explicit_denials :: "permission_state \<Rightarrow> bool" where
  "has_explicit_denials st \<longleftrightarrow>
     disallowed_bash_commands st \<noteq> [] \<or> disallowed_mcp_tools st \<noteq> [] \<or> disallowed_web_fetch_domains st \<noteq> []"

definition hs_insert :: "string \<Rightarrow> string list \<Rightarrow> string list" where
  "hs_insert x xs = (if x \<in> set xs then xs else xs @ [x])"

lemma set_hs_insert [simp]: "set (hs_insert x xs) = insert x (set xs)"
  by (auto simp: hs_insert_def)

definition hs_extend :: "string list \<Rightarrow> string list \<Rightarrow> string list" where
  "hs_extend xs ys = fold hs_insert ys xs"

lemma set_hs_extend [simp]: "set (hs_extend xs ys) = set xs \<union> set ys"
  unfolding hs_extend_def by (induction ys arbitrary: xs) auto

definition merge_grants_from :: "permission_state \<Rightarrow> permission_state \<Rightarrow> permission_state" where
  "merge_grants_from st other =
     st\<lparr>allow_bash_execute := allow_bash_execute st \<or> allow_bash_execute other,
        allowed_bash_commands := hs_extend (allowed_bash_commands st) (allowed_bash_commands other),
        disallowed_bash_commands := hs_extend (disallowed_bash_commands st) (disallowed_bash_commands other),
        allowed_bash_globs := hs_extend (allowed_bash_globs st) (allowed_bash_globs other),
        allowed_web_fetch_domains := hs_extend (allowed_web_fetch_domains st) (allowed_web_fetch_domains other),
        allowed_mcp_tools := hs_extend (allowed_mcp_tools st) (allowed_mcp_tools other),
        allowed_mcp_servers := hs_extend (allowed_mcp_servers st) (allowed_mcp_servers other),
        disallowed_mcp_tools := hs_extend (disallowed_mcp_tools st) (disallowed_mcp_tools other),
        disallowed_web_fetch_domains :=
          hs_extend (disallowed_web_fetch_domains st) (disallowed_web_fetch_domains other)\<rparr>"

section \<open>Evaluation of a script\<close>

datatype segment_evaluation =
    AutoAllow bool
  | SegReject string
  | NeedsPrompts "string list"
  | Unparseable

record bash_evaluation =
  be_segments :: segment_evaluation
  exact_grant :: bool
  all_segments_granted :: bool
  assessment :: security_assessment
  redirect_write :: bool
  ambient_segments :: "string list list option"
  be_creation_paths :: "string list"
  has_cwd_change :: bool
  recovered_eligible :: bool

definition env_risk_finding :: "env_risk \<Rightarrow> security_assessment" where
  "env_risk_finding r = (case r of Injection \<Rightarrow> {EnvInjection} | Unvetted \<Rightarrow> {UnvettedEnv} | Safe \<Rightarrow> {})"

definition rejection_text :: "string \<Rightarrow> string" where
  "rejection_text d =
     ''User previously rejected '' @ [CHR 0x60] @ d @ [CHR 0x60] @ '' in this project''"

definition raw_deny_rejection :: "string \<Rightarrow> permission_state \<Rightarrow> segment_evaluation option" where
  "raw_deny_rejection cmd st =
     map_option (\<lambda>d. SegReject (rejection_text d))
       (List.find (matches_command_prefix cmd) (disallowed_bash_commands st))"

definition words_join_unambiguously :: "policy_env \<Rightarrow> string list \<Rightarrow> bool" where
  "words_join_unambiguously env words =
     (case all_commands_from_script (shell_parse env) (join '' '' words) of
        Some [only] \<Rightarrow> spans_whole_script only (join '' '' words) \<and> pc_words only = words
      | _ \<Rightarrow> False)"

definition whole_script_grant :: "policy_env \<Rightarrow> string \<Rightarrow> plain_command list \<Rightarrow> permission_state \<Rightarrow> bool" where
  "whole_script_grant env cmd segs st =
     (if cmd \<in> set (allowed_bash_commands st) then True
      else (case segs of
              [only] \<Rightarrow>
                spans_whole_script only cmd \<and> words_join_unambiguously env (pc_words only) \<and>
                join '' '' (pc_words only) \<in> set (allowed_bash_commands st)
            | _ \<Rightarrow> False))"

record segment_facts =
  needs_prompt :: "string list"
  via_session_grant :: bool
  granted_so_far :: bool
  seen_exec_risk :: bool
  has_git_command :: bool
  ambient_raw :: "string list list"
  facts_found :: security_assessment

definition matched_grant :: "policy_env \<Rightarrow> permission_state \<Rightarrow> string list \<Rightarrow> bool" where
  "matched_grant env st words =
     (let s = join '' '' words
      in (if always_allow_scope_pinned words then s \<in> set (allowed_bash_commands st)
          else list_ex (matches_command_prefix s) (allowed_bash_commands st)) \<or>
         list_ex (\<lambda>g. bash_pattern_matches_command env g s) (allowed_bash_globs st))"

definition special_exec_surface :: "string list \<Rightarrow> bool" where
  "special_exec_surface words \<longleftrightarrow>
     kubectl_has_unsafe_flag words \<or> rg_has_pre_flag words \<or> ps_dumps_environment words \<or>
     git_words_have_unsafe_query_option words"

definition matched_safe :: "string list \<Rightarrow> bool" where
  "matched_safe words \<longleftrightarrow>
     is_safe_command_words words \<or> is_always_safe_command_words words \<or> is_safe_creation_command words"

text \<open>The findings and flags every segment adds, a setup command included.\<close>

definition scan_segment :: "string list \<Rightarrow> segment_facts \<Rightarrow> segment_facts" where
  "scan_segment raw_words acc =
     (let words = unwrap_wrappers raw_words; facts = segment_exec_facts_of raw_words
      in acc\<lparr>ambient_raw := ambient_raw acc @ [raw_words],
             seen_exec_risk := seen_exec_risk acc \<or> exec_risk facts,
             has_git_command := has_git_command acc \<or> has_git facts,
             facts_found := facts_found acc \<union>
               (if words_are_opaque_shell (map ShLiteral words) then {OpaqueShell} else {}) \<union>
               (if exec_risk facts then {ExecOrAmbientGit} else {})\<rparr>)"

text \<open>One segment that no earlier refusal matches.\<close>

definition weigh_segment ::
  "policy_env \<Rightarrow> permission_state \<Rightarrow> bool \<Rightarrow> string list \<Rightarrow> segment_facts \<Rightarrow> segment_facts" where
  "weigh_segment env st honor_safe_lists words acc0 =
     (let s = join '' '' words; granted = matched_grant env st words;
          acc = acc0\<lparr>granted_so_far := granted_so_far acc0 \<and> granted\<rparr>
      in if is_dangerous_command_words words then
           acc\<lparr>facts_found := insert DangerousCommand (facts_found acc), needs_prompt := needs_prompt acc @ [s]\<rparr>
         else if special_exec_surface words \<and> s \<notin> set (allowed_bash_commands st) then
           acc\<lparr>facts_found := insert SpecialExecSurface (facts_found acc), needs_prompt := needs_prompt acc @ [s]\<rparr>
         else if granted \<or> (honor_safe_lists \<and> matched_safe words) then
           acc\<lparr>via_session_grant := via_session_grant acc \<or> granted\<rparr>
         else acc\<lparr>needs_prompt := needs_prompt acc @ [s]\<rparr>)"

text \<open>The loop over the segments; a refusal ends it with its message and what was found until then.\<close>

fun segments_loop ::
  "policy_env \<Rightarrow> permission_state \<Rightarrow> bool \<Rightarrow> string list list \<Rightarrow> segment_facts \<Rightarrow> string option \<times> segment_facts" where
  "segments_loop env st h [] acc = (None, acc)"
| "segments_loop env st h (raw_words # rest) acc =
     (let words = unwrap_wrappers raw_words; acc1 = scan_segment raw_words acc
      in if is_setup_command words then segments_loop env st h rest acc1
         else (case List.find (matches_command_prefix (join '' '' words)) (disallowed_bash_commands st) of
                 Some d \<Rightarrow> (Some d, acc1)
               | None \<Rightarrow> segments_loop env st h rest (weigh_segment env st h words acc1)))"

definition write_findings :: "write_paths_split \<Rightarrow> bool \<times> security_assessment" where
  "write_findings writes =
     (let redirect = unextracted_write_redirect writes \<or> list_ex (\<lambda>p. \<not> is_safe_write_sink p) (redirect_paths writes)
      in (redirect, if redirect \<or> list_ex (\<lambda>p. \<not> is_safe_write_sink p) (word_paths writes) then {FileWrite} else {}))"

text \<open>A script whose commands could not be told apart: it is judged by what could be recovered.\<close>

definition projection_findings :: "string list \<Rightarrow> security_assessment" where
  "projection_findings projection =
     (let words = unwrap_wrappers projection
      in (if is_dangerous_command_words words then {DangerousCommand} else {}) \<union>
         (if rg_has_pre_flag words then {SpecialExecSurface} else {}) \<union>
         (if exec_risk (segment_exec_facts_of words) then {ExecOrAmbientGit} else {}))"

definition projection_rejection :: "string list list \<Rightarrow> permission_state \<Rightarrow> segment_evaluation option" where
  "projection_rejection ps st =
     (case List.find (\<lambda>words. raw_deny_rejection (join '' '' (unwrap_wrappers words)) st \<noteq> None) ps of
        Some words \<Rightarrow> raw_deny_rejection (join '' '' (unwrap_wrappers words)) st
      | None \<Rightarrow> None)"

definition or_unparseable :: "segment_evaluation option \<Rightarrow> segment_evaluation" where
  "or_unparseable r = (case r of Some e \<Rightarrow> e | None \<Rightarrow> Unparseable)"

definition unparsed_evaluation :: "string \<Rightarrow> permission_state \<Rightarrow> bash_evaluation" where
  "unparsed_evaluation cmd st =
     \<lparr>be_segments = or_unparseable (raw_deny_rejection cmd st),
      exact_grant = cmd \<in> set (allowed_bash_commands st), all_segments_granted = False,
      assessment = {UnparseableShell} \<union> (if script_may_invoke_git cmd then {ExecOrAmbientGit} else {}),
      redirect_write = True, ambient_segments = None, be_creation_paths = [], has_cwd_change = False,
      recovered_eligible = False\<rparr>"

definition recovered_evaluation ::
  "tree \<Rightarrow> string \<Rightarrow> permission_state \<Rightarrow> bool \<times> security_assessment \<Rightarrow> security_assessment \<Rightarrow> bash_evaluation" where
  "recovered_evaluation t cmd st writes env_found =
     (let recovery = analyze t cmd; ps = projections recovery
      in \<lparr>be_segments = or_unparseable
            (case raw_deny_rejection cmd st of Some e \<Rightarrow> Some e | None \<Rightarrow> projection_rejection ps st),
          exact_grant = cmd \<in> set (allowed_bash_commands st), all_segments_granted = False,
          assessment = snd writes \<union> env_found \<union>
            (if has_unresolved recovery then {UnresolvedArg} else {}) \<union>
            (\<Union>p\<in>set ps. projection_findings p) \<union>
            (if eligible recovery then {} else {UnparseableShell}) \<union>
            (if tree_has_opaque_shell (root_node t) cmd then {OpaqueShell} else {}) \<union>
            (if script_may_invoke_git cmd then {ExecOrAmbientGit} else {}),
          redirect_write = fst writes \<or> \<not> eligible recovery, ambient_segments = None,
          be_creation_paths = [], has_cwd_change = False, recovered_eligible = eligible recovery\<rparr>)"

definition no_facts :: "security_assessment \<Rightarrow> segment_facts" where
  "no_facts found =
     \<lparr>needs_prompt = [], via_session_grant = False, granted_so_far = True, seen_exec_risk = False,
      has_git_command = False, ambient_raw = [], facts_found = found\<rparr>"

definition segmented_evaluation ::
  "policy_env \<Rightarrow> tree \<Rightarrow> string \<Rightarrow> permission_state \<Rightarrow> bool \<Rightarrow> bool \<times> security_assessment \<Rightarrow> security_assessment \<Rightarrow>
   plain_command list \<Rightarrow> bash_evaluation" where
  "segmented_evaluation env t cmd st h writes env_found segs =
     (case segments_loop env st h (map pc_words segs) (no_facts (snd writes \<union> env_found)) of
        (Some d, acc) \<Rightarrow>
          \<lparr>be_segments = SegReject (rejection_text d), exact_grant = whole_script_grant env cmd segs st,
           all_segments_granted = granted_so_far acc, assessment = facts_found acc, redirect_write = fst writes,
           ambient_segments = None, be_creation_paths = [], has_cwd_change = False, recovered_eligible = False\<rparr>
      | (None, acc) \<Rightarrow>
          \<lparr>be_segments = (if needs_prompt acc = [] then AutoAllow (via_session_grant acc)
                          else NeedsPrompts (needs_prompt acc)),
           exact_grant = whole_script_grant env cmd segs st,
           all_segments_granted = granted_so_far acc, assessment = facts_found acc, redirect_write = fst writes,
           ambient_segments = (if has_git_command acc \<and> \<not> seen_exec_risk acc then Some (ambient_raw acc) else None),
           be_creation_paths = creation_paths (command_write_paths_split (root_node t) cmd),
           has_cwd_change = script_has_cwd_change (root_node t) cmd, recovered_eligible = False\<rparr>)"

definition evaluate_bash :: "policy_env \<Rightarrow> string \<Rightarrow> permission_state \<Rightarrow> bool \<Rightarrow> bash_evaluation" where
  "evaluate_bash env cmd st honor_safe_lists =
     (case shell_parse env cmd of
        None \<Rightarrow> unparsed_evaluation cmd st
      | Some t \<Rightarrow>
          (let writes = write_findings (command_write_paths_split (root_node t) cmd);
               segs = try_parse_word_only_commands_sequence t cmd;
               env_found = env_risk_finding
                 (script_env_risk (root_node t) cmd (case segs of Some ss \<Rightarrow> ss | None \<Rightarrow> []))
           in case segs of
                None \<Rightarrow> recovered_evaluation t cmd st writes env_found
              | Some ss \<Rightarrow> segmented_evaluation env t cmd st honor_safe_lists writes env_found ss))"

definition evaluate_bash_with_ambient ::
  "policy_env \<Rightarrow> (string \<Rightarrow> bool) \<Rightarrow> string \<Rightarrow> permission_state \<Rightarrow> string \<Rightarrow> bash_evaluation" where
  "evaluate_bash_with_ambient env repo_risk cmd st cwd =
     (let ev = evaluate_bash env cmd st True
      in case ambient_segments ev of
           None \<Rightarrow> ev
         | Some raw \<Rightarrow>
             (if ambient_exec_risk_from_plan repo_risk (ambient_scan_plan_from_segments raw cwd)
              then ev\<lparr>ambient_segments := None, assessment := insert ExecOrAmbientGit (assessment ev)\<rparr>
              else ev\<lparr>ambient_segments := None\<rparr>))"

section \<open>What the loop over the segments finds\<close>

text \<open>The segments that count: peeled of their wrappers, setup commands left out.\<close>

definition live_segments :: "string list list \<Rightarrow> string list list" where
  "live_segments raws = filter (\<lambda>w. \<not> is_setup_command w) (map unwrap_wrappers raws)"

definition denied_words :: "permission_state \<Rightarrow> string list \<Rightarrow> bool" where
  "denied_words st words \<longleftrightarrow> (\<exists>d\<in>set (disallowed_bash_commands st). matches_command_prefix (join '' '' words) d)"

definition needs_no_prompt :: "policy_env \<Rightarrow> permission_state \<Rightarrow> bool \<Rightarrow> string list \<Rightarrow> bool" where
  "needs_no_prompt env st h words \<longleftrightarrow>
     \<not> is_dangerous_command_words words \<and>
     (special_exec_surface words \<longrightarrow> join '' '' words \<in> set (allowed_bash_commands st)) \<and>
     (matched_grant env st words \<or> h \<and> matched_safe words)"

definition raw_findings :: "string list \<Rightarrow> security_assessment" where
  "raw_findings raw =
     (if words_are_opaque_shell (map ShLiteral (unwrap_wrappers raw)) then {OpaqueShell} else {}) \<union>
     (if exec_risk (segment_exec_facts_of raw) then {ExecOrAmbientGit} else {})"

definition weighed_findings :: "permission_state \<Rightarrow> string list \<Rightarrow> security_assessment" where
  "weighed_findings st words =
     (if is_dangerous_command_words words then {DangerousCommand}
      else if special_exec_surface words \<and> join '' '' words \<notin> set (allowed_bash_commands st)
      then {SpecialExecSurface} else {})"

lemma find_denied:
  "List.find (matches_command_prefix (join '' '' w)) (disallowed_bash_commands st) = None \<longleftrightarrow> \<not> denied_words st w"
  by (auto simp: find_None_iff denied_words_def)

lemma scan_segment_fields [simp]:
  "needs_prompt (scan_segment raw acc) = needs_prompt acc"
  "granted_so_far (scan_segment raw acc) = granted_so_far acc"
  "facts_found (scan_segment raw acc) = facts_found acc \<union> raw_findings raw"
  by (auto simp: scan_segment_def raw_findings_def Let_def)

lemma weigh_segment_fields [simp]:
  "needs_prompt (weigh_segment env st h w acc) = [] \<longleftrightarrow> needs_prompt acc = [] \<and> needs_no_prompt env st h w"
  "granted_so_far (weigh_segment env st h w acc) \<longleftrightarrow> granted_so_far acc \<and> matched_grant env st w"
  "facts_found (weigh_segment env st h w acc) = facts_found acc \<union> weighed_findings st w"
  by (auto simp: weigh_segment_def needs_no_prompt_def weighed_findings_def Let_def)

lemma segments_loop_rejects:
  "fst (segments_loop env st h raws acc) \<noteq> None \<longleftrightarrow> (\<exists>w\<in>set (live_segments raws). denied_words st w)"
proof (induction env st h raws acc rule: segments_loop.induct)
  case (2 env st h raw rest acc)
  show ?case
  proof (cases "is_setup_command (unwrap_wrappers raw)")
    case True
    with "2.IH"(1) show ?thesis by (simp add: live_segments_def Let_def)
  next
    case False
    show ?thesis
    proof (cases "denied_words st (unwrap_wrappers raw)")
      case True
      then obtain d where
        "List.find (matches_command_prefix (join '' '' (unwrap_wrappers raw))) (disallowed_bash_commands st) = Some d"
        using find_denied [of "unwrap_wrappers raw" st] by auto
      with True False show ?thesis by (simp add: live_segments_def Let_def)
    next
      case nd: False
      then have f: "List.find (matches_command_prefix (join '' '' (unwrap_wrappers raw))) (disallowed_bash_commands st) = None"
        by (simp add: find_denied)
      with "2.IH"(2) False nd show ?thesis by (simp add: live_segments_def Let_def)
    qed
  qed
qed (simp add: live_segments_def)

lemma segments_loop_result:
  assumes "\<forall>w\<in>set (live_segments raws). \<not> denied_words st w"
  shows "fst (segments_loop env st h raws acc) = None"
    and "needs_prompt (snd (segments_loop env st h raws acc)) = [] \<longleftrightarrow>
      needs_prompt acc = [] \<and> (\<forall>w\<in>set (live_segments raws). needs_no_prompt env st h w)"
    and "granted_so_far (snd (segments_loop env st h raws acc)) \<longleftrightarrow>
      granted_so_far acc \<and> (\<forall>w\<in>set (live_segments raws). matched_grant env st w)"
    and "facts_found (snd (segments_loop env st h raws acc)) =
      facts_found acc \<union> (\<Union>r\<in>set raws. raw_findings r) \<union> (\<Union>w\<in>set (live_segments raws). weighed_findings st w)"
proof -
  show "fst (segments_loop env st h raws acc) = None"
    using assms segments_loop_rejects by blast
  have "(needs_prompt (snd (segments_loop env st h raws acc)) = [] \<longleftrightarrow>
      needs_prompt acc = [] \<and> (\<forall>w\<in>set (live_segments raws). needs_no_prompt env st h w)) \<and>
    (granted_so_far (snd (segments_loop env st h raws acc)) \<longleftrightarrow>
      granted_so_far acc \<and> (\<forall>w\<in>set (live_segments raws). matched_grant env st w)) \<and>
    facts_found (snd (segments_loop env st h raws acc)) =
      facts_found acc \<union> (\<Union>r\<in>set raws. raw_findings r) \<union> (\<Union>w\<in>set (live_segments raws). weighed_findings st w)"
    using assms
  proof (induction env st h raws acc rule: segments_loop.induct)
    case (2 env st h raw rest acc)
    show ?case
    proof (cases "is_setup_command (unwrap_wrappers raw)")
      case True
      with 2 show ?thesis by (auto simp: live_segments_def Let_def)
    next
      case False
      with 2 have f: "List.find (matches_command_prefix (join '' '' (unwrap_wrappers raw))) (disallowed_bash_commands st) = None"
        by (simp add: find_denied live_segments_def)
      have n: "live_segments (raw # rest) = unwrap_wrappers raw # live_segments rest"
        using False by (simp add: live_segments_def)
      have nd: "\<forall>w\<in>set (live_segments rest). \<not> denied_words st w" using "2.prems" n by simp
      show ?thesis using "2.IH"(2) [OF refl refl False f nd] False f n by (simp add: Let_def conj_ac Un_ac)
    qed
  qed (simp add: live_segments_def)
  then show "needs_prompt (snd (segments_loop env st h raws acc)) = [] \<longleftrightarrow>
      needs_prompt acc = [] \<and> (\<forall>w\<in>set (live_segments raws). needs_no_prompt env st h w)"
    "granted_so_far (snd (segments_loop env st h raws acc)) \<longleftrightarrow>
      granted_so_far acc \<and> (\<forall>w\<in>set (live_segments raws). matched_grant env st w)"
    "facts_found (snd (segments_loop env st h raws acc)) =
      facts_found acc \<union> (\<Union>r\<in>set raws. raw_findings r) \<union> (\<Union>w\<in>set (live_segments raws). weighed_findings st w)"
    by blast+
qed

section \<open>Which scripts an earlier refusal rejects\<close>

inductive session_denied :: "policy_env \<Rightarrow> string \<Rightarrow> string \<Rightarrow> bool" for env cmd d where
  whole_text: "all_commands_from_script (shell_parse env) cmd = None \<Longrightarrow> matches_command_prefix cmd d \<Longrightarrow>
    session_denied env cmd d"
| recovered_command: "all_commands_from_script (shell_parse env) cmd = None \<Longrightarrow> shell_parse env cmd = Some t \<Longrightarrow>
    p \<in> set (projections (analyze t cmd)) \<Longrightarrow> matches_command_prefix (join '' '' (unwrap_wrappers p)) d \<Longrightarrow>
    session_denied env cmd d"
| plain_segment: "all_commands_from_script (shell_parse env) cmd = Some segs \<Longrightarrow>
    w \<in> set (live_segments (map pc_words segs)) \<Longrightarrow> matches_command_prefix (join '' '' w) d \<Longrightarrow>
    session_denied env cmd d"

inductive_simps session_denied_iff: "session_denied env cmd d"

lemma raw_deny_iff: "raw_deny_rejection cmd st \<noteq> None \<longleftrightarrow> (\<exists>d\<in>set (disallowed_bash_commands st). matches_command_prefix cmd d)"
  by (auto simp: raw_deny_rejection_def find_None_iff)

lemma raw_deny_shape: "raw_deny_rejection cmd st = Some e \<Longrightarrow> \<exists>d. e = SegReject d"
  by (auto simp: raw_deny_rejection_def)

lemma projection_rejection_iff:
  "projection_rejection ps st \<noteq> None \<longleftrightarrow>
     (\<exists>p\<in>set ps. \<exists>d\<in>set (disallowed_bash_commands st). matches_command_prefix (join '' '' (unwrap_wrappers p)) d)"
proof (cases "List.find (\<lambda>words. raw_deny_rejection (join '' '' (unwrap_wrappers words)) st \<noteq> None) ps")
  case None
  then have "\<forall>w\<in>set ps. raw_deny_rejection (join '' '' (unwrap_wrappers w)) st = None"
    by (simp add: find_None_iff)
  with None show ?thesis unfolding projection_rejection_def raw_deny_iff [symmetric] by simp
next
  case (Some w)
  then have "w \<in> set ps" "raw_deny_rejection (join '' '' (unwrap_wrappers w)) st \<noteq> None"
    by (auto simp: find_Some_iff)
  with Some show ?thesis unfolding projection_rejection_def raw_deny_iff [symmetric] by auto
qed

lemma projection_rejection_shape: "projection_rejection ps st = Some e \<Longrightarrow> \<exists>d. e = SegReject d"
  by (auto simp: projection_rejection_def dest: raw_deny_shape split: option.splits)

lemma evaluate_rejects:
  "(\<exists>r. be_segments (evaluate_bash env cmd st h) = SegReject r) \<longleftrightarrow>
     (\<exists>d\<in>set (disallowed_bash_commands st). session_denied env cmd d)"
proof (cases "shell_parse env cmd")
  case None
  then have "all_commands_from_script (shell_parse env) cmd = None" by (simp add: all_commands_from_script_def)
  with None show ?thesis
    using raw_deny_iff [of cmd st] raw_deny_shape [of cmd st]
    by (cases "raw_deny_rejection cmd st")
      (auto simp: evaluate_bash_def unparsed_evaluation_def or_unparseable_def session_denied_iff)
next
  case (Some t)
  show ?thesis
  proof (cases "try_parse_word_only_commands_sequence t cmd")
    case None
    have a: "all_commands_from_script (shell_parse env) cmd = None"
      using Some None by (simp add: all_commands_from_script_def)
    let ?e = "case raw_deny_rejection cmd st of Some e \<Rightarrow> Some e | None \<Rightarrow> projection_rejection (projections (analyze t cmd)) st"
    have "be_segments (evaluate_bash env cmd st h) = or_unparseable ?e"
      using Some None by (simp add: evaluate_bash_def recovered_evaluation_def Let_def)
    moreover have "(\<exists>r. or_unparseable ?e = SegReject r) \<longleftrightarrow>
        raw_deny_rejection cmd st \<noteq> None \<or> projection_rejection (projections (analyze t cmd)) st \<noteq> None"
      using raw_deny_shape [of cmd st] projection_rejection_shape [of "projections (analyze t cmd)" st]
      by (auto simp: or_unparseable_def split: option.splits)
    ultimately show ?thesis
      unfolding raw_deny_iff projection_rejection_iff using a Some by (auto simp: session_denied_iff)
  next
    case segs: (Some ss)
    have a: "all_commands_from_script (shell_parse env) cmd = Some ss"
      using Some segs by (simp add: all_commands_from_script_def)
    have "(\<exists>r. be_segments (segmented_evaluation env t cmd st h wr ef ss) = SegReject r) \<longleftrightarrow>
        fst (segments_loop env st h (map pc_words ss) (no_facts (snd wr \<union> ef))) \<noteq> None" for wr ef
      unfolding segmented_evaluation_def by (auto split: prod.splits option.splits if_splits)
    then have "(\<exists>r. be_segments (evaluate_bash env cmd st h) = SegReject r) \<longleftrightarrow>
        (\<exists>w\<in>set (live_segments (map pc_words ss)). denied_words st w)"
      using Some segs by (simp add: evaluate_bash_def Let_def segments_loop_rejects del: not_None_eq)
    then show ?thesis using a by (auto simp: session_denied_iff denied_words_def)
  qed
qed

text \<open>The findings that do not depend on what was remembered.\<close>

definition script_findings :: "tree \<Rightarrow> string \<Rightarrow> plain_command list \<Rightarrow> security_assessment" where
  "script_findings t cmd segs =
     snd (write_findings (command_write_paths_split (root_node t) cmd)) \<union>
     env_risk_finding (script_env_risk (root_node t) cmd segs) \<union>
     (\<Union>r\<in>set (map pc_words segs). raw_findings r)"

lemma evaluate_segmented:
  fixes h :: bool
  assumes "shell_parse env cmd = Some t" and "try_parse_word_only_commands_sequence t cmd = Some segs"
    and "\<not> (\<exists>d\<in>set (disallowed_bash_commands st). session_denied env cmd d)"
  defines "ev \<equiv> evaluate_bash env cmd st h" and "live \<equiv> live_segments (map pc_words segs)"
  shows "if \<forall>w\<in>set live. needs_no_prompt env st h w then \<exists>v. be_segments ev = AutoAllow v
         else \<exists>ps. be_segments ev = NeedsPrompts ps"
    and "exact_grant ev = whole_script_grant env cmd segs st"
    and "all_segments_granted ev \<longleftrightarrow> (\<forall>w\<in>set live. matched_grant env st w)"
    and "assessment ev = script_findings t cmd segs \<union> (\<Union>w\<in>set live. weighed_findings st w)"
proof -
  have nd: "\<forall>w\<in>set (live_segments (map pc_words segs)). \<not> denied_words st w"
    using assms(1-3) by (auto simp: session_denied_iff denied_words_def all_commands_from_script_def)
  define w where "w = write_findings (command_write_paths_split (root_node t) cmd)"
  define f where "f = env_risk_finding (script_env_risk (root_node t) cmd segs)"
  obtain acc where acc: "segments_loop env st h (map pc_words segs) (no_facts (snd w \<union> f)) = (None, acc)"
    using segments_loop_result(1) [OF nd] by (metis prod.collapse)
  have ev: "ev = segmented_evaluation env t cmd st h w f segs"
    unfolding ev_def evaluate_bash_def using assms(1,2) by (simp add: Let_def w_def f_def)
  note r = segments_loop_result(2-4) [OF nd, of env h "no_facts (snd w \<union> f)", unfolded acc, simplified no_facts_def, simplified]
  show "if \<forall>w\<in>set live. needs_no_prompt env st h w then \<exists>v. be_segments ev = AutoAllow v
         else \<exists>ps. be_segments ev = NeedsPrompts ps"
    using r(1) by (simp add: ev segmented_evaluation_def acc live_def)
  show "exact_grant ev = whole_script_grant env cmd segs st"
    by (simp add: ev segmented_evaluation_def acc)
  show "all_segments_granted ev \<longleftrightarrow> (\<forall>w\<in>set live. matched_grant env st w)"
    using r(2) by (simp add: ev segmented_evaluation_def acc live_def)
  show "assessment ev = script_findings t cmd segs \<union> (\<Union>w\<in>set live. weighed_findings st w)"
    using r(3) by (simp add: ev segmented_evaluation_def acc live_def script_findings_def w_def [symmetric] f_def [symmetric])
qed

end
