(* ===== verification/Mcp_Names.thy ===== *)
theory Mcp_Names
  imports Rust_Std
begin

text \<open>
  The qualified names of MCP tools, \<open>xai-grok-mcp/src/tool_name.rs\<close>, with the well-formedness of tool ids
  from \<open>xai-tool-protocol/src/ids.rs\<close>: admission of a listed tool into the catalog of a session and parsing
  of \<open>server__tool\<close>. The theory shows that a name admitted for a server and a tool parses back to them.
\<close>

definition MCP_TOOL_NAME_DELIMITER :: string where
  "MCP_TOOL_NAME_DELIMITER = ''__''"

definition PROVIDER_TOOL_NAME_MAX_CHARS :: nat where "PROVIDER_TOOL_NAME_MAX_CHARS = 64"
definition MCP_QUALIFIED_NAME_MAX_CHARS :: nat where "MCP_QUALIFIED_NAME_MAX_CHARS = 256"

datatype mcp_tool_admission_error =
    InvalidServerName string
  | InvalidToolName string
  | QualifiedNameTooLong string nat nat
  | InvalidOrAmbiguousQualifiedName string

section \<open>Tool ids\<close>

definition is_id_char :: "char \<Rightarrow> bool" where
  "is_id_char c \<longleftrightarrow> is_ascii_alphanumeric c \<or> c = CHR ''_'' \<or> c = CHR ''-''"

definition is_valid_segment :: "string \<Rightarrow> bool" where
  "is_valid_segment s \<longleftrightarrow> s \<noteq> [] \<and> list_all is_id_char s"

definition is_well_formed_tool_id :: "string \<Rightarrow> bool" where
  "is_well_formed_tool_id s =
     (case split_on (CHR '':'') s of
        [first] \<Rightarrow> is_valid_segment first
      | [first, second] \<Rightarrow> is_valid_segment first \<and> is_valid_segment second
      | _ \<Rightarrow> False)"

definition tool_id_new :: "string \<Rightarrow> string option" where
  "tool_id_new v = (if v = [] then None else if is_well_formed_tool_id v then Some v else None)"

section \<open>Names\<close>

definition is_mcp_name_segment :: "string \<Rightarrow> bool" where
  "is_mcp_name_segment name \<longleftrightarrow>
     name \<noteq> [] \<and> list_all (\<lambda>c. is_ascii_alphanumeric c \<or> c = CHR ''_'' \<or> c = CHR ''-'') name"

definition starts_with_letter_or_underscore :: "string \<Rightarrow> bool" where
  "starts_with_letter_or_underscore name =
     (case name of c # _ \<Rightarrow> is_ascii_alphabetic c \<or> c = CHR ''_'' | [] \<Rightarrow> False)"

datatype tool_name_error = EmptyToolName | InvalidName string

definition validate_tool_name :: "string \<Rightarrow> tool_name_error + unit" where
  "validate_tool_name name =
     (if name = [] then Inl EmptyToolName
      else if PROVIDER_TOOL_NAME_MAX_CHARS < length name \<or> \<not> starts_with_letter_or_underscore name \<or>
        \<not> is_mcp_name_segment name then Inl (InvalidName name)
      else Inr ())"

definition boundaries :: "string \<Rightarrow> nat list" where
  "boundaries name =
     filter (\<lambda>i. take (length MCP_TOOL_NAME_DELIMITER) (drop i name) = MCP_TOOL_NAME_DELIMITER)
       [0 ..< length name + 1 - length MCP_TOOL_NAME_DELIMITER]"

definition parse_mcp_qualified_name :: "string \<Rightarrow> (string \<times> string \<times> string) option" where
  "parse_mcp_qualified_name name =
     (case boundaries name of
        [boundary] \<Rightarrow>
          (let server = take boundary name; tool = drop (boundary + length MCP_TOOL_NAME_DELIMITER) name
           in if server = [] \<or> tool = [] then None
              else map_option (\<lambda>id. (id, server, tool)) (tool_id_new name))
      | _ \<Rightarrow> None)"

definition parse_mcp_tool_name :: "string \<Rightarrow> (string \<times> string) option" where
  "parse_mcp_tool_name name = map_option (\<lambda>(_, server, tool). (server, tool)) (parse_mcp_qualified_name name)"

definition qualify_mcp_tool_name :: "string \<Rightarrow> string \<Rightarrow> mcp_tool_admission_error + string" where
  "qualify_mcp_tool_name server tool =
     (if \<not> starts_with_letter_or_underscore server \<or> \<not> is_mcp_name_segment server then Inl (InvalidServerName server)
      else if \<not> is_mcp_name_segment tool then Inl (InvalidToolName tool)
      else (let qualified = server @ MCP_TOOL_NAME_DELIMITER @ tool
            in if MCP_QUALIFIED_NAME_MAX_CHARS < length qualified
               then Inl (QualifiedNameTooLong qualified (length qualified) MCP_QUALIFIED_NAME_MAX_CHARS)
               else if parse_mcp_qualified_name qualified = None
               then Inl (InvalidOrAmbiguousQualifiedName qualified)
               else Inr qualified))"

section \<open>Round trip\<close>

lemma delimiter_boundary:
  "length server \<in> set (boundaries (server @ MCP_TOOL_NAME_DELIMITER @ tool))"
  by (simp add: boundaries_def MCP_TOOL_NAME_DELIMITER_def)

lemma parsed_name:
  assumes "parse_mcp_qualified_name name = Some (i, server, tool)"
  shows "i = name \<and> name = server @ MCP_TOOL_NAME_DELIMITER @ tool \<and> boundaries name = [length server] \<and>
         server \<noteq> [] \<and> tool \<noteq> []"
proof -
  obtain b where b: "boundaries name = [b]" "i = name" "server = take b name" "server \<noteq> []" "tool \<noteq> []"
    "tool = drop (b + length MCP_TOOL_NAME_DELIMITER) name"
    using assms
    by (auto simp: parse_mcp_qualified_name_def tool_id_new_def Let_def split: list.splits if_splits)
  have "b \<in> set (boundaries name)" using b(1) by simp
  then have m: "take (length MCP_TOOL_NAME_DELIMITER) (drop b name) = MCP_TOOL_NAME_DELIMITER" "b < length name"
    by (auto simp: boundaries_def MCP_TOOL_NAME_DELIMITER_def)
  have "name = take b name @ take (length MCP_TOOL_NAME_DELIMITER) (drop b name) @
      drop (length MCP_TOOL_NAME_DELIMITER) (drop b name)" by (simp only: append_take_drop_id)
  with m b show ?thesis by (simp add: add.commute)
qed

lemma parse_unique:
  assumes "parse_mcp_qualified_name (server @ MCP_TOOL_NAME_DELIMITER @ tool) = Some (i, server', tool')"
  shows "i = server @ MCP_TOOL_NAME_DELIMITER @ tool \<and> server' = server \<and> tool' = tool"
proof -
  note p = parsed_name [OF assms]
  have "length server \<in> set [length server']" using delimiter_boundary [of server tool] p by metis
  with p show ?thesis by (simp add: append_eq_append_conv)
qed

text \<open>C30: A tool is admitted under exactly the names that parse back: the qualified name of a server and a
  tool is given out when both are made of name characters, the server starts with a letter or underscore, the
  name is not too long, and parsing it returns that server and that tool and nothing else.\<close>

theorem qualified_name_round_trip:
  "qualify_mcp_tool_name server tool = Inr q \<longleftrightarrow>
     q = server @ ''__'' @ tool \<and> starts_with_letter_or_underscore server \<and> is_mcp_name_segment server \<and>
     is_mcp_name_segment tool \<and> length q \<le> 256 \<and> parse_mcp_qualified_name q = Some (q, server, tool)"
proof -
  have "parse_mcp_qualified_name (server @ ''__'' @ tool) \<noteq> None \<longleftrightarrow>
      parse_mcp_qualified_name (server @ ''__'' @ tool) = Some (server @ ''__'' @ tool, server, tool)"
    using parse_unique unfolding MCP_TOOL_NAME_DELIMITER_def by force
  then show ?thesis
    by (auto simp: qualify_mcp_tool_name_def Let_def MCP_TOOL_NAME_DELIMITER_def MCP_QUALIFIED_NAME_MAX_CHARS_def)
qed

theorem qualified_name_round_trip_witness:
  "qualify_mcp_tool_name ''auth'' ''2fa_enable'' = Inr ''auth__2fa_enable'' \<and>
   parse_mcp_qualified_name ''auth__2fa_enable'' = Some (''auth__2fa_enable'', ''auth'', ''2fa_enable'') \<and>
   qualify_mcp_tool_name ''a_'' ''b'' = Inl (InvalidOrAmbiguousQualifiedName ''a___b'')"
proof -
  have "qualify_mcp_tool_name ''auth'' ''2fa_enable'' = Inr ''auth__2fa_enable''" by code_simp
  moreover from this have "parse_mcp_qualified_name ''auth__2fa_enable'' = Some (''auth__2fa_enable'', ''auth'', ''2fa_enable'')"
    using qualified_name_round_trip by blast
  moreover have "qualify_mcp_tool_name ''a_'' ''b'' = Inl (InvalidOrAmbiguousQualifiedName ''a___b'')" by code_simp
  ultimately show ?thesis by blast
qed

end
