(* ===== verification/Session_Grants.thy ===== *)
theory Session_Grants
  imports Bash_Evaluation Mcp_Names
begin

text \<open>
  What a remembered answer authorises, and what an answer to a prompt makes remembered: the grant decisions of
  \<open>permission/manager/mod.rs\<close>, the grant keys of \<open>manager/bash_grants.rs\<close>, the answers of
  \<open>manager/hub_grants.rs\<close> and the configured allows of \<open>manager/bash_policy_allow.rs\<close>. The static allow list
  of the web tool is an argument. The theory shows what a broad grant never covers, that more grants never
  allow less, and that an answer is remembered for the request it was given to.
\<close>

section \<open>Decisions from grants\<close>

definition SESSION_GRANT :: string where "SESSION_GRANT = ''session_grant''"
definition SESSION_DENY :: string where "SESSION_DENY = ''session_deny''"
definition SAFE_COMMAND :: string where "SAFE_COMMAND = ''safe_command''"
definition STATIC_ALLOWLIST :: string where "STATIC_ALLOWLIST = ''static_allowlist''"

definition clamp_yolo :: "bool \<Rightarrow> string option \<Rightarrow> bool" where
  "clamp_yolo requested yolo_pin \<longleftrightarrow> requested \<and> yolo_pin = None"

definition persisted_bash_auto_allows :: "permission_state \<Rightarrow> string \<Rightarrow> string option \<Rightarrow> bool" where
  "persisted_bash_auto_allows st cmd yolo_pin \<longleftrightarrow>
     allow_bash_execute st \<and> yolo_pin = None \<or> cmd \<in> set (allowed_bash_commands st)"

definition bash_request_floor_requires_prompt :: "bash_evaluation option \<Rightarrow> bool" where
  "bash_request_floor_requires_prompt evaluation =
     (case evaluation of None \<Rightarrow> False | Some e \<Rightarrow> \<not> exact_grant e \<and> constrains_broad_grant (assessment e))"

definition bash_assessment_is_clear :: "bash_evaluation option \<Rightarrow> bool" where
  "bash_assessment_is_clear evaluation = (case evaluation of None \<Rightarrow> True | Some e \<Rightarrow> assessment e = {})"

definition classifier_assessment :: "bash_evaluation option \<Rightarrow> bool \<Rightarrow> security_assessment" where
  "classifier_assessment evaluation fail_closed_policy =
     (case evaluation of None \<Rightarrow> {} | Some e \<Rightarrow> assessment e) \<union> (if fail_closed_policy then {FailClosedPolicy} else {})"

definition sandbox_may_auto_allow_bash :: "bash_evaluation option \<Rightarrow> bool \<Rightarrow> bool" where
  "sandbox_may_auto_allow_bash evaluation sandbox_active \<longleftrightarrow>
     sandbox_active \<and> \<not> bash_request_floor_requires_prompt evaluation"

record bash_grant_opts =
  honor_safe_lists :: bool
  allow_blanket :: bool
  conservative_blanket :: bool

definition PRE_CLASSIFIER :: bash_grant_opts where
  "PRE_CLASSIFIER = \<lparr>honor_safe_lists = True, allow_blanket = True, conservative_blanket = True\<rparr>"

definition ASK_FLOOR_REMEMBER :: bash_grant_opts where
  "ASK_FLOOR_REMEMBER = \<lparr>honor_safe_lists = False, allow_blanket = False, conservative_blanket = False\<rparr>"

definition post_classify :: "bool \<Rightarrow> bash_grant_opts" where
  "post_classify auto_forced_prompt =
     \<lparr>honor_safe_lists = True, allow_blanket = \<not> auto_forced_prompt, conservative_blanket = False\<rparr>"

definition hub_opts :: bash_grant_opts where
  "hub_opts = \<lparr>honor_safe_lists = False, allow_blanket = True, conservative_blanket = True\<rparr>"

type_synonym grant_decision = "(decision \<times> string) option"

definition grant_if :: "bool \<Rightarrow> grant_decision" where
  "grant_if b = (if b then Some (DAllow, SESSION_GRANT) else None)"

definition bash_grant_pre_decision ::
  "string \<Rightarrow> bash_evaluation \<Rightarrow> permission_state \<Rightarrow> string option \<Rightarrow> bash_grant_opts \<Rightarrow> grant_decision" where
  "bash_grant_pre_decision cmd ev st yolo_pin opts =
     (case be_segments ev of
        SegReject reason \<Rightarrow> Some (Reject reason, SESSION_DENY)
      | segs \<Rightarrow>
          (if bash_request_floor_requires_prompt (Some ev) then None
           else (case segs of
               AutoAllow via \<Rightarrow>
                 (if \<not> honor_safe_lists opts \<and> \<not> all_segments_granted ev then None
                  else Some (DAllow, if via then SESSION_GRANT else SAFE_COMMAND))
             | NeedsPrompts _ \<Rightarrow>
                 (if \<not> allow_blanket opts then None
                  else if conservative_blanket opts \<and> DangerousCommand \<in> assessment ev
                  then grant_if (exact_grant ev)
                  else grant_if (persisted_bash_auto_allows st cmd yolo_pin))
             | _ \<Rightarrow>
                 (if \<not> allow_blanket opts then None
                  else grant_if (if conservative_blanket opts then exact_grant ev
                                 else persisted_bash_auto_allows st cmd yolo_pin)))))"

section \<open>MCP tools and web domains\<close>

definition mcp_server_prefix_allowed :: "string \<Rightarrow> string list \<Rightarrow> bool" where
  "mcp_server_prefix_allowed name servers \<longleftrightarrow>
     servers \<noteq> [] \<and>
     (case parse_mcp_qualified_name name of Some (_, server, _) \<Rightarrow> server \<in> set servers | None \<Rightarrow> False)"

definition mcp_pre_decision :: "string \<Rightarrow> permission_state \<Rightarrow> bool \<Rightarrow> bool \<Rightarrow> decision option" where
  "mcp_pre_decision name st policy_forced_prompt remember_tool_approvals =
     (if name \<in> set (disallowed_mcp_tools st) then Some (Reject (rejection_text name))
      else if policy_forced_prompt \<and> \<not> remember_tool_approvals then None
      else if name \<in> set (allowed_mcp_tools st) then Some DAllow
      else if mcp_server_prefix_allowed name (allowed_mcp_servers st) then Some DAllow
      else None)"

definition web_fetch_deny_key :: "policy_env \<Rightarrow> string \<Rightarrow> string" where
  "web_fetch_deny_key env host = lowercase env (trim_end_matches (CHR ''.'') (trim host))"

definition web_fetch_deny_key_from_url :: "policy_env \<Rightarrow> string \<Rightarrow> string option" where
  "web_fetch_deny_key_from_url env url =
     (case url_host env url of
        None \<Rightarrow> None
      | Some host \<Rightarrow>
          (let key = web_fetch_deny_key env host in if key \<noteq> [] then Some key else None))"

definition domain_denied_by :: "string \<Rightarrow> string \<Rightarrow> bool" where
  "domain_denied_by domain denied \<longleftrightarrow>
     denied \<noteq> [] \<and>
     (domain = denied \<or>
      (length denied + 1 < length domain \<and> ends_with domain denied \<and>
       domain ! (length domain - length denied - 1) = CHR ''.''))"

definition denied_web_fetch_domain :: "policy_env \<Rightarrow> string \<Rightarrow> string list \<Rightarrow> string option" where
  "denied_web_fetch_domain env host disallowed =
     (if disallowed = [] then None else List.find (domain_denied_by (web_fetch_deny_key env host)) disallowed)"

definition web_fetch_deny_pre_decision :: "policy_env \<Rightarrow> string \<Rightarrow> permission_state \<Rightarrow> decision option" where
  "web_fetch_deny_pre_decision env url st =
     (case url_host env url of
        None \<Rightarrow> None
      | Some host \<Rightarrow>
          map_option (\<lambda>denied. Reject (rejection_text denied))
            (denied_web_fetch_domain env host (disallowed_web_fetch_domains st)))"

text \<open>\<open>static_allows\<close> says that a URL parses and the static matcher accepts it.\<close>

definition session_grant_pre_decision ::
  "policy_env \<Rightarrow> (string \<Rightarrow> bool) \<Rightarrow> access_kind \<Rightarrow> bash_evaluation option \<Rightarrow> permission_state \<Rightarrow> bool \<Rightarrow> bool \<Rightarrow>
   string option \<Rightarrow> grant_decision" where
  "session_grant_pre_decision env static_allows access bash_eval st allow_edits_for_session
     honor_static_web_allowlist yolo_pin =
     (case access of
        MCPTool name \<Rightarrow>
          map_option (\<lambda>d. (d, case d of Reject _ \<Rightarrow> SESSION_DENY | _ \<Rightarrow> SESSION_GRANT))
            (mcp_pre_decision name st False False)
      | WebFetch url \<Rightarrow>
          (case web_fetch_deny_pre_decision env url st of
             Some reject \<Rightarrow> Some (reject, SESSION_DENY)
           | None \<Rightarrow>
               (if honor_static_web_allowlist \<and> static_allows url then Some (DAllow, STATIC_ALLOWLIST)
                else (case url_host env url of
                        None \<Rightarrow> None
                      | Some host \<Rightarrow>
                          grant_if (normalize_domain (lowercase env) host \<in> set (allowed_web_fetch_domains st)))))
      | Edit _ \<Rightarrow> (if allow_edits_for_session then Some (DAllow, SESSION_GRANT) else None)
      | Bash cmd \<Rightarrow>
          (case bash_eval of
             None \<Rightarrow> None
           | Some ev \<Rightarrow> bash_grant_pre_decision cmd ev st yolo_pin PRE_CLASSIFIER)
      | _ \<Rightarrow> None)"

definition session_grant_for_hub ::
  "policy_env \<Rightarrow> access_kind \<Rightarrow> bash_evaluation option \<Rightarrow> permission_state \<Rightarrow> bool \<Rightarrow> string option \<Rightarrow> grant_decision" where
  "session_grant_for_hub env access bash st allow_edits_for_session yolo_pin =
     (case access of
        Bash cmd \<Rightarrow>
          (case bash of None \<Rightarrow> None | Some ev \<Rightarrow> bash_grant_pre_decision cmd ev st yolo_pin hub_opts)
      | _ \<Rightarrow> session_grant_pre_decision env (\<lambda>_. False) access bash st allow_edits_for_session False yolo_pin)"

section \<open>Grant keys\<close>

definition always_allow_scope_persists :: "policy_env \<Rightarrow> bash_command_highlights \<Rightarrow> nat \<Rightarrow> bool" where
  "always_allow_scope_persists env h n =
     (let words = highlighted_words h
      in if n = 0 \<or> length words < n \<or> n < minimum_always_allow_scope words then False
         else words_join_unambiguously env (take n words) \<or>
              (n = length words \<and> hl_prefix h = [] \<and> hl_suffix h = []))"

definition MAX_SEGMENT_GRANTS :: nat where "MAX_SEGMENT_GRANTS = 5"

definition segment_grantable :: "policy_env \<Rightarrow> string list \<Rightarrow> bool" where
  "segment_grantable env words \<longleftrightarrow>
     words \<noteq> [] \<and> \<not> is_setup_command words \<and> \<not> is_dangerous_command_words words \<and>
     \<not> head_is_exec_vehicle words \<and> words_join_unambiguously env words"

definition bash_grant_segments :: "policy_env \<Rightarrow> string \<Rightarrow> string list" where
  "bash_grant_segments env cmd =
     (case all_commands_from_script (shell_parse env) cmd of
        None \<Rightarrow> []
      | Some segs \<Rightarrow>
          (let grants = map (join '' '') (filter (segment_grantable env) (map (unwrap_wrappers \<circ> pc_words) segs))
           in if MAX_SEGMENT_GRANTS < length grants then [] else grants))"

definition insert_command_grant :: "string \<Rightarrow> permission_state \<Rightarrow> permission_state" where
  "insert_command_grant key st = st\<lparr>allowed_bash_commands := hs_insert key (allowed_bash_commands st)\<rparr>"

definition persist_bash_always_allow :: "policy_env \<Rightarrow> permission_state \<Rightarrow> string \<Rightarrow> string \<Rightarrow> permission_state" where
  "persist_bash_always_allow env st cmd label =
     (case primary_command_from_script (shell_parse env) cmd of
        None \<Rightarrow> st
      | Some h \<Rightarrow>
          (let words = highlighted_words h
           in if list_ex (\<lambda>n. words_join_unambiguously env (take n words) \<and> join '' '' (take n words) = label)
                [minimum_always_allow_scope words ..< length words + 1]
              then insert_command_grant label st
              else if hl_prefix h = [] \<and> hl_suffix h = [] \<and> join '' '' words = label
              then insert_command_grant cmd st
              else st))"

definition bash_glob_covers_script :: "policy_env \<Rightarrow> string \<Rightarrow> string \<Rightarrow> bool" where
  "bash_glob_covers_script env cmd pat =
     (if bash_glob_is_catchall env pat then False
      else (case all_commands_from_script (shell_parse env) cmd of
              None \<Rightarrow> bash_pattern_matches_command env pat cmd
            | Some segs \<Rightarrow>
                list_ex (\<lambda>seg. let words = unwrap_wrappers (pc_words seg)
                               in words \<noteq> [] \<and> \<not> is_setup_command words \<and>
                                  bash_pattern_matches_command env pat (join '' '' words)) segs))"

definition always_allow_row_is_effective :: "policy_env \<Rightarrow> string \<Rightarrow> bool" where
  "always_allow_row_is_effective env cmd =
     (case primary_command_from_script (shell_parse env) cmd of
        None \<Rightarrow> False
      | Some h \<Rightarrow>
          (let scope = default_always_allow_scope (highlighted_words h)
           in if \<not> always_allow_scope_persists env h scope then False
              else (let scratch = persist_bash_always_allow env default_state cmd
                                    (join '' '' (take scope (highlighted_words h)))
                    in case bash_grant_pre_decision cmd (evaluate_bash env cmd scratch True) scratch None PRE_CLASSIFIER of
                         Some (DAllow, _) \<Rightarrow> True
                       | _ \<Rightarrow> False)))"

section \<open>Answers to a prompt\<close>

datatype prompt_outcome =
    AllowOnce
  | AllowAlways
  | AllowEditsForSession
  | AllowAlwaysBashCommand string
  | AllowAlwaysBashGlob string
  | AllowAlwaysDomain string
  | AllowAlwaysMcpTool string
  | AllowAlwaysMcpServer string
  | RejectOnce
  | RejectAlwaysBashCommand string
  | RejectAlwaysMcpTool string
  | RejectAlwaysDomain string
  | PromptCancelled
  | PromptFollowup string
  | PromptError string

definition record_bash_outcome ::
  "policy_env \<Rightarrow> permission_state \<Rightarrow> string \<Rightarrow> prompt_outcome \<Rightarrow> permission_state \<times> string option" where
  "record_bash_outcome env st cmd answer =
     (case answer of
        AllowAlways \<Rightarrow>
          (st\<lparr>allowed_bash_commands :=
                hs_extend (hs_insert cmd (allowed_bash_commands st)) (bash_grant_segments env cmd)\<rparr>, Some cmd)
      | AllowAlwaysBashCommand label \<Rightarrow> (persist_bash_always_allow env st cmd label, Some label)
      | AllowAlwaysBashGlob pat \<Rightarrow>
          (if \<not> bash_glob_covers_script env cmd pat then (st, None)
           else (st\<lparr>allowed_bash_globs := hs_insert pat (allowed_bash_globs st)\<rparr>, Some pat))
      | RejectAlwaysBashCommand label \<Rightarrow>
          (st\<lparr>disallowed_bash_commands := hs_insert label (disallowed_bash_commands st)\<rparr>, Some label)
      | _ \<Rightarrow> (st, None))"

definition record_mcp_outcome ::
  "permission_state \<Rightarrow> string \<Rightarrow> prompt_outcome \<Rightarrow> permission_state \<times> string option" where
  "record_mcp_outcome st name answer =
     (let tool_grant = (st\<lparr>allowed_mcp_tools := hs_insert name (allowed_mcp_tools st)\<rparr>, Some name)
      in case answer of
           AllowAlways \<Rightarrow> tool_grant
         | AllowAlwaysMcpTool _ \<Rightarrow> tool_grant
         | AllowAlwaysMcpServer server_prefix \<Rightarrow>
             (case parse_mcp_qualified_name name of
                Some (_, server, _) \<Rightarrow>
                  (if server = server_prefix
                   then (st\<lparr>allowed_mcp_servers := hs_insert server (allowed_mcp_servers st)\<rparr>, Some server)
                   else tool_grant)
              | None \<Rightarrow> tool_grant)
         | RejectAlwaysMcpTool _ \<Rightarrow>
             (st\<lparr>disallowed_mcp_tools := hs_insert name (disallowed_mcp_tools st)\<rparr>, Some name)
         | _ \<Rightarrow> (st, None))"

definition record_web_outcome ::
  "policy_env \<Rightarrow> permission_state \<Rightarrow> string \<Rightarrow> prompt_outcome \<Rightarrow> permission_state \<times> string option" where
  "record_web_outcome env st url answer =
     (case answer of
        AllowAlwaysDomain _ \<Rightarrow>
          (case url_host env url of
             None \<Rightarrow> (st, None)
           | Some host \<Rightarrow>
               (let domain = normalize_domain (lowercase env) host
                in (st\<lparr>allowed_web_fetch_domains := hs_insert domain (allowed_web_fetch_domains st)\<rparr>, Some domain)))
      | RejectAlwaysDomain _ \<Rightarrow>
          (case web_fetch_deny_key_from_url env url of
             None \<Rightarrow> (st, None)
           | Some domain \<Rightarrow>
               (st\<lparr>disallowed_web_fetch_domains := hs_insert domain (disallowed_web_fetch_domains st)\<rparr>, Some domain))
      | _ \<Rightarrow> (st, None))"

definition record_prompt_outcome ::
  "policy_env \<Rightarrow> permission_state \<Rightarrow> access_kind \<Rightarrow> prompt_outcome \<Rightarrow> permission_state \<times> string option" where
  "record_prompt_outcome env st access answer =
     (case access of
        Bash cmd \<Rightarrow> record_bash_outcome env st cmd answer
      | MCPTool name \<Rightarrow> record_mcp_outcome st name answer
      | WebFetch url \<Rightarrow> record_web_outcome env st url answer
      | _ \<Rightarrow> (st, None))"

section \<open>Configured allows\<close>

definition configured_filename_allow :: "bash_evaluation option \<Rightarrow> bool" where
  "configured_filename_allow evaluation =
     (case evaluation of
        None \<Rightarrow> False
      | Some e \<Rightarrow>
          recovered_eligible e \<and>
          list_all (\<lambda>f. f = UnresolvedArg \<or> f = UnvettedEnv \<or> f \<notin> assessment e) all_findings)"

definition requires_recovered_classification :: "bash_evaluation option \<Rightarrow> bool" where
  "requires_recovered_classification evaluation =
     (case evaluation of None \<Rightarrow> False | Some e \<Rightarrow> UnresolvedArg \<in> assessment e \<and> \<not> exact_grant e)"

definition narrow_allow_clears_write_floor ::
  "policy_env \<Rightarrow> bash_evaluation option \<Rightarrow> compiled_policy option \<Rightarrow> access_kind \<Rightarrow> bool" where
  "narrow_allow_clears_write_floor env evaluation pol access \<longleftrightarrow>
     (case evaluation of None \<Rightarrow> False | Some e \<Rightarrow> is_file_write_only (assessment e) \<and> \<not> redirect_write e) \<and>
     (case pol of None \<Rightarrow> False | Some p \<Rightarrow> narrow_allow_authorizes env p access)"

definition broad_allow_deferred ::
  "policy_env \<Rightarrow> bash_evaluation option \<Rightarrow> compiled_policy option \<Rightarrow> access_kind \<Rightarrow> bool \<Rightarrow> bool" where
  "broad_allow_deferred env evaluation pol access configured_mode \<longleftrightarrow>
     (requires_recovered_classification evaluation \<or> bash_request_floor_requires_prompt evaluation) \<and>
     \<not> narrow_allow_clears_write_floor env evaluation pol access \<and>
     \<not> (configured_mode \<and> configured_filename_allow evaluation)"

definition broad_allow_floor_requires_prompt ::
  "policy_env \<Rightarrow> (string \<Rightarrow> bool) \<Rightarrow> access_kind \<Rightarrow> compiled_policy option \<Rightarrow> string \<Rightarrow> bool \<Rightarrow> bool" where
  "broad_allow_floor_requires_prompt env repo_risk access pol cwd configured_mode =
     (case access of
        Bash cmd \<Rightarrow>
          broad_allow_deferred env (Some (evaluate_bash_with_ambient env repo_risk cmd default_state cwd)) pol access
            configured_mode
      | _ \<Rightarrow> False)"

section \<open>Refusals\<close>

text \<open>C21: An earlier refusal is final and nothing else rejects: whatever grants, pins and options apply, a
  script is rejected exactly when one of the refused prefixes starts, at a word boundary, one of its commands
  behind their wrappers (setup commands apart), or, for a script that does not decompose, its text or one of
  the commands recovered from it.\<close>

theorem session_deny_exactly:
  "(\<exists>r. bash_grant_pre_decision cmd (evaluate_bash env cmd st h) st pin opts = Some (Reject r, SESSION_DENY)) \<longleftrightarrow>
     (\<exists>d\<in>set (disallowed_bash_commands st). session_denied env cmd d)"
  unfolding evaluate_rejects [of env cmd st h, symmetric]
  by (auto simp: bash_grant_pre_decision_def grant_if_def split: segment_evaluation.splits)

section \<open>What a grant covers\<close>

lemma pre_decision_allow:
  "(\<exists>why. bash_grant_pre_decision cmd ev st pin opts = Some (DAllow, why)) \<longleftrightarrow>
     (exact_grant ev \<or> \<not> constrains_broad_grant (assessment ev)) \<and>
     (case be_segments ev of
        AutoAllow _ \<Rightarrow> honor_safe_lists opts \<or> all_segments_granted ev
      | NeedsPrompts _ \<Rightarrow>
          allow_blanket opts \<and>
          (if conservative_blanket opts \<and> DangerousCommand \<in> assessment ev then exact_grant ev
           else persisted_bash_auto_allows st cmd pin)
      | Unparseable \<Rightarrow>
          allow_blanket opts \<and>
          (if conservative_blanket opts then exact_grant ev else persisted_bash_auto_allows st cmd pin)
      | SegReject _ \<Rightarrow> False)"
  by (cases "be_segments ev")
    (auto simp: bash_grant_pre_decision_def bash_request_floor_requires_prompt_def grant_if_def)

lemma evaluate_undecomposed:
  assumes "all_commands_from_script (shell_parse env) cmd = None"
    and "\<not> (\<exists>d\<in>set (disallowed_bash_commands st). session_denied env cmd d)"
  shows "be_segments (evaluate_bash env cmd st h) = Unparseable"
    and "exact_grant (evaluate_bash env cmd st h) \<longleftrightarrow> cmd \<in> set (allowed_bash_commands st)"
    and "\<exists>a. \<forall>st h. assessment (evaluate_bash env cmd st h) = a"
proof -
  consider (np) "shell_parse env cmd = None"
    | (nd) t where "shell_parse env cmd = Some t" "try_parse_word_only_commands_sequence t cmd = None"
    using assms(1) by (cases "shell_parse env cmd") (auto simp: all_commands_from_script_def)
  note c = this
  show "exact_grant (evaluate_bash env cmd st h) \<longleftrightarrow> cmd \<in> set (allowed_bash_commands st)"
    using c by cases (simp_all add: evaluate_bash_def unparsed_evaluation_def recovered_evaluation_def Let_def)
  show "\<exists>a. \<forall>st h. assessment (evaluate_bash env cmd st h) = a"
    using c by cases (simp_all add: evaluate_bash_def unparsed_evaluation_def recovered_evaluation_def Let_def)
  have "\<exists>r. be_segments (evaluate_bash env cmd st h) = or_unparseable r \<and> (\<forall>e. r = Some e \<longrightarrow> (\<exists>d. e = SegReject d))"
    using c
  proof cases
    case np
    then show ?thesis using raw_deny_shape by (auto simp: evaluate_bash_def unparsed_evaluation_def)
  next
    case nd
    then show ?thesis using raw_deny_shape projection_rejection_shape
      by (auto simp: evaluate_bash_def recovered_evaluation_def Let_def split: option.splits)
  qed
  then show "be_segments (evaluate_bash env cmd st h) = Unparseable"
    using evaluate_rejects [of env cmd st h] assms(2) by (auto simp: or_unparseable_def split: option.splits)
qed

lemma allowed_not_denied:
  assumes "bash_grant_pre_decision cmd (evaluate_bash env cmd st h) st pin opts = Some (DAllow, why)"
  shows "\<not> (\<exists>d\<in>set (disallowed_bash_commands st). session_denied env cmd d)"
  using assms evaluate_rejects [of env cmd st h]
  by (auto simp: bash_grant_pre_decision_def split: segment_evaluation.splits)

lemma floor_findings:
  "\<not> constrains_broad_grant (A \<union> (\<Union>w\<in>set ws. weighed_findings st w)) \<longleftrightarrow>
     \<not> constrains_broad_grant A \<and>
     (\<forall>w\<in>set ws. is_dangerous_command_words w \<or> \<not> special_exec_surface w \<or> join '' '' w \<in> set (allowed_bash_commands st))"
proof -
  have "\<not> constrains_broad_grant (weighed_findings st w) \<longleftrightarrow>
      is_dangerous_command_words w \<or> \<not> special_exec_surface w \<or> join '' '' w \<in> set (allowed_bash_commands st)" for w
    by (simp add: constrains_broad_grant_def weighed_findings_def is_grant_floor_def)
  then show ?thesis by (auto simp: constrains_broad_grant_def)
qed

lemma dangerous_found:
  "DangerousCommand \<in> script_findings t cmd segs \<union> (\<Union>w\<in>set ws. weighed_findings st w) \<longleftrightarrow>
     (\<exists>w\<in>set ws. is_dangerous_command_words w)"
proof -
  have "DangerousCommand \<notin> script_findings t cmd segs"
    by (auto simp: script_findings_def write_findings_def env_risk_finding_def raw_findings_def Let_def
        split: env_risk.splits if_splits)
  then show ?thesis by (auto simp: weighed_findings_def split: if_splits)
qed

text \<open>C18: What a broad grant covers, in auto mode and for calls through the hub. A script that is allowed
  although its text was not granted decomposes into commands; unless the grant is for the whole script, it
  writes no real file, sets no unvetted variable, runs no nested shell and carries no execution risk, no
  command is a dangerous verb, options that execute or disclose need their own grant, and every command is
  granted, covered by the blanket grant, or on the safe lists where these count.\<close>

theorem broad_grant_covers_only:
  assumes "conservative_blanket opts"
    and "bash_grant_pre_decision cmd (evaluate_bash env cmd st h) st pin opts = Some (DAllow, why)"
    and "cmd \<notin> set (allowed_bash_commands st)"
  shows "\<exists>t segs. shell_parse env cmd = Some t \<and> try_parse_word_only_commands_sequence t cmd = Some segs \<and>
    (whole_script_grant env cmd segs st \<or>
     \<not> constrains_broad_grant (script_findings t cmd segs) \<and>
     (\<forall>w\<in>set (live_segments (map pc_words segs)).
        \<not> is_dangerous_command_words w \<and>
        (special_exec_surface w \<longrightarrow> join '' '' w \<in> set (allowed_bash_commands st)) \<and>
        (allow_bash_execute st \<and> pin = None \<or> matched_grant env st w \<or>
         honor_safe_lists opts \<and> h \<and> matched_safe w)))"
proof -
  let ?ev = "evaluate_bash env cmd st h"
  note nd = allowed_not_denied [OF assms(2)]
  have al: "\<exists>why. bash_grant_pre_decision cmd ?ev st pin opts = Some (DAllow, why)" using assms(2) by blast
  obtain segs t where p: "shell_parse env cmd = Some t" "try_parse_word_only_commands_sequence t cmd = Some segs"
  proof (cases "all_commands_from_script (shell_parse env) cmd")
    case None
    with al show ?thesis unfolding pre_decision_allow evaluate_undecomposed [OF None nd] using assms by simp
  qed (auto simp: all_commands_from_script_def bind_eq_Some_conv)
  let ?live = "live_segments (map pc_words segs)"
  note e = evaluate_segmented [OF p nd, of h]
  have "\<not> constrains_broad_grant (script_findings t cmd segs) \<and>
     (\<forall>w\<in>set ?live. \<not> is_dangerous_command_words w \<and>
        (special_exec_surface w \<longrightarrow> join '' '' w \<in> set (allowed_bash_commands st)) \<and>
        (allow_bash_execute st \<and> pin = None \<or> matched_grant env st w \<or> honor_safe_lists opts \<and> h \<and> matched_safe w))"
    if x: "\<not> whole_script_grant env cmd segs st"
  proof -
    have f: "\<not> constrains_broad_grant (script_findings t cmd segs)"
      "\<forall>w\<in>set ?live. is_dangerous_command_words w \<or> \<not> special_exec_surface w \<or> join '' '' w \<in> set (allowed_bash_commands st)"
      using al x unfolding pre_decision_allow e floor_findings by blast+
    show ?thesis
    proof (cases "\<forall>w\<in>set ?live. needs_no_prompt env st h w")
      case True
      with e(1) obtain v where "be_segments ?ev = AutoAllow v" by auto
      with al have "honor_safe_lists opts \<or> (\<forall>w\<in>set ?live. matched_grant env st w)"
        unfolding pre_decision_allow e by simp
      with True f(1) show ?thesis unfolding needs_no_prompt_def by blast
    next
      case False
      with e(1) obtain ps where b: "be_segments ?ev = NeedsPrompts ps" by auto
      have "\<forall>w\<in>set ?live. \<not> is_dangerous_command_words w" "persisted_bash_auto_allows st cmd pin"
        using al x assms(1) unfolding pre_decision_allow b e dangerous_found by (simp_all split: if_splits)
      with f assms(3) show ?thesis unfolding persisted_bash_auto_allows_def by blast
    qed
  qed
  with p show ?thesis by blast
qed

section \<open>More grants\<close>

definition grants_within :: "permission_state \<Rightarrow> permission_state \<Rightarrow> bool" where
  "grants_within st st' \<longleftrightarrow>
     set (allowed_bash_commands st) \<subseteq> set (allowed_bash_commands st') \<and>
     set (allowed_bash_globs st) \<subseteq> set (allowed_bash_globs st') \<and>
     (allow_bash_execute st \<longrightarrow> allow_bash_execute st')"

lemma matched_grant_mono: "grants_within st st' \<Longrightarrow> matched_grant env st w \<Longrightarrow> matched_grant env st' w"
  by (auto simp: matched_grant_def grants_within_def Let_def list_ex_iff split: if_splits)

lemma needs_no_prompt_mono: "grants_within st st' \<Longrightarrow> needs_no_prompt env st h w \<Longrightarrow> needs_no_prompt env st' h w"
  using matched_grant_mono by (auto simp: needs_no_prompt_def grants_within_def)

lemma whole_script_grant_mono:
  "grants_within st st' \<Longrightarrow> whole_script_grant env cmd segs st \<Longrightarrow> whole_script_grant env cmd segs st'"
  by (auto simp: whole_script_grant_def grants_within_def split: if_splits list.splits)

lemma persisted_mono:
  "grants_within st st' \<Longrightarrow> persisted_bash_auto_allows st cmd pin \<Longrightarrow> persisted_bash_auto_allows st' cmd pin"
  by (auto simp: persisted_bash_auto_allows_def grants_within_def)

lemma more_grants_segmented:
  assumes p: "shell_parse env cmd = Some t" "try_parse_word_only_commands_sequence t cmd = Some segs"
    and nd: "\<not> (\<exists>d\<in>set (disallowed_bash_commands st). session_denied env cmd d)"
    and nd': "\<not> (\<exists>d\<in>set (disallowed_bash_commands st'). session_denied env cmd d)"
    and g: "grants_within st st'" and o: "honor_safe_lists opts"
    and al: "\<exists>why. bash_grant_pre_decision cmd (evaluate_bash env cmd st h) st pin opts = Some (DAllow, why)"
  shows "\<exists>why. bash_grant_pre_decision cmd (evaluate_bash env cmd st' h) st' pin opts = Some (DAllow, why)"
proof -
  let ?live = "live_segments (map pc_words segs)"
  note e = evaluate_segmented [OF p nd, of h] and e' = evaluate_segmented [OF p nd', of h]
  have x: "exact_grant (evaluate_bash env cmd st h) \<Longrightarrow> exact_grant (evaluate_bash env cmd st' h)"
    unfolding e e' by (rule whole_script_grant_mono [OF g])
  have f: "exact_grant (evaluate_bash env cmd st' h) \<or> \<not> constrains_broad_grant (assessment (evaluate_bash env cmd st' h))"
    using al x g unfolding pre_decision_allow e(4) e'(4) floor_findings grants_within_def by blast
  show ?thesis
  proof (cases "\<forall>w\<in>set ?live. needs_no_prompt env st' h w")
    case True
    with e'(1) obtain v where "be_segments (evaluate_bash env cmd st' h) = AutoAllow v" by auto
    with f o show ?thesis unfolding pre_decision_allow by simp
  next
    case False
    with e'(1) obtain ps' where b': "be_segments (evaluate_bash env cmd st' h) = NeedsPrompts ps'" by auto
    from False have "\<not> (\<forall>w\<in>set ?live. needs_no_prompt env st h w)" using needs_no_prompt_mono [OF g] by blast
    with e(1) obtain ps where b: "be_segments (evaluate_bash env cmd st h) = NeedsPrompts ps" by auto
    have "DangerousCommand \<in> assessment (evaluate_bash env cmd st' h) \<longleftrightarrow>
        DangerousCommand \<in> assessment (evaluate_bash env cmd st h)"
      unfolding e(4) e'(4) dangerous_found by simp
    with al f x persisted_mono [OF g] show ?thesis
      unfolding pre_decision_allow b b' by (simp split: if_splits)
  qed
qed

lemma more_grants_allow:
  assumes "bash_grant_pre_decision cmd (evaluate_bash env cmd st h) st pin opts = Some (DAllow, why)"
    and "grants_within st st'" and "honor_safe_lists opts"
    and "\<not> (\<exists>d\<in>set (disallowed_bash_commands st'). session_denied env cmd d)"
  shows "\<exists>why'. bash_grant_pre_decision cmd (evaluate_bash env cmd st' h) st' pin opts = Some (DAllow, why')"
proof -
  have al: "\<exists>why. bash_grant_pre_decision cmd (evaluate_bash env cmd st h) st pin opts = Some (DAllow, why)"
    using assms(1) by blast
  note nd = allowed_not_denied [OF assms(1)]
  show ?thesis
  proof (cases "all_commands_from_script (shell_parse env) cmd")
    case None
    from evaluate_undecomposed(3) [OF None nd] obtain a where a: "\<And>st h. assessment (evaluate_bash env cmd st h) = a" by blast
    note u = evaluate_undecomposed(1,2) [OF None nd] and u' = evaluate_undecomposed(1,2) [OF None assms(4)]
    show ?thesis using al assms(2) persisted_mono [OF assms(2), of cmd pin]
      unfolding pre_decision_allow u u' a grants_within_def by (auto split: if_splits)
  next
    case (Some segs)
    then obtain t where "shell_parse env cmd = Some t" "try_parse_word_only_commands_sequence t cmd = Some segs"
      by (auto simp: all_commands_from_script_def bind_eq_Some_conv)
    from more_grants_segmented [OF this nd assms(4,2,3) al] show ?thesis .
  qed
qed

section \<open>The offered rows\<close>

lemma pin_only_for_blanket:
  "persisted_bash_auto_allows st cmd pin = persisted_bash_auto_allows st cmd pin' \<Longrightarrow>
   bash_grant_pre_decision cmd ev st pin opts = bash_grant_pre_decision cmd ev st pin' opts"
  by (cases "be_segments ev") (simp_all add: bash_grant_pre_decision_def)

lemma persist_same_key:
  "grants_within default_state st \<Longrightarrow>
   grants_within (persist_bash_always_allow env default_state cmd label) (persist_bash_always_allow env st cmd label)"
  by (auto simp: persist_bash_always_allow_def insert_command_grant_def grants_within_def default_state_def Let_def
      split: option.splits)

lemma persist_keeps_denials [simp]:
  "disallowed_bash_commands (persist_bash_always_allow env st cmd label) = disallowed_bash_commands st"
  "allow_bash_execute (persist_bash_always_allow env st cmd label) = allow_bash_execute st"
  by (auto simp: persist_bash_always_allow_def insert_command_grant_def Let_def split: option.splits)


lemma join_longer:
  "i < j \<Longrightarrow> j \<le> length ws \<Longrightarrow> 0 < i \<Longrightarrow> length (join '' '' (take i ws)) < length (join '' '' (take j ws))"
proof (induction ws arbitrary: i j)
  case (Cons w ws)
  obtain i' j' where ij: "i = Suc i'" "j = Suc j'" using Cons.prems by (cases i; cases j) auto
  have "take j' ws \<noteq> []" using Cons.prems ij by (cases ws) auto
  then have "length (join '' '' (take j (w # ws))) = length w + 1 + length (join '' '' (take j' ws))"
    using ij by (simp add: join_Cons)
  moreover have "length (join '' '' (take i (w # ws))) = (if i' = 0 then length w else length w + 1 + length (join '' '' (take i' ws)))"
    using ij Cons.prems by (cases ws) (auto simp: join_Cons)
  ultimately show ?case using Cons.IH [of i' j'] Cons.prems ij by auto
qed simp

lemma join_prefix_eq:
  assumes "0 < i" "0 < j" "i \<le> length ws" "j \<le> length ws" "join '' '' (take i ws) = join '' '' (take j ws)"
  shows "i = j"
  using assms join_longer [of i j ws] join_longer [of j i ws] by (metis less_irrefl linorder_neqE_nat)

lemma minimum_scope_bounds:
  "ws \<noteq> [] \<Longrightarrow> 0 < minimum_always_allow_scope ws \<and> minimum_always_allow_scope ws \<le> length ws"
  by (auto simp: minimum_always_allow_scope_def gh_always_allow_scope_def Suc_le_eq split: list.splits if_splits)

text \<open>The scopes offered are the scopes that store: the answer for the first \<open>n\<close> words of the primary
  command stores a key exactly when the prompt's own test says so. The key is the label when it names one
  command without ambiguity, else the raw script, and every other label stores nothing.\<close>

theorem scope_stores_exactly:
  assumes "primary_command_from_script (shell_parse env) cmd = Some hl"
    and "0 < n" and "n \<le> length (highlighted_words hl)"
  defines "chosen \<equiv> take n (highlighted_words hl)"
  shows "record_prompt_outcome env st (Bash cmd) (AllowAlwaysBashCommand (join '' '' chosen)) =
    (if always_allow_scope_persists env hl n
     then insert_command_grant (if words_join_unambiguously env chosen then join '' '' chosen else cmd) st
     else st, Some (join '' '' chosen))"
proof -
  let ?ws = "highlighted_words hl"
  have m: "0 < minimum_always_allow_scope ?ws" "minimum_always_allow_scope ?ws \<le> length ?ws"
    using minimum_scope_bounds assms(2,3) by (metis list.size(3) not_less)+
  have same: "join '' '' (take i ?ws) = join '' '' chosen \<longleftrightarrow> i = n" if "0 < i" "i \<le> length ?ws" for i
    using join_prefix_eq [OF that(1) assms(2) that(2) assms(3)] unfolding chosen_def by auto
  have l: "list_ex (\<lambda>i. words_join_unambiguously env (take i ?ws) \<and> join '' '' (take i ?ws) = join '' '' chosen)
      [minimum_always_allow_scope ?ws ..< length ?ws + 1] \<longleftrightarrow>
      minimum_always_allow_scope ?ws \<le> n \<and> words_join_unambiguously env chosen"
  proof -
    have j: "join '' '' (take i ?ws) = join '' '' chosen \<longleftrightarrow> i = n" if "i \<in> set [minimum_always_allow_scope ?ws ..< length ?ws + 1]" for i
      using that m(1) by (intro same) (auto simp del: upt_Suc)
    have "n \<in> set [minimum_always_allow_scope ?ws ..< length ?ws + 1] \<longleftrightarrow> minimum_always_allow_scope ?ws \<le> n"
      using assms(3) by auto
    then show ?thesis unfolding list_ex_iff using j chosen_def by metis
  qed
  have w: "join '' '' ?ws = join '' '' chosen \<longleftrightarrow> n = length ?ws"
    using same [OF _ order_refl] less_le_trans [OF m] by (simp add: eq_commute)
  have "persist_bash_always_allow env st cmd (join '' '' chosen) =
      (if minimum_always_allow_scope ?ws \<le> n \<and> words_join_unambiguously env chosen then insert_command_grant (join '' '' chosen) st
       else if hl_prefix hl = [] \<and> hl_suffix hl = [] \<and> n = length ?ws then insert_command_grant cmd st else st)"
    unfolding persist_bash_always_allow_def assms(1) Let_def option.case l w ..
  then show ?thesis
    using m assms(2,3)
    by (auto simp: record_prompt_outcome_def record_bash_outcome_def always_allow_scope_persists_def Let_def chosen_def)
qed

section \<open>Answers are kept for what was asked\<close>

text \<open>An answer to the prompt for one MCP tool reaches no further than it says: a tool that is allowed
  after the answer and was not before is the prompted tool itself or, when the answer named a server, a tool of
  that very server, and the prompted tool is one of its tools.\<close>

theorem mcp_answer_contained:
  assumes "mcp_pre_decision other (fst (record_prompt_outcome env st (MCPTool name) answer)) forced remember = Some DAllow"
    and "mcp_pre_decision other st forced remember \<noteq> Some DAllow"
  shows "other = name \<or>
    (\<exists>server. answer = AllowAlwaysMcpServer server \<and>
       (\<exists>i tool. parse_mcp_qualified_name name = Some (i, server, tool)) \<and>
       (\<exists>i tool. parse_mcp_qualified_name other = Some (i, server, tool)))"
proof (cases "\<exists>server i tool. answer = AllowAlwaysMcpServer server \<and> parse_mcp_qualified_name name = Some (i, server, tool)")
  case True
  then show ?thesis using assms
    by (auto simp: mcp_pre_decision_def record_prompt_outcome_def record_mcp_outcome_def mcp_server_prefix_allowed_def
        Let_def split: if_splits option.splits)
next
  case False
  let ?st' = "fst (record_prompt_outcome env st (MCPTool name) answer)"
  have "allowed_mcp_servers ?st' = allowed_mcp_servers st" "set (allowed_mcp_tools ?st') \<subseteq> insert name (set (allowed_mcp_tools st))"
    "set (disallowed_mcp_tools st) \<subseteq> set (disallowed_mcp_tools ?st')"
    using False
    by (auto simp: record_prompt_outcome_def record_mcp_outcome_def Let_def split: prompt_outcome.splits option.splits)
  with assms show ?thesis by (auto simp: mcp_pre_decision_def split: if_splits)
qed

lemma denied_subdomain: "d \<noteq> [] \<Longrightarrow> domain_denied_by d d" "d \<noteq> [] \<Longrightarrow> p \<noteq> [] \<Longrightarrow> domain_denied_by (p @ ''.'' @ d) d"
  by (auto simp: domain_denied_by_def nth_append suffix_def)

text \<open>A refused domain stays refused: after the answer to never fetch from the domain of a URL, every URL
  on that host or a host below it is rejected, whatever allow lists and grants say, in this state and in every
  state it is merged into.\<close>

theorem refused_domain_stays_refused:
  assumes "web_fetch_deny_key_from_url env url = Some d"
    and "url_host env url' = Some host'"
    and "web_fetch_deny_key env host' = d \<or> (\<exists>p. p \<noteq> [] \<and> web_fetch_deny_key env host' = p @ ''.'' @ d)"
    and "st' = fst (record_prompt_outcome env st (WebFetch url) (RejectAlwaysDomain client_domain))"
  shows "\<exists>r. session_grant_pre_decision env static_allows (WebFetch url') ev (merge_grants_from later st') edits honor pin =
    Some (Reject r, SESSION_DENY)"
proof -
  have "d \<noteq> []" using assms(1) by (auto simp: web_fetch_deny_key_from_url_def Let_def split: option.splits if_splits)
  with assms(3) have "domain_denied_by (web_fetch_deny_key env host') d" using denied_subdomain by auto
  moreover have m: "d \<in> set (disallowed_web_fetch_domains (merge_grants_from later st'))"
    using assms(1,4) by (simp add: record_prompt_outcome_def record_web_outcome_def merge_grants_from_def)
  ultimately obtain d' where
    "List.find (domain_denied_by (web_fetch_deny_key env host')) (disallowed_web_fetch_domains (merge_grants_from later st')) = Some d'"
    by (cases "List.find (domain_denied_by (web_fetch_deny_key env host')) (disallowed_web_fetch_domains (merge_grants_from later st'))")
      (auto simp: find_None_iff)
  moreover have "disallowed_web_fetch_domains (merge_grants_from later st') \<noteq> []" using m by auto
  ultimately show ?thesis
    using assms(2) by (simp add: session_grant_pre_decision_def web_fetch_deny_pre_decision_def denied_web_fetch_domain_def)
qed

section \<open>Two gaps\<close>

lemma segments_loop_git:
  "has_git_command (snd (segments_loop env st h raws acc)) \<Longrightarrow>
   has_git_command acc \<or> (\<exists>raw\<in>set raws. has_git (segment_exec_facts_of raw))"
proof (induction env st h raws acc rule: segments_loop.induct)
  case (2 env st h raw rest acc)
  have w: "has_git_command (weigh_segment env st h w a) = has_git_command a" for w a
    by (simp add: weigh_segment_def Let_def)
  have s: "has_git_command (scan_segment raw acc) \<longleftrightarrow> has_git_command acc \<or> has_git (segment_exec_facts_of raw)"
    by (simp add: scan_segment_def Let_def)
  show ?case using 2 by (auto simp: Let_def w s split: if_splits option.splits)
qed simp

lemma ambient_without_git:
  assumes "shell_parse env cmd = Some t" and "try_parse_word_only_commands_sequence t cmd = Some segs"
    and "list_all (\<lambda>c. \<not> has_git (segment_exec_facts_of (pc_words c))) segs"
  shows "evaluate_bash_with_ambient env repo_risk cmd st cwd = evaluate_bash env cmd st True"
proof -
  have g: "\<not> has_git_command (snd (segments_loop env st True (map pc_words segs) (no_facts f)))" for f
    using segments_loop_git [of env st True "map pc_words segs" "no_facts f"] assms(3)
    by (auto simp: no_facts_def list_all_iff)
  have "ambient_segments (segmented_evaluation env t cmd st True wr ef segs) = None" for wr ef
    using g [of "snd wr \<union> ef"] unfolding segmented_evaluation_def by (auto split: prod.splits option.splits)
  then have "ambient_segments (evaluate_bash env cmd st True) = None"
    using assms(1,2) by (simp add: evaluate_bash_def Let_def)
  then show ?thesis by (simp add: evaluate_bash_with_ambient_def Let_def)
qed

definition command_tree :: "(nat \<times> nat) list \<Rightarrow> tree" where
  "command_tree spans =
     (let stop = snd (last spans); ws = map (\<lambda>(i, j). word_node i j) spans
      in \<lparr>root_node = Node ''program'' True [] 0 stop
            [Node ''command'' True [] 0 stop
              (Node ''command_name'' True [] 0 (snd (hd spans)) [hd ws] # tl ws)],
          has_error = False\<rparr>)"

lemma harmless_evaluation:
  assumes "shell_parse env cmd = Some t" and "try_parse_word_only_commands_sequence t cmd = Some segs"
    and "live_segments (map pc_words segs) = [w]" and "script_findings t cmd segs = {}"
    and "\<not> is_dangerous_command_words w" and "\<not> special_exec_surface w"
    and "\<not> denied_words st w"
  shows "(\<exists>why. bash_grant_pre_decision cmd (evaluate_bash env cmd st h) st pin opts = Some (DAllow, why)) \<longleftrightarrow>
    (if matched_grant env st w \<or> h \<and> matched_safe w then honor_safe_lists opts \<or> matched_grant env st w
     else allow_blanket opts \<and> persisted_bash_auto_allows st cmd pin)"
proof -
  have nd: "\<not> (\<exists>d\<in>set (disallowed_bash_commands st). session_denied env cmd d)"
    using assms(1-3,7) by (auto simp: session_denied_iff denied_words_def all_commands_from_script_def)
  note e = evaluate_segmented [OF assms(1,2) nd, of h, unfolded assms(3)]
  have n: "needs_no_prompt env st h w \<longleftrightarrow> matched_grant env st w \<or> h \<and> matched_safe w"
    using assms(5,6) by (simp add: needs_no_prompt_def)
  have a: "assessment (evaluate_bash env cmd st h) = {}"
    using e(4) assms(4-6) by (simp add: weighed_findings_def)
  show ?thesis
  proof (cases "needs_no_prompt env st h w")
    case True
    with e(1) obtain v where "be_segments (evaluate_bash env cmd st h) = AutoAllow v" by auto
    then show ?thesis using True n e(3) unfolding pre_decision_allow a by (simp add: constrains_broad_grant_def)
  next
    case False
    with e(1) obtain ps where "be_segments (evaluate_bash env cmd st h) = NeedsPrompts ps" by auto
    then show ?thesis using False n unfolding pre_decision_allow a by (auto simp: constrains_broad_grant_def)
  qed
qed

text \<open>A refusal of \<open>rm\<close> does not reach \<open>command rm x\<close>: the builtin is not among the wrappers that are
  peeled, so with the blanket grant the script runs unprompted although \<open>rm x\<close> is rejected.\<close>

theorem builtin_hides_refusal:
  assumes "shell_parse env ''rm x'' = Some (command_tree [(0, 2), (3, 4)])"
    and "shell_parse env ''command rm x'' = Some (command_tree [(0, 7), (8, 10), (11, 12)])"
    and "disallowed_bash_commands st = [''rm'']" and "allow_bash_execute st"
  shows "(\<exists>r. bash_grant_pre_decision ''rm x'' (evaluate_bash env ''rm x'' st True) st None PRE_CLASSIFIER
            = Some (Reject r, SESSION_DENY)) \<and>
         (\<exists>why. bash_grant_pre_decision ''command rm x'' (evaluate_bash env ''command rm x'' st True) st None PRE_CLASSIFIER
            = Some (DAllow, why))"
proof
  let ?t = "command_tree [(0, 7), (8, 10), (11, 12)]"
  let ?seg = "\<lparr>pc_words = [''command'', ''rm'', ''x''], span_start = 0, span_end = 12\<rparr>"
  let ?w = "[''command'', ''rm'', ''x'']"
  have s: "try_parse_word_only_commands_sequence ?t ''command rm x'' = Some [?seg]" by code_simp
  have f: "live_segments (map pc_words [?seg]) = [?w]" "script_findings ?t ''command rm x'' [?seg] = {}"
    "\<not> is_dangerous_command_words ?w" "\<not> special_exec_surface ?w" by code_simp+
  have "\<not> matches_command_prefix (join '' '' ?w) ''rm''" by code_simp
  then have nd: "\<not> denied_words st ?w" using assms(3) by (simp add: denied_words_def)
  show "\<exists>why. bash_grant_pre_decision ''command rm x'' (evaluate_bash env ''command rm x'' st True) st None PRE_CLASSIFIER
            = Some (DAllow, why)"
    unfolding harmless_evaluation [OF assms(2) s f nd]
    using assms(4) by (simp add: PRE_CLASSIFIER_def persisted_bash_auto_allows_def)
next
  let ?t = "command_tree [(0, 2), (3, 4)]"
  let ?seg = "\<lparr>pc_words = [''rm'', ''x''], span_start = 0, span_end = 4\<rparr>"
  have s: "try_parse_word_only_commands_sequence ?t ''rm x'' = Some [?seg]" by code_simp
  have "all_commands_from_script (shell_parse env) ''rm x'' = Some [?seg]"
    using assms(1) s by (simp add: all_commands_from_script_def)
  moreover have "[''rm'', ''x''] \<in> set (live_segments (map pc_words [?seg]))"
    "matches_command_prefix (join '' '' [''rm'', ''x'']) ''rm''" by code_simp+
  ultimately have "session_denied env ''rm x'' ''rm''" by (rule session_denied.plain_segment)
  then show "\<exists>r. bash_grant_pre_decision ''rm x'' (evaluate_bash env ''rm x'' st True) st None PRE_CLASSIFIER
            = Some (Reject r, SESSION_DENY)"
    using evaluate_rejects [of env "''rm x''" st True] assms(3)
    by (auto simp: bash_grant_pre_decision_def)
qed

definition grant_env :: policy_env where
  "grant_env = example_env\<lparr>shell_parse := (\<lambda>s.
     if s = ''rm x'' then Some (command_tree [(0, 2), (3, 4)])
     else if s = ''command rm x'' then Some (command_tree [(0, 7), (8, 10), (11, 12)])
     else if s = ''ls'' then Some (command_tree [(0, 2)])
     else if s = ''make'' then Some (command_tree [(0, 4)])
     else if s = ''make all'' then Some (command_tree [(0, 4), (5, 8)])
     else None),
     url_host := (\<lambda>u. if u = ''https://docs.site.org/a'' then Some ''docs.site.org''
       else if u = ''https://site.org'' then Some ''site.org'' else None)\<rparr>"

theorem builtin_hides_refusal_witness:
  "\<exists>why. bash_grant_pre_decision ''command rm x''
     (evaluate_bash grant_env ''command rm x'' (default_state\<lparr>disallowed_bash_commands := [''rm''], allow_bash_execute := True\<rparr>) True)
     (default_state\<lparr>disallowed_bash_commands := [''rm''], allow_bash_execute := True\<rparr>) None PRE_CLASSIFIER = Some (DAllow, why)"
proof -
  have p: "shell_parse grant_env ''rm x'' = Some (command_tree [(0, 2), (3, 4)])"
    "shell_parse grant_env ''command rm x'' = Some (command_tree [(0, 7), (8, 10), (11, 12)])"
    by (simp_all add: grant_env_def)
  show ?thesis
    by (rule builtin_hides_refusal [OF p, THEN conjunct2]) simp_all
qed

lemma pre_decision_none:
  "bash_grant_pre_decision cmd (evaluate_bash env cmd st h) st pin opts = None \<longleftrightarrow>
     \<not> (\<exists>d\<in>set (disallowed_bash_commands st). session_denied env cmd d) \<and>
     \<not> (\<exists>why. bash_grant_pre_decision cmd (evaluate_bash env cmd st h) st pin opts = Some (DAllow, why))"
  unfolding evaluate_rejects [of env cmd st h, symmetric]
  by (cases "be_segments (evaluate_bash env cmd st h)") (auto simp: bash_grant_pre_decision_def grant_if_def)

lemma hub_single_word:
  assumes "shell_parse env cmd = Some t"
    and "try_parse_word_only_commands_sequence t cmd = Some [seg]"
    and "live_segments [pc_words seg] = [w]" and "script_findings t cmd [seg] = {}"
    and "\<not> is_dangerous_command_words w" and "\<not> special_exec_surface w"
    and "\<not> has_git (segment_exec_facts_of (pc_words seg))" and "disallowed_bash_commands st = []"
    and "allow_bash_execute st"
  shows "(\<exists>why. session_grant_for_hub env (Bash cmd) (Some (evaluate_bash_with_ambient env repo_risk cmd st cwd)) st edits None
            = Some (DAllow, why)) \<longleftrightarrow> matched_grant env st w \<or> \<not> matched_safe w"
    and "session_grant_for_hub env (Bash cmd) (Some (evaluate_bash_with_ambient env repo_risk cmd st cwd)) st edits None = None \<longleftrightarrow>
      \<not> (matched_grant env st w \<or> \<not> matched_safe w)"
proof -
  have amb: "evaluate_bash_with_ambient env repo_risk cmd st cwd = evaluate_bash env cmd st True"
    by (rule ambient_without_git [OF assms(1,2)]) (use assms(7) in simp)
  have l: "live_segments (map pc_words [seg]) = [w]" using assms(3) by simp
  have nd: "\<not> denied_words st w" using assms(8) by (simp add: denied_words_def)
  have a: "(\<exists>why. bash_grant_pre_decision cmd (evaluate_bash env cmd st True) st None hub_opts = Some (DAllow, why)) \<longleftrightarrow>
      matched_grant env st w \<or> \<not> matched_safe w"
    unfolding harmless_evaluation [OF assms(1,2) l assms(4,5,6) nd]
    using assms(9) by (simp add: hub_opts_def persisted_bash_auto_allows_def)
  show "(\<exists>why. session_grant_for_hub env (Bash cmd) (Some (evaluate_bash_with_ambient env repo_risk cmd st cwd)) st edits None
            = Some (DAllow, why)) \<longleftrightarrow> matched_grant env st w \<or> \<not> matched_safe w"
    unfolding amb using a by (simp add: session_grant_for_hub_def)
  show "session_grant_for_hub env (Bash cmd) (Some (evaluate_bash_with_ambient env repo_risk cmd st cwd)) st edits None = None \<longleftrightarrow>
      \<not> (matched_grant env st w \<or> \<not> matched_safe w)"
    unfolding amb session_grant_for_hub_def access_kind.case option.case pre_decision_none a using assms(8) by simp
qed

text \<open>Calls through the hub that may run unattended: with the blanket grant an unknown command such as
  \<open>make\<close> runs without a prompt, but \<open>ls\<close>, which needs no prompt on its own account, is asked about unless it
  was granted itself.\<close>

theorem hub_blanket_misses_safe_commands:
  assumes "shell_parse env ''ls'' = Some (command_tree [(0, 2)])"
    and "shell_parse env ''make'' = Some (command_tree [(0, 4)])"
    and "allow_bash_execute st" and "disallowed_bash_commands st = []" and "\<not> matched_grant env st [''ls'']"
  shows "(\<exists>why. session_grant_for_hub env (Bash ''make'')
            (Some (evaluate_bash_with_ambient env repo_risk ''make'' st cwd)) st edits None = Some (DAllow, why)) \<and>
         session_grant_for_hub env (Bash ''ls'')
            (Some (evaluate_bash_with_ambient env repo_risk ''ls'' st cwd)) st edits None = None"
proof
  let ?m = "\<lparr>pc_words = [''make''], span_start = 0, span_end = 4\<rparr>"
  have m: "try_parse_word_only_commands_sequence (command_tree [(0, 4)]) ''make'' = Some [?m]"
    "live_segments [pc_words ?m] = [[''make'']]" "script_findings (command_tree [(0, 4)]) ''make'' [?m] = {}"
    "\<not> is_dangerous_command_words [''make'']" "\<not> special_exec_surface [''make'']"
    "\<not> has_git (segment_exec_facts_of (pc_words ?m))" "\<not> matched_safe [''make'']" by code_simp+
  show "\<exists>why. session_grant_for_hub env (Bash ''make'')
            (Some (evaluate_bash_with_ambient env repo_risk ''make'' st cwd)) st edits None = Some (DAllow, why)"
    unfolding hub_single_word(1) [OF assms(2) m(1-6) assms(4,3)] using m(7) by simp
next
  let ?l = "\<lparr>pc_words = [''ls''], span_start = 0, span_end = 2\<rparr>"
  have l: "try_parse_word_only_commands_sequence (command_tree [(0, 2)]) ''ls'' = Some [?l]"
    "live_segments [pc_words ?l] = [[''ls'']]" "script_findings (command_tree [(0, 2)]) ''ls'' [?l] = {}"
    "\<not> is_dangerous_command_words [''ls'']" "\<not> special_exec_surface [''ls'']"
    "\<not> has_git (segment_exec_facts_of (pc_words ?l))" "matched_safe [''ls'']" by code_simp+
  show "session_grant_for_hub env (Bash ''ls'')
            (Some (evaluate_bash_with_ambient env repo_risk ''ls'' st cwd)) st edits None = None"
    unfolding hub_single_word(2) [OF assms(1) l(1-6) assms(4,3)] using l(7) assms(5) by simp
qed

theorem hub_blanket_misses_safe_commands_witness:
  "session_grant_for_hub grant_env (Bash ''ls'')
     (Some (evaluate_bash_with_ambient grant_env (\<lambda>_. False) ''ls'' (default_state\<lparr>allow_bash_execute := True\<rparr>) ''/w''))
     (default_state\<lparr>allow_bash_execute := True\<rparr>) False None = None"
proof -
  have p: "shell_parse grant_env ''ls'' = Some (command_tree [(0, 2)])"
    "shell_parse grant_env ''make'' = Some (command_tree [(0, 4)])"
    by (simp_all add: grant_env_def)
  show ?thesis
    by (rule hub_blanket_misses_safe_commands [OF p, THEN conjunct2])
      (simp_all add: default_state_def matched_grant_def Let_def)
qed

section \<open>Witnesses\<close>

theorem broad_grant_covers_only_witness:
  "\<not> constrains_broad_grant (script_findings (command_tree [(0, 4)]) ''make'' [\<lparr>pc_words = [''make''], span_start = 0, span_end = 4\<rparr>])"
proof -
  let ?st = "default_state\<lparr>allow_bash_execute := True\<rparr>" and ?m = "\<lparr>pc_words = [''make''], span_start = 0, span_end = 4\<rparr>"
  have p: "shell_parse grant_env ''make'' = Some (command_tree [(0, 4)])" by (simp add: grant_env_def)
  have m: "try_parse_word_only_commands_sequence (command_tree [(0, 4)]) ''make'' = Some [?m]" by code_simp
  obtain why where d: "bash_grant_pre_decision ''make'' (evaluate_bash grant_env ''make'' ?st True) ?st None PRE_CLASSIFIER = Some (DAllow, why)"
  proof -
    have f: "live_segments (map pc_words [?m]) = [[''make'']]" "script_findings (command_tree [(0, 4)]) ''make'' [?m] = {}"
      "\<not> is_dangerous_command_words [''make'']" "\<not> special_exec_surface [''make'']" by code_simp+
    have nd: "\<not> denied_words ?st [''make'']" by (simp add: denied_words_def default_state_def)
    show ?thesis
      using that harmless_evaluation [OF p m f nd, of True None PRE_CLASSIFIER]
      by (auto simp: PRE_CLASSIFIER_def persisted_bash_auto_allows_def default_state_def split: if_splits)
  qed
  have c: "conservative_blanket PRE_CLASSIFIER" by (simp add: PRE_CLASSIFIER_def)
  have n: "''make'' \<notin> set (allowed_bash_commands ?st)" by (simp add: default_state_def)
  have w: "\<not> whole_script_grant grant_env ''make'' [?m] ?st"
    by (simp add: whole_script_grant_def default_state_def)
  show ?thesis
    using broad_grant_covers_only [OF c d n] p m w by auto
qed


theorem scope_stores_exactly_witness:
  "record_prompt_outcome grant_env default_state (Bash ''make all'') (AllowAlwaysBashCommand ''make'') =
     (default_state\<lparr>allowed_bash_commands := [''make'']\<rparr>, Some ''make'')"
proof -
  let ?hl = "\<lparr>hl_prefix = [], highlighted_words = [''make'', ''all''], hl_suffix = []\<rparr>"
  have p: "primary_command_from_script (shell_parse grant_env) ''make all'' = Some ?hl" by code_simp
  have a: "always_allow_scope_persists grant_env ?hl 1" "words_join_unambiguously grant_env [''make'']" by code_simp+
  show ?thesis using scope_stores_exactly [OF p, of 1 default_state] a
    by (simp add: insert_command_grant_def hs_insert_def default_state_def)
qed

theorem mcp_answer_contained_witness:
  "\<exists>i tool. parse_mcp_qualified_name ''github__list'' = Some (i, ''github'', tool)"
proof -
  have "mcp_pre_decision ''github__list'' (fst (record_prompt_outcome grant_env default_state (MCPTool ''github__create_issue'')
      (AllowAlwaysMcpServer ''github''))) False False = Some DAllow"
    "mcp_pre_decision ''github__list'' default_state False False \<noteq> Some DAllow" by code_simp+
  from mcp_answer_contained [OF this] show ?thesis by auto
qed

theorem refused_domain_stays_refused_witness:
  "\<exists>r. session_grant_pre_decision grant_env (\<lambda>_. True) (WebFetch ''https://docs.site.org/a'') None
     (merge_grants_from default_state
       (fst (record_prompt_outcome grant_env default_state (WebFetch ''https://site.org'') (RejectAlwaysDomain ''site.org''))))
     False True None = Some (Reject r, SESSION_DENY)"
proof -
  have k: "web_fetch_deny_key_from_url grant_env ''https://site.org'' = Some ''site.org''"
    "url_host grant_env ''https://docs.site.org/a'' = Some ''docs.site.org''" by code_simp+
  have "web_fetch_deny_key grant_env ''docs.site.org'' = ''docs'' @ ''.'' @ ''site.org''" by code_simp
  then have "web_fetch_deny_key grant_env ''docs.site.org'' = ''site.org'' \<or>
      (\<exists>p. p \<noteq> [] \<and> web_fetch_deny_key grant_env ''docs.site.org'' = p @ ''.'' @ ''site.org'')" by blast
  from refused_domain_stays_refused [OF k this refl] show ?thesis .
qed

end
