(* ===== verification/Gate_Preflight.thy ===== *)
theory Gate_Preflight
  imports Session_Grants
begin

text \<open>
  The managed policy as the permission manager asks for it, \<open>permission/gate_preflight.rs\<close>: the direct rules and
  both shell gates are evaluated once per request and their answers kept apart, with the reasons of
  \<open>manager/reasons.rs\<close>. Also the fast paths of auto mode (\<open>auto_mode/mod.rs\<close>) and the state of a classification
  (\<open>manager/request_classification.rs\<close>). The theory shows when the managed policy rejects a request and that a
  request for several files is rejected, asked or allowed as its files are.
\<close>

section \<open>Reasons\<close>

definition YOLO :: string where "YOLO = ''yolo''"
definition POLICY_ALLOW :: string where "POLICY_ALLOW = ''policy_allow''"
definition POLICY_DENY :: string where "POLICY_DENY = ''policy_deny''"
definition POLICY_ASK :: string where "POLICY_ASK = ''policy_ask''"
definition BASH_COMMAND_GATE_ASK :: string where "BASH_COMMAND_GATE_ASK = ''bash_command_gate_ask''"
definition SHELL_FILE_GATE_ASK :: string where "SHELL_FILE_GATE_ASK = ''shell_file_gate_ask''"
definition AUTO_FAST_PATH :: string where "AUTO_FAST_PATH = ''auto_fast_path''"
definition AUTO_CLASSIFIER_ALLOW :: string where "AUTO_CLASSIFIER_ALLOW = ''auto_classifier_allow''"
definition AUTO_CLASSIFIER_DENY :: string where "AUTO_CLASSIFIER_DENY = ''auto_classifier_deny''"
definition AUTO_CLASSIFIER_TIMEOUT :: string where "AUTO_CLASSIFIER_TIMEOUT = ''auto_classifier_timeout''"
definition AUTO_CLASSIFIER_UNAVAILABLE :: string where "AUTO_CLASSIFIER_UNAVAILABLE = ''auto_classifier_unavailable''"
definition AUTO_DENIAL_LIMIT :: string where "AUTO_DENIAL_LIMIT = ''auto_denial_limit''"
definition SANDBOX_AUTO :: string where "SANDBOX_AUTO = ''sandbox_auto''"
definition PERSISTED_GRANT :: string where "PERSISTED_GRANT = ''persisted_grant''"
definition PROMPT_DENY :: string where "PROMPT_DENY = ''prompt_deny''"
definition PROMPT_ALLOW :: string where "PROMPT_ALLOW = ''prompt_allow''"
definition NEEDS_USER :: string where "NEEDS_USER = ''needs_user''"
definition BASH_REQUEST_FLOOR :: string where "BASH_REQUEST_FLOOR = ''bash_request_floor''"
definition OPAQUE_SHELL :: string where "OPAQUE_SHELL = ''opaque_shell''"
definition HOOK_ASK :: string where "HOOK_ASK = ''hook_ask''"
definition REQUESTER_GONE :: string where "REQUESTER_GONE = ''requester_gone''"

lemmas reason_defs = YOLO_def POLICY_ALLOW_def POLICY_DENY_def POLICY_ASK_def BASH_COMMAND_GATE_ASK_def
  SHELL_FILE_GATE_ASK_def AUTO_FAST_PATH_def AUTO_CLASSIFIER_ALLOW_def AUTO_CLASSIFIER_DENY_def
  AUTO_CLASSIFIER_TIMEOUT_def AUTO_CLASSIFIER_UNAVAILABLE_def AUTO_DENIAL_LIMIT_def SANDBOX_AUTO_def
  PERSISTED_GRANT_def PROMPT_DENY_def PROMPT_ALLOW_def NEEDS_USER_def BASH_REQUEST_FLOOR_def OPAQUE_SHELL_def
  HOOK_ASK_def REQUESTER_GONE_def SESSION_GRANT_def SESSION_DENY_def SAFE_COMMAND_def STATIC_ALLOWLIST_def

section \<open>Preflight\<close>

record gate_preflight =
  direct :: "decision option"
  bash_command :: "gate_decision option"
  shell_file :: "gate_decision option"
  native_symlink_fail_closed :: bool
  pf_defers_gate_ask :: bool

definition preflight_evaluate ::
  "policy_env \<Rightarrow> compiled_policy option \<Rightarrow> access_kind \<Rightarrow> string \<Rightarrow> bool \<Rightarrow> gate_preflight" where
  "preflight_evaluate env policy access cwd auto_mode =
     (let (drct, symlink) = (case policy of
                               Some pol \<Rightarrow> evaluate_with_cwd_details env pol access (Some cwd)
                             | None \<Rightarrow> (None, False));
          (bash, files) = (case (policy, access) of
                             (Some pol, Bash cmd) \<Rightarrow>
                               (evaluate_bash_command_gate env pol cmd, evaluate_shell_file_access_gate env pol cmd cwd)
                           | _ \<Rightarrow> (None, None));
          rule_match_ask = (drct = Some DAsk \<or> bash = Some AskRuleMatch \<or> files = Some AskRuleMatch);
          fail_closed_ask = (bash = Some AskFailClosed \<or> files = Some AskFailClosed)
      in \<lparr>direct = drct, bash_command = bash, shell_file = files, native_symlink_fail_closed = symlink,
          pf_defers_gate_ask = (auto_mode \<and> fail_closed_ask \<and> \<not> rule_match_ask)\<rparr>)"

fun edit_targets_loop ::
  "policy_env \<Rightarrow> compiled_policy \<Rightarrow> string \<Rightarrow> string list \<Rightarrow> decision option \<times> bool \<times> bool \<Rightarrow> decision option \<times> bool \<times> bool" where
  "edit_targets_loop env pol cwd [] acc = acc"
| "edit_targets_loop env pol cwd (p # ps) (escalation, all_allowed, symlink) =
     (case evaluate_with_cwd_details env pol (Edit p) (Some cwd) of
        (d, fail_closed) \<Rightarrow>
          edit_targets_loop env pol cwd ps
            (case d of
               Some DAsk \<Rightarrow> combine_decisions escalation d
             | Some (Reject _) \<Rightarrow> combine_decisions escalation d
             | _ \<Rightarrow> escalation,
             all_allowed \<and> d = Some DAllow, symlink \<or> fail_closed))"

definition evaluate_edit_targets ::
  "policy_env \<Rightarrow> compiled_policy option \<Rightarrow> string list \<Rightarrow> string \<Rightarrow> gate_preflight \<Rightarrow> gate_preflight" where
  "evaluate_edit_targets env policy targets cwd pf =
     (case policy of
        None \<Rightarrow> pf\<lparr>direct := None, native_symlink_fail_closed := False\<rparr>
      | Some pol \<Rightarrow>
          (case edit_targets_loop env pol cwd targets (None, targets \<noteq> [], False) of
             (escalation, all_allowed, symlink) \<Rightarrow>
               pf\<lparr>direct := (case escalation of Some d \<Rightarrow> Some d | None \<Rightarrow> if all_allowed then Some DAllow else None),
                  native_symlink_fail_closed := symlink\<rparr>))"

definition policy_decision :: "gate_preflight \<Rightarrow> decision option" where
  "policy_decision pf =
     combine_decisions (combine_decisions (direct pf) (map_option into_decision (bash_command pf)))
       (map_option into_decision (shell_file pf))"

definition policy_forced_prompt :: "gate_preflight \<Rightarrow> bool" where
  "policy_forced_prompt pf \<longleftrightarrow> policy_decision pf = Some DAsk"

definition some_ask :: "gate_decision option \<Rightarrow> bool" where
  "some_ask g = (case g of Some d \<Rightarrow> is_ask d | None \<Rightarrow> False)"

definition shell_file_forced_prompt :: "gate_preflight \<Rightarrow> bool" where
  "shell_file_forced_prompt pf = some_ask (shell_file pf)"

definition shell_forced_prompt :: "gate_preflight \<Rightarrow> bool" where
  "shell_forced_prompt pf \<longleftrightarrow>
     some_ask (bash_command pf) \<or> shell_file_forced_prompt pf \<or> native_symlink_fail_closed pf"

definition defers_gate_ask :: "gate_preflight \<Rightarrow> bool" where
  "defers_gate_ask pf = pf_defers_gate_ask pf"

definition admits_auto_classifier :: "gate_preflight \<Rightarrow> bool" where
  "admits_auto_classifier pf \<longleftrightarrow> \<not> policy_forced_prompt pf \<or> defers_gate_ask pf"

definition prompt_trigger :: "gate_preflight \<Rightarrow> string option \<Rightarrow> string option" where
  "prompt_trigger pf auto_prompt_reason =
     (if direct pf = Some DAsk then Some POLICY_ASK
      else if defers_gate_ask pf then auto_prompt_reason
      else if some_ask (bash_command pf) then Some BASH_COMMAND_GATE_ASK
      else if shell_file_forced_prompt pf then Some SHELL_FILE_GATE_ASK
      else auto_prompt_reason)"

section \<open>Auto mode\<close>

definition access_requires_user_interaction :: "string \<Rightarrow> access_kind \<Rightarrow> bool" where
  "access_requires_user_interaction tool_name access \<longleftrightarrow>
     (let t = to_ascii_lowercase tool_name
      in contains_str t ''ask_user'' \<or> contains_str t ''askuserquestion'' \<or> contains_str t ''user_question'' \<or>
         t = ''ask_user_question'') \<or>
     (case access of
        MCPTool name \<Rightarrow>
          (let n = to_ascii_lowercase name
           in contains_str n ''ask_user'' \<or> contains_str n ''confirm'' \<and> contains_str n ''human'')
      | _ \<Rightarrow> False)"

definition is_auto_mode_allowlisted_access :: "access_kind \<Rightarrow> bool" where
  "is_auto_mode_allowlisted_access access =
     (case access of Read _ \<Rightarrow> True | Grep _ _ \<Rightarrow> True | WebSearch _ \<Rightarrow> True | _ \<Rightarrow> False)"

definition is_auto_mode_allowlisted_tool_name :: "string \<Rightarrow> bool" where
  "is_auto_mode_allowlisted_tool_name tool_name \<longleftrightarrow>
     tool_name \<in> {''todo_write'', ''TodoWrite'', ''task_output'', ''TaskOutput'', ''wait_tasks'', ''WaitTasks'',
       ''ask_user_question'', ''AskUserQuestion'', ''enter_plan_mode'', ''EnterPlanMode'', ''exit_plan_mode'',
       ''ExitPlanMode'', ''switch_mode'', ''SwitchMode'', ''create_plan'', ''CreatePlan'', ''update_plan'',
       ''UpdatePlan'', ''list_mcp_resources'', ''ListMcpResources'', ''read_mcp_resource'', ''ReadMcpResource'',
       ''tool_search'', ''ToolSearch'', ''sleep'', ''Sleep''}"

datatype auto_fast_path = FastAllow | FastPromptUser | FastClassify

definition auto_mode_fast_path :: "access_kind \<Rightarrow> string \<Rightarrow> bool \<Rightarrow> auto_fast_path" where
  "auto_mode_fast_path access tool_name requires_user_interaction =
     (if requires_user_interaction then FastPromptUser
      else if is_auto_mode_allowlisted_access access \<or> is_auto_mode_allowlisted_tool_name tool_name then FastAllow
      else (case access of
              Edit _ \<Rightarrow> FastAllow
            | AgentMessage _ \<Rightarrow> FastAllow
            | Bash cmd \<Rightarrow> (if trim cmd \<in> {''true'', '':'', ''false''} then FastAllow else FastClassify)
            | _ \<Rightarrow> FastClassify))"

definition AUTO_DENY_CONSECUTIVE_LIMIT :: nat where "AUTO_DENY_CONSECUTIVE_LIMIT = 3"
definition AUTO_DENY_TOTAL_LIMIT :: nat where "AUTO_DENY_TOTAL_LIMIT = 20"

definition AUTO_DENY_GUIDANCE :: string where
  "AUTO_DENY_GUIDANCE =
     ''Take a safer approach that stays within what the user asked for; do not retry this exact action or attempt to work around the denial. If no safer alternative exists, ask the user how to proceed.''"

datatype classifier_verdict = VAllow | VBlock | VUnavailable
datatype classifier_failure = FTimeout | FTransportError string
datatype classifier_provenance = PLlm | PHeuristic | PFailure classifier_failure

record classifier_outcome =
  verdict :: classifier_verdict
  co_reason :: "string option"
  provenance :: classifier_provenance

definition heuristic :: "classifier_verdict \<Rightarrow> classifier_outcome" where
  "heuristic v = \<lparr>verdict = v, co_reason = None, provenance = PHeuristic\<rparr>"

definition is_timeout :: "classifier_outcome \<Rightarrow> bool" where
  "is_timeout o' \<longleftrightarrow> provenance o' = PFailure FTimeout"

datatype classification_source = SClassifier classifier_provenance | SNotWired

datatype request_classification =
    NotClassified
  | FastPath
  | Classified security_assessment "(classifier_verdict \<times> classification_source) option"

fun classified_verdict :: "request_classification \<Rightarrow> classifier_verdict option" where
  "classified_verdict (Classified _ (Some (v, _))) = Some v"
| "classified_verdict _ = None"

fun security_findings_of :: "request_classification \<Rightarrow> security_assessment option" where
  "security_findings_of (Classified a _) = Some a"
| "security_findings_of _ = None"

section \<open>When the managed policy rejects\<close>

definition managed_verdict :: "decision option \<Rightarrow> bool" where
  "managed_verdict d = (case d of None \<Rightarrow> True | Some DAllow \<Rightarrow> True | Some DAsk \<Rightarrow> True | Some (Reject _) \<Rightarrow> True | _ \<Rightarrow> False)"

lemma managed_combine: "managed_verdict a \<Longrightarrow> managed_verdict b \<Longrightarrow> managed_verdict (combine_decisions a b)"
  by (cases a; cases b) (auto simp: managed_verdict_def split: if_splits)

lemma managed_lexical: "managed_verdict (evaluate_lexical_with_cwd env pol access cwd)"
  by (auto simp: managed_verdict_def evaluate_lexical_with_cwd_def split: sum.split prod.split access_kind.split)

lemma managed_restrictive: "managed_verdict (only_restrictive d)"
  by (auto simp: managed_verdict_def only_restrictive_def split: option.split decision.split)

lemma managed_details: "managed_verdict (fst (evaluate_with_cwd_details env pol access cwd))"
proof -
  have ask: "managed_verdict (Some DAsk)" by (simp add: managed_verdict_def)
  show ?thesis unfolding evaluate_with_cwd_details_def Let_def
    by (auto split: option.split symlink_follow.split intro: managed_combine managed_lexical managed_restrictive ask)
qed

lemma managed_gate: "managed_verdict (map_option into_decision g)"
  by (cases g rule: option.exhaust; cases "the g") (auto simp: managed_verdict_def)

lemma rejects_iff: "managed_verdict d \<Longrightarrow> (\<exists>r. d = Some (Reject r)) \<longleftrightarrow> cd.at_least 3 d"
  by (cases d rule: option.exhaust; cases "the d") (auto simp: managed_verdict_def cd.at_least_def)

lemma gate_rejects_iff: "(\<exists>r. g = Some (GReject r)) \<longleftrightarrow> cd.at_least 3 (map_option into_decision g)"
  by (cases g rule: option.exhaust; cases "the g") (auto simp: cd.at_least_def)

lemma managed_policy_decision: "managed_verdict (direct pf) \<Longrightarrow> managed_verdict (policy_decision pf)"
  unfolding policy_decision_def by (intro managed_combine managed_gate)

lemma policy_rejects_iff:
  assumes "managed_verdict (direct pf)"
  shows "(\<exists>r. policy_decision pf = Some (Reject r)) \<longleftrightarrow>
    (\<exists>r. direct pf = Some (Reject r)) \<or> (\<exists>r. bash_command pf = Some (GReject r)) \<or> (\<exists>r. shell_file pf = Some (GReject r))"
  unfolding rejects_iff [OF managed_policy_decision [OF assms]] rejects_iff [OF assms] gate_rejects_iff
  by (simp add: policy_decision_def cd.at_least_combine)

lemma preflight_sel:
  "direct (preflight_evaluate env policy access cwd auto_mode) =
     (case policy of Some pol \<Rightarrow> evaluate_with_cwd env pol access (Some cwd) | None \<Rightarrow> None)"
  "bash_command (preflight_evaluate env policy access cwd auto_mode) =
     (case (policy, access) of (Some pol, Bash cmd) \<Rightarrow> evaluate_bash_command_gate env pol cmd | _ \<Rightarrow> None)"
  "shell_file (preflight_evaluate env policy access cwd auto_mode) =
     (case (policy, access) of (Some pol, Bash cmd) \<Rightarrow> evaluate_shell_file_access_gate env pol cmd cwd | _ \<Rightarrow> None)"
  by (auto simp: preflight_evaluate_def Let_def evaluate_with_cwd_def case_prod_unfold split: option.split access_kind.split)

lemma managed_preflight: "managed_verdict (direct (preflight_evaluate env policy access cwd auto_mode))"
  by (auto simp: preflight_sel evaluate_with_cwd_def managed_details split: option.split)
     (simp add: managed_verdict_def)

section \<open>Several files\<close>

lemma edit_targets_loop_result:
  "edit_targets_loop env pol cwd ps (e, a, s) = (e', a', s') \<Longrightarrow>
   (\<forall>k\<ge>2. cd.at_least k e' \<longleftrightarrow> cd.at_least k e \<or> (\<exists>p\<in>set ps. cd.at_least k (evaluate_with_cwd env pol (Edit p) (Some cwd)))) \<and>
   (managed_verdict e \<longrightarrow> managed_verdict e') \<and>
   (a' \<longleftrightarrow> a \<and> (\<forall>p\<in>set ps. evaluate_with_cwd env pol (Edit p) (Some cwd) = Some DAllow))"
proof (induction ps arbitrary: e a s)
  case (Cons p ps)
  let ?d = "evaluate_with_cwd env pol (Edit p) (Some cwd)"
  let ?e = "case ?d of Some DAsk \<Rightarrow> combine_decisions e ?d | Some (Reject _) \<Rightarrow> combine_decisions e ?d | _ \<Rightarrow> e"
  have m: "managed_verdict ?d" unfolding evaluate_with_cwd_def by (rule managed_details)
  have l: "edit_targets_loop env pol cwd ps
      (?e, a \<and> ?d = Some DAllow, s \<or> snd (evaluate_with_cwd_details env pol (Edit p) (Some cwd))) = (e', a', s')"
    using Cons.prems unfolding evaluate_with_cwd_def by (simp add: case_prod_unfold)
  have k: "cd.at_least k ?e \<longleftrightarrow> cd.at_least k e \<or> cd.at_least k ?d" if "2 \<le> k" for k
  proof (cases "?d = Some DAsk \<or> (\<exists>r. ?d = Some (Reject r))")
    case True
    then have "?e = combine_decisions e ?d" by auto
    then show ?thesis by (simp only: cd.at_least_combine)
  next
    case False
    then have "?e = e" "?d = None \<or> ?d = Some DAllow"
      using m by (auto simp: managed_verdict_def split: option.splits decision.splits)
    then show ?thesis using that by (auto simp: cd.at_least_def)
  qed
  have "managed_verdict e \<longrightarrow> managed_verdict ?e"
    using m managed_combine by (auto split: option.splits decision.splits)
  with Cons.IH [OF l] k show ?case by auto
qed simp

lemma edit_targets_loop_allow:
  "edit_targets_loop env pol cwd ps (e, a, s) = (e', a', s') \<Longrightarrow> e \<noteq> Some DAllow \<Longrightarrow> e' \<noteq> Some DAllow"
proof (induction ps arbitrary: e a s)
  case (Cons p ps)
  have c: "combine_decisions e (Some d) \<noteq> Some DAllow" if "d = DAsk \<or> (\<exists>r. d = Reject r)" for d
    using that Cons.prems(2) by (cases e) auto
  from Cons.prems c show ?case
    by (auto simp: case_prod_unfold split: option.splits decision.splits elim!: Cons.IH)
qed simp

text \<open>A request for several files is decided as its files are: rejected when one is, otherwise asked when one
  is, and allowed only when all are.\<close>

lemma edit_targets_decided:
  assumes "targets \<noteq> []"
  shows "managed_verdict (direct (evaluate_edit_targets env (Some pol) targets cwd pf))"
    and "(\<exists>r. direct (evaluate_edit_targets env (Some pol) targets cwd pf) = Some (Reject r)) \<longleftrightarrow>
      (\<exists>p\<in>set targets. \<exists>r. evaluate_with_cwd env pol (Edit p) (Some cwd) = Some (Reject r))"
    and "direct (evaluate_edit_targets env (Some pol) targets cwd pf) = Some DAllow \<longleftrightarrow>
      (\<forall>p\<in>set targets. evaluate_with_cwd env pol (Edit p) (Some cwd) = Some DAllow)"
proof -
  obtain e a s where l: "edit_targets_loop env pol cwd targets (None, True, False) = (e, a, s)" by (metis prod_cases3)
  let ?d = "direct (evaluate_edit_targets env (Some pol) targets cwd pf)"
  have d: "?d = (case e of Some x \<Rightarrow> Some x | None \<Rightarrow> if a then Some DAllow else None)"
    using assms l by (simp add: evaluate_edit_targets_def)
  have n: "managed_verdict None" "\<And>k. \<not> cd.at_least k None" by (simp_all add: managed_verdict_def cd.at_least_def)
  note r = edit_targets_loop_result [OF l]
  have me: "managed_verdict e" using r n by blast
  have m: "managed_verdict (evaluate_with_cwd env pol (Edit p) (Some cwd))" for p
    unfolding evaluate_with_cwd_def by (rule managed_details)
  show md: "managed_verdict ?d" using me unfolding d by (auto simp: managed_verdict_def split: option.splits)
  have low: "cd.at_least k ?d \<longleftrightarrow> cd.at_least k e" if "2 \<le> k" for k
    using that unfolding d by (auto simp: cd.at_least_def split: option.splits)
  show "(\<exists>r. ?d = Some (Reject r)) \<longleftrightarrow>
      (\<exists>p\<in>set targets. \<exists>r. evaluate_with_cwd env pol (Edit p) (Some cwd) = Some (Reject r))"
    unfolding rejects_iff [OF md] rejects_iff [OF m] using r n(2) low [of 3] by simp
  have e2: "e = None \<or> cd.at_least 2 e"
  proof -
    have "e \<noteq> Some DAllow" by (rule edit_targets_loop_allow [OF l]) simp
    then show ?thesis using me by (auto simp: managed_verdict_def cd.at_least_def split: option.splits decision.splits)
  qed
  show "?d = Some DAllow \<longleftrightarrow> (\<forall>p\<in>set targets. evaluate_with_cwd env pol (Edit p) (Some cwd) = Some DAllow)"
  proof
    assume "?d = Some DAllow"
    then have "e = None" "a" using e2 unfolding d by (auto simp: cd.at_least_def split: option.splits if_splits)
    with r show "\<forall>p\<in>set targets. evaluate_with_cwd env pol (Edit p) (Some cwd) = Some DAllow" by simp
  next
    assume all: "\<forall>p\<in>set targets. evaluate_with_cwd env pol (Edit p) (Some cwd) = Some DAllow"
    then have "\<not> cd.at_least 2 e" using r n(2) by (auto simp: cd.at_least_def)
    with e2 r all show "?d = Some DAllow" unfolding d by auto
  qed
qed

end
