(* ===== verification/Hub_Gate.thy ===== *)
theory Hub_Gate
  imports Session_Grants Protected_Edits Patch_Parser
begin

text \<open>
  How a tool call that arrives through the hub is settled: \<open>permission/hub_gate.rs\<close> with the
  replies of \<open>permission/hub_permission.rs\<close>, the protected targets of \<open>manager/hub_grants.rs\<close>, the path
  resolution of \<open>xai-grok-tools/src/types/resources.rs\<close> and the calls of \<open>hub.rs\<close>. What happens around one
  settlement (the policy at that moment, a state reloaded from disk, the reply of the owner) is an event that
  is given. Tilde expansion (the crate shellexpand) and the parsing of a tool's input are arguments. The theory
  shows what can make a call run: never over a remembered refusal, and on a protected target only with the
  owner's consent.
\<close>

section \<open>Paths from the model\<close>

definition ends_with_quote :: "string \<Rightarrow> bool" where
  "ends_with_quote s \<longleftrightarrow> s \<noteq> [] \<and> last s \<in> {dq, sq}"

definition strip_escape :: "string \<Rightarrow> string option" where
  "strip_escape s =
     (case strip_suffix s [CHR 0x5C, CHR ''n''] of
        Some r \<Rightarrow> Some r
      | None \<Rightarrow>
          (case strip_suffix s [CHR 0x5C, CHR ''r''] of
             Some r \<Rightarrow> Some r
           | None \<Rightarrow> strip_suffix s [CHR 0x5C, CHR ''t'']))"

lemma strip_seqs_shorter: "length (strip_seqs seqs s) \<le> length s"
proof (induction seqs s rule: strip_seqs.induct)
  case (1 seqs s)
  then show ?case by (subst strip_seqs.simps) (auto split: option.splits intro: le_trans)
qed

lemma trim_end_shorter: "length (trim_end s) \<le> length s"
  unfolding trim_end_def using strip_seqs_shorter [of _ "rev s"] by simp

lemma strip_escape_shorter: "strip_escape s = Some r \<Longrightarrow> length r < length s"
  by (auto simp: strip_escape_def strip_suffix_def suffix_def split: option.splits if_splits)

function strip_escapes :: "string \<Rightarrow> string" where
  "strip_escapes s = (case strip_escape s of Some r \<Rightarrow> strip_escapes (trim_end r) | None \<Rightarrow> s)"
  by pat_completeness auto
termination
  by (relation "measure length") (auto dest!: strip_escape_shorter intro: le_less_trans [OF trim_end_shorter])

declare strip_escapes.simps [simp del]

definition sanitize_model_path_arg :: "string \<Rightarrow> string" where
  "sanitize_model_path_arg input =
     (let trimmed = trim input;
          quote_wrapped = 2 \<le> length trimmed \<and> hd trimmed \<in> {dq, sq} \<and> ends_with_quote trimmed;
          unquoted = trim (trim_quotes trimmed)
      in if quote_wrapped then strip_escapes unquoted else unquoted)"

definition resolve_model_path :: "(string \<Rightarrow> string) \<Rightarrow> string \<Rightarrow> string option \<Rightarrow> string \<Rightarrow> string" where
  "resolve_model_path tilde cwd display_cwd raw =
     (let expanded = tilde (sanitize_model_path_arg raw);
          dedup = (if \<not> is_absolute expanded \<and> expanded \<noteq> []
                   then strip_path_prefix (''/'' @ expanded) (case display_cwd of Some d \<Rightarrow> d | None \<Rightarrow> cwd)
                   else None);
          plain = (case dedup of Some rest \<Rightarrow> join_path cwd rest | None \<Rightarrow> join_path cwd expanded)
      in case display_cwd of
           Some display \<Rightarrow>
             (if is_absolute expanded
              then (case strip_path_prefix expanded display of Some rest \<Rightarrow> join_path cwd rest | None \<Rightarrow> expanded)
              else plain)
         | None \<Rightarrow> plain)"

section \<open>Replies of the owner\<close>

datatype json =
    JNull
  | JBool bool
  | JInt int
  | JFloat string
  | JString string
  | JArray "json list"
  | JObject "(string \<times> json) list"

definition jget :: "json \<Rightarrow> string \<Rightarrow> json option" where
  "jget j k = (case j of JObject kvs \<Rightarrow> map_of kvs k | _ \<Rightarrow> None)"

definition as_str :: "json \<Rightarrow> string option" where
  "as_str j = (case j of JString s \<Rightarrow> Some s | _ \<Rightarrow> None)"

definition get_str :: "json \<Rightarrow> string \<Rightarrow> string option" where
  "get_str j k = Option.bind (jget j k) as_str"

definition reply_word :: "json \<Rightarrow> string" where
  "reply_word reply =
     (case jget reply ''outcome'' of
        Some (JString s) \<Rightarrow> s
      | Some (JInt n) \<Rightarrow>
          (if n = 1 then ''approve'' else if n = 2 then ''reject'' else if n = 3 then ''always_approve''
           else if n = 4 then ''always_reject'' else [])
      | _ \<Rightarrow> [])"

definition scope_kind_value :: "json \<Rightarrow> (string \<times> string option) option" where
  "scope_kind_value reply =
     Option.bind (jget reply ''scope'') (\<lambda>scope.
       map_option (\<lambda>k. (k, get_str scope ''value'')) (get_str scope ''kind''))"

definition reply_to_outcome :: "json \<Rightarrow> prompt_outcome" where
  "reply_to_outcome reply =
     (let w = reply_word reply
      in if w = ''approve'' then AllowOnce
         else if w = ''always_approve'' then
           (case scope_kind_value reply of
              Some (k, Some v) \<Rightarrow>
                (if k = ''bash_command'' then AllowAlwaysBashCommand v
                 else if k = ''bash_glob'' then AllowAlwaysBashGlob v
                 else if k = ''server_prefix'' then AllowAlwaysMcpServer v
                 else if k = ''domain'' then AllowAlwaysDomain v
                 else AllowAlways)
            | _ \<Rightarrow> AllowAlways)
         else if w = ''reject'' then
           (case get_str reply ''followup_message'' of
              Some m \<Rightarrow> (if m \<noteq> [] then PromptFollowup m else RejectOnce)
            | None \<Rightarrow> RejectOnce)
         else if w = ''always_reject'' then
           (case scope_kind_value reply of
              Some (k, Some v) \<Rightarrow> (if k = ''bash_command'' then RejectAlwaysBashCommand v else RejectOnce)
            | _ \<Rightarrow> RejectOnce)
         else if w = ''cancelled'' then PromptCancelled
         else RejectOnce)"

definition prompt_outcome_allows :: "prompt_outcome \<Rightarrow> bool" where
  "prompt_outcome_allows answer =
     (case answer of
        AllowOnce \<Rightarrow> True
      | AllowAlways \<Rightarrow> True
      | AllowEditsForSession \<Rightarrow> True
      | AllowAlwaysBashCommand _ \<Rightarrow> True
      | AllowAlwaysBashGlob _ \<Rightarrow> True
      | AllowAlwaysDomain _ \<Rightarrow> True
      | AllowAlwaysMcpTool _ \<Rightarrow> True
      | AllowAlwaysMcpServer _ \<Rightarrow> True
      | _ \<Rightarrow> False)"

text \<open>The transport gives back a reply or an error.\<close>

definition request_permission_via_hub :: "access_kind \<Rightarrow> string + json \<Rightarrow> prompt_outcome" where
  "request_permission_via_hub access reply =
     (case reply of
        Inl e \<Rightarrow> PromptError (''hub permission request failed: '' @ e)
      | Inr j \<Rightarrow>
          (case reply_to_outcome j of
             AllowAlways \<Rightarrow>
               (case access of
                  Edit _ \<Rightarrow> AllowEditsForSession
                | AgentMessage _ \<Rightarrow> AllowOnce
                | _ \<Rightarrow> AllowAlways)
           | answer \<Rightarrow> answer))"

section \<open>Calls\<close>

definition arg_or :: "json \<Rightarrow> string list \<Rightarrow> string \<Rightarrow> string" where
  "arg_or args keys fallback =
     (case List.find (\<lambda>k. jget args k \<noteq> None) keys of
        None \<Rightarrow> fallback
      | Some k \<Rightarrow> (case get_str args k of Some s \<Rightarrow> s | None \<Rightarrow> fallback))"

definition SEND_SUBAGENT_MESSAGE_TOOL_NAME :: string where
  "SEND_SUBAGENT_MESSAGE_TOOL_NAME = ''send_subagent_message''"

definition last_part :: "string \<Rightarrow> string" where
  "last_part name = last (split_on CHR '':'' name)"

definition access_kind_for_hub_tool_name :: "string \<Rightarrow> json \<Rightarrow> access_kind option" where
  "access_kind_for_hub_tool_name tool_name args =
     (let base = last_part tool_name;
          name = (case strip_prefix base ''GrokBuild:'' of Some r \<Rightarrow> r | None \<Rightarrow> base)
      in if name \<in> {''run_terminal_command'', ''run_terminal_cmd'', ''bash'', ''shell''} then
           Some (Bash (arg_or args [''command'', ''full_command''] []))
         else if name \<in> {''search_replace'', ''hashline_edit'', ''edit'', ''write'', ''write_file''} then
           Some (Edit (arg_or args [''file_path'', ''filePath'', ''path''] ''unknown''))
         else if name = ''apply_patch'' then Some (Edit ''apply_patch'')
         else if name = SEND_SUBAGENT_MESSAGE_TOOL_NAME then
           Some (AgentMessage (arg_or args [''subagent_id''] ''unknown''))
         else if name \<in> {''task'', ''Task'', ''spawn_subagent''} then
           Some (Edit (''task:'' @ arg_or args [''subagent_type''] ''task''))
         else if name = ''web_fetch'' then Some (WebFetch (arg_or args [''url''] []))
         else if contains_str name ''__'' \<or> starts_with name ''mcp'' then Some (MCPTool tool_name)
         else None)"

text \<open>The first argument says that the tool's kind is \<open>ActiveAgentMessage\<close>.\<close>

definition access_kind_for_hub_tool :: "bool \<Rightarrow> string \<Rightarrow> json \<Rightarrow> access_kind option" where
  "access_kind_for_hub_tool active_agent_message tool_name args =
     (if active_agent_message then Some (AgentMessage (arg_or args [''subagent_id''] ''unknown''))
      else access_kind_for_hub_tool_name tool_name args)"

datatype tool_error = PermissionDenied string | InvalidArguments string

fun hunk_paths :: "hunk \<Rightarrow> string list" where
  "hunk_paths (AddFile p _) = [p]"
| "hunk_paths (DeleteFile p) = [p]"
| "hunk_paths (UpdateFile p move_path _) = p # (case move_path of Some d \<Rightarrow> [d] | None \<Rightarrow> [])"

text \<open>The accesses one call is settled for; \<open>patch_input\<close> is the patch in the arguments, if they parse.\<close>

definition call_accesses :: "access_kind \<Rightarrow> string \<Rightarrow> string option \<Rightarrow> tool_error + access_kind list" where
  "call_accesses access tool_name patch_input =
     (if last_part tool_name = ''apply_patch'' then
        (case patch_input of
           None \<Rightarrow> Inl (InvalidArguments ''invalid apply_patch input'')
         | Some patch \<Rightarrow>
             (case parse_patch patch of
                Inl _ \<Rightarrow> Inl (InvalidArguments ''invalid patch'')
              | Inr parsed \<Rightarrow> Inr (map Edit (concat (map hunk_paths (hunks parsed))))))
      else Inr [access])"

section \<open>Settling one access\<close>

datatype tool_approval_policy = AlwaysPrompt | GrantsAllowed | UnattendedAllowed
datatype prompt_gate = PreRun | SandboxCard
datatype state_file_access = Plain | DaemonOwned string

record hub_env =
  penv :: policy_env
  repo_exec_risk :: "string \<Rightarrow> bool"
  tilde :: "string \<Rightarrow> string"
  grok_home :: "string option"

record folder_grants =
  folder_cwd :: string
  served_root :: string
  folder_access :: state_file_access
  folder_state :: permission_state
  allow_edits :: bool
  persisted :: "permission_state list"

text \<open>What happens around one settlement: the policy then in force, the state read when the folder is opened,
  a state that changed on disk since, whether the evaluation of a script came to an end, and what the owner's
  transport answers, if there is one.\<close>

record settle_event =
  seen_policy :: tool_approval_policy
  loaded :: permission_state
  reloaded :: "permission_state option"
  evaluated :: bool
  owner :: "(string + json) option"

definition protected_target :: "hub_env \<Rightarrow> access_kind \<Rightarrow> bash_evaluation option \<Rightarrow> string \<Rightarrow> bool" where
  "protected_target env access bash cwd =
     (let guarded = (\<lambda>p. edit_target_protection (links (penv env)) (grok_home env)
                           (resolve_model_path (tilde env) cwd None p) \<noteq> None)
      in case access of
           Edit p \<Rightarrow> guarded p
         | Bash _ \<Rightarrow>
             (case bash of
                None \<Rightarrow> False
              | Some e \<Rightarrow>
                  (has_cwd_change e \<and> list_ex (\<lambda>p. \<not> is_absolute p) (be_creation_paths e)) \<or>
                  list_ex guarded (be_creation_paths e))
         | _ \<Rightarrow> False)"

definition unattended_pin :: "tool_approval_policy \<Rightarrow> string option" where
  "unattended_pin policy =
     (if policy \<noteq> UnattendedAllowed then Some ''blanket bash approval requires unattended access'' else None)"

definition pre_decision ::
  "hub_env \<Rightarrow> access_kind \<Rightarrow> settle_event \<Rightarrow> folder_grants \<Rightarrow> (string + unit) option \<times> bool \<times> folder_grants" where
  "pre_decision env access ev folder0 =
     (let folder = (case reloaded ev of Some fresh \<Rightarrow> folder0\<lparr>folder_state := fresh\<rparr> | None \<Rightarrow> folder0);
          st = folder_state folder;
          bash = (case access of
                    Bash cmd \<Rightarrow> Some (evaluate_bash_with_ambient (penv env) (repo_exec_risk env) cmd st (folder_cwd folder))
                  | _ \<Rightarrow> None)
      in if bash \<noteq> None \<and> \<not> evaluated ev then (None, True, folder)
         else (let protect = protected_target env access bash (folder_cwd folder)
               in case session_grant_for_hub (penv env) access bash st (allow_edits folder) (unattended_pin (seen_policy ev)) of
                    Some (Reject reason, _) \<Rightarrow> (Some (Inl reason), protect, folder)
                  | Some (PolicyDeny reason, _) \<Rightarrow> (Some (Inl reason), protect, folder)
                  | decided \<Rightarrow>
                      (if protect then (None, True, folder)
                       else (case decided of Some (DAllow, _) \<Rightarrow> (Some (Inr ()), False, folder) | _ \<Rightarrow> (None, False, folder)))))"

definition record_answer :: "hub_env \<Rightarrow> access_kind \<Rightarrow> prompt_outcome \<Rightarrow> folder_grants \<Rightarrow> folder_grants" where
  "record_answer env access answer folder =
     (if answer = AllowEditsForSession then folder\<lparr>allow_edits := True\<rparr>
      else (case record_prompt_outcome (penv env) (folder_state folder) access answer of
              (st, Some _) \<Rightarrow> folder\<lparr>folder_state := st, persisted := persisted folder @ [st]\<rparr>
            | (st, None) \<Rightarrow> folder\<lparr>folder_state := st\<rparr>))"

definition is_read_access :: "access_kind \<Rightarrow> bool" where
  "is_read_access access = (case access of Read _ \<Rightarrow> True | Grep _ _ \<Rightarrow> True | WebSearch _ \<Rightarrow> True | _ \<Rightarrow> False)"

record call_site =
  site_cwd :: string
  site_root :: string
  site_gate :: prompt_gate
  site_access :: state_file_access
  site_yolo :: bool

definition open_folder :: "call_site \<Rightarrow> settle_event \<Rightarrow> folder_grants option \<Rightarrow> folder_grants option" where
  "open_folder site ev slot =
     (case slot of
        Some folder \<Rightarrow>
          (if folder_access folder = site_access site \<and> same_path (folder_cwd folder) (site_cwd site) \<and>
              same_path (served_root folder) (site_root site)
           then Some folder
           else if is_absolute (site_cwd site) \<and> from_utf8 (site_cwd site) \<noteq> None
           then Some \<lparr>folder_cwd = site_cwd site, served_root = site_root site, folder_access = site_access site,
                      folder_state = loaded ev, allow_edits = False, persisted = []\<rparr>
           else None)
      | None \<Rightarrow>
          (if is_absolute (site_cwd site) \<and> from_utf8 (site_cwd site) \<noteq> None
           then Some \<lparr>folder_cwd = site_cwd site, served_root = site_root site, folder_access = site_access site,
                      folder_state = loaded ev, allow_edits = False, persisted = []\<rparr>
           else None))"

definition ask_owner ::
  "hub_env \<Rightarrow> access_kind \<Rightarrow> settle_event \<Rightarrow> folder_grants \<Rightarrow> (tool_error + unit) \<times> folder_grants" where
  "ask_owner env access ev folder =
     (case owner ev of
        None \<Rightarrow> (Inl (PermissionDenied ''tool permission unavailable (no owner transport)''), folder)
      | Some reply \<Rightarrow>
          (let answer = request_permission_via_hub access reply
           in (if prompt_outcome_allows answer then Inr () else Inl (PermissionDenied ''tool permission denied''),
               if seen_policy ev \<noteq> AlwaysPrompt then record_answer env access answer folder else folder)))"

definition settle ::
  "hub_env \<Rightarrow> call_site \<Rightarrow> access_kind \<Rightarrow> settle_event \<Rightarrow> folder_grants option \<Rightarrow>
   (tool_error + unit) \<times> folder_grants option" where
  "settle env site access ev slot =
     (if is_read_access access then (Inr (), slot)
      else (case open_folder site ev slot of
              None \<Rightarrow> (Inl (PermissionDenied ''invalid permission working directory''), slot)
            | Some folder0 \<Rightarrow>
                (case pre_decision env access ev folder0 of
                   (decided, force_prompt, folder) \<Rightarrow>
                     (let policy = seen_policy ev;
                          ask = (case ask_owner env access ev folder of (r, f) \<Rightarrow> (r, Some f));
                          undecided =
                            (if \<not> force_prompt \<and> policy = UnattendedAllowed \<and> site_yolo site then (Inr (), Some folder)
                             else if \<not> force_prompt \<and> site_gate site = SandboxCard \<and> policy \<noteq> AlwaysPrompt
                             then (Inr (), Some folder)
                             else ask)
                      in case decided of
                           Some (Inl reason) \<Rightarrow> (Inl (PermissionDenied reason), Some folder)
                         | Some (Inr _) \<Rightarrow> (if policy \<noteq> AlwaysPrompt then (Inr (), Some folder) else undecided)
                         | None \<Rightarrow> undecided))))"

text \<open>The accesses of one call are settled one after the other; the call runs when all are and the policy is
  still the one it was before.\<close>

fun settle_all ::
  "hub_env \<Rightarrow> call_site \<Rightarrow> (access_kind \<times> settle_event) list \<Rightarrow> folder_grants option \<Rightarrow>
   (tool_error + unit) \<times> folder_grants option" where
  "settle_all env site [] slot = (Inr (), slot)"
| "settle_all env site ((access, ev) # rest) slot =
     (case settle env site access ev slot of
        (Inl e, slot') \<Rightarrow> (Inl e, slot')
      | (Inr _, slot') \<Rightarrow> settle_all env site rest slot')"

definition settle_call ::
  "hub_env \<Rightarrow> call_site \<Rightarrow> access_kind \<Rightarrow> string \<Rightarrow> string option \<Rightarrow> tool_approval_policy \<Rightarrow> tool_approval_policy \<Rightarrow>
   (nat \<Rightarrow> settle_event) \<Rightarrow> folder_grants option \<Rightarrow> (tool_error + unit) \<times> folder_grants option" where
  "settle_call env site access tool_name patch_input policy_before policy_after events slot =
     (case call_accesses access tool_name patch_input of
        Inl e \<Rightarrow> (Inl e, slot)
      | Inr accesses \<Rightarrow>
          (case settle_all env site (zip accesses (map events [0 ..< length accesses])) slot of
             (Inl e, slot') \<Rightarrow> (Inl e, slot')
           | (Inr _, slot') \<Rightarrow>
               (if policy_after \<noteq> policy_before
                then (Inl (PermissionDenied ''tool approval policy changed; retry the call''), slot')
                else (Inr (), slot'))))"

section \<open>What can make a call run\<close>

definition consented :: "access_kind \<Rightarrow> settle_event \<Rightarrow> bool" where
  "consented access ev \<longleftrightarrow>
     (\<exists>reply. owner ev = Some (Inr reply) \<and> prompt_outcome_allows (request_permission_via_hub access (Inr reply)))"

definition current_state :: "settle_event \<Rightarrow> folder_grants \<Rightarrow> permission_state" where
  "current_state ev folder = (case reloaded ev of Some fresh \<Rightarrow> fresh | None \<Rightarrow> folder_state folder)"

lemma ask_owner_consent: "fst (ask_owner env access ev folder) = Inr () \<longleftrightarrow> consented access ev"
  by (auto simp: ask_owner_def consented_def Let_def request_permission_via_hub_def prompt_outcome_allows_def
      split: option.splits sum.splits if_splits)

lemma settled_how:
  assumes "fst (settle env site access ev slot) = Inr ()" and "\<not> is_read_access access"
  obtains folder decided force_prompt folder' where
    "open_folder site ev slot = Some folder" "pre_decision env access ev folder = (decided, force_prompt, folder')"
    "consented access ev \<or>
     seen_policy ev \<noteq> AlwaysPrompt \<and> \<not> force_prompt \<and>
       (seen_policy ev = UnattendedAllowed \<and> site_yolo site \<or> site_gate site = SandboxCard) \<or>
     seen_policy ev \<noteq> AlwaysPrompt \<and> decided = Some (Inr ())"
proof -
  from assms obtain folder where f: "open_folder site ev slot = Some folder"
    by (cases "open_folder site ev slot") (auto simp: settle_def)
  obtain decided force_prompt folder' where p: "pre_decision env access ev folder = (decided, force_prompt, folder')"
    by (cases "pre_decision env access ev folder")
  have a: "fst (case ask_owner env access ev folder' of (r, f) \<Rightarrow> (r, Some f)) = Inr () \<longleftrightarrow> consented access ev"
    using ask_owner_consent [of env access ev folder'] by (simp add: case_prod_unfold)
  have "consented access ev \<or>
     seen_policy ev \<noteq> AlwaysPrompt \<and> \<not> force_prompt \<and>
       (seen_policy ev = UnattendedAllowed \<and> site_yolo site \<or> site_gate site = SandboxCard) \<or>
     seen_policy ev \<noteq> AlwaysPrompt \<and> decided = Some (Inr ())"
    using assms f p a
    by (cases decided) (auto simp: settle_def Let_def split: if_splits sum.splits)
  with f p that show thesis by blast
qed

lemma pre_decision_frame:
  assumes "pre_decision env access ev folder = (decided, force_prompt, folder')"
  shows "folder_cwd folder' = folder_cwd folder" and "folder_state folder' = current_state ev folder"
    and "allow_edits folder' = allow_edits folder"
  using assms by (auto simp: pre_decision_def current_state_def Let_def
      split: option.splits if_splits prod.splits decision.splits)

lemma open_folder_cwd:
  assumes "open_folder site ev slot = Some folder" and "\<forall>f. slot = Some f \<longrightarrow> folder_cwd f = site_cwd site"
  shows "folder_cwd folder = site_cwd site"
  using assms by (auto simp: open_folder_def split: option.splits if_splits)

lemma settle_keeps_cwd:
  assumes "\<forall>f. slot = Some f \<longrightarrow> folder_cwd f = site_cwd site"
  shows "\<forall>f. snd (settle env site access ev slot) = Some f \<longrightarrow> folder_cwd f = site_cwd site"
proof (cases "is_read_access access \<or> open_folder site ev slot = None")
  case True
  with assms show ?thesis by (auto simp: settle_def)
next
  case False
  then obtain folder where f: "open_folder site ev slot = Some folder" "\<not> is_read_access access" by auto
  obtain decided force_prompt folder' where p: "pre_decision env access ev folder = (decided, force_prompt, folder')"
    by (cases "pre_decision env access ev folder")
  have c: "folder_cwd folder' = site_cwd site"
    using pre_decision_frame(1) [OF p] open_folder_cwd [OF f(1) assms] by simp
  have r: "folder_cwd (record_answer env access answer folder') = site_cwd site" for answer
    using c by (auto simp: record_answer_def split: prod.splits option.splits)
  have "folder_cwd (snd (ask_owner env access ev folder')) = site_cwd site"
    using c r by (auto simp: ask_owner_def Let_def split: option.splits)
  with f p c show ?thesis
    by (auto simp: settle_def Let_def case_prod_unfold split: option.splits sum.splits if_splits)
qed

lemma settle_all_each:
  assumes "fst (settle_all env site aes slot) = Inr ()" and "(access, ev) \<in> set aes"
    and "\<forall>f. slot = Some f \<longrightarrow> folder_cwd f = site_cwd site"
  obtains slot' where "fst (settle env site access ev slot') = Inr ()"
    "\<forall>f. slot' = Some f \<longrightarrow> folder_cwd f = site_cwd site"
proof -
  have "\<exists>slot'. fst (settle env site access ev slot') = Inr () \<and> (\<forall>f. slot' = Some f \<longrightarrow> folder_cwd f = site_cwd site)"
    using assms
  proof (induction env site aes slot rule: settle_all.induct)
    case (2 env site a e rest slot)
    obtain r slot1 where s: "settle env site a e slot = (r, slot1)" by (cases "settle env site a e slot")
    show ?case
    proof (cases r)
      case (Inl x)
      with "2.prems"(1) s show ?thesis by simp
    next
      case (Inr u)
      have k: "\<forall>f. slot1 = Some f \<longrightarrow> folder_cwd f = site_cwd site"
        using settle_keeps_cwd [OF "2.prems"(3), of env a e] s by simp
      show ?thesis
      proof (cases "(access, ev) = (a, e)")
        case True
        with s Inr "2.prems"(3) show ?thesis by (intro exI [of _ slot]) auto
      next
        case False
        then have "(access, ev) \<in> set rest" using "2.prems"(2) by auto
        moreover have "fst (settle_all env site rest slot1) = Inr ()" using "2.prems"(1) s Inr by simp
        ultimately show ?thesis using "2.IH" [OF s [symmetric] Inr] k by blast
      qed
    qed
  qed simp
  with that show thesis by blast
qed

text \<open>A guarded target never runs without consent.\<close>

lemma guarded_edit_consented:
  assumes "fst (settle env site (Edit p) ev slot) = Inr ()"
    and "edit_target_protection (links (penv env)) (grok_home env) (resolve_model_path (tilde env) (site_cwd site) None p) \<noteq> None"
    and "\<forall>f. slot = Some f \<longrightarrow> folder_cwd f = site_cwd site"
  shows "consented (Edit p) ev"
proof -
  have nr: "\<not> is_read_access (Edit p)" by (simp add: is_read_access_def)
  obtain folder decided force_prompt folder' where
    o: "open_folder site ev slot = Some folder" "pre_decision env (Edit p) ev folder = (decided, force_prompt, folder')"
    "consented (Edit p) ev \<or>
     seen_policy ev \<noteq> AlwaysPrompt \<and> \<not> force_prompt \<and>
       (seen_policy ev = UnattendedAllowed \<and> site_yolo site \<or> site_gate site = SandboxCard) \<or>
     seen_policy ev \<noteq> AlwaysPrompt \<and> decided = Some (Inr ())"
    by (rule settled_how [OF assms(1) nr])
  have "folder_cwd folder = site_cwd site" by (rule open_folder_cwd [OF o(1) assms(3)])
  then have "protected_target env (Edit p) None (folder_cwd folder)"
    using assms(2) by (simp add: protected_target_def)
  with o(2) have "force_prompt" "decided \<noteq> Some (Inr ())"
    by (auto simp: pre_decision_def Let_def split: option.splits if_splits prod.splits decision.splits)
  with o(3) show ?thesis by blast
qed

text \<open>A patch that reaches the hub writes no protected file behind the owner's back: when an \<open>apply_patch\<close>
  call is let through, whatever the policy, the gate, the unattended mode and the grants, every file that one
  of its hunks adds, deletes, updates or moves to and that is a protected target was put to the owner, who
  consented.\<close>

lemma patched_protected_file_confirmed:
  assumes "fst (settle_call env site access ''apply_patch'' (Some patch) before after events slot) = Inr ()"
    and "parse_patch patch = Inr parsed" and "p \<in> set (concat (map hunk_paths (hunks parsed)))"
    and "edit_target_protection (links (penv env)) (grok_home env) (resolve_model_path (tilde env) (site_cwd site) None p) \<noteq> None"
    and "\<forall>f. slot = Some f \<longrightarrow> folder_cwd f = site_cwd site"
  shows "\<exists>i < length (concat (map hunk_paths (hunks parsed))).
    concat (map hunk_paths (hunks parsed)) ! i = p \<and> consented (Edit p) (events i)"
proof -
  let ?as = "map Edit (concat (map hunk_paths (hunks parsed)))"
  have l: "last_part ''apply_patch'' = ''apply_patch''" by code_simp
  then have c: "call_accesses access ''apply_patch'' (Some patch) = Inr ?as"
    using assms(2) by (simp add: call_accesses_def)
  have ok: "fst (settle_all env site (zip ?as (map events [0 ..< length ?as])) slot) = Inr ()"
    using assms(1) unfolding settle_call_def c by (auto split: prod.splits sum.splits if_splits)
  have "Edit p \<in> set ?as" using assms(3) by auto
  then obtain i where i: "i < length ?as" "?as ! i = Edit p" by (metis in_set_conv_nth)
  have m: "(Edit p, events i) \<in> set (zip ?as (map events [0 ..< length ?as]))"
    using i by (auto simp: in_set_zip intro!: exI [of _ i])
  obtain slot' where "fst (settle env site (Edit p) (events i) slot') = Inr ()"
    "\<forall>f. slot' = Some f \<longrightarrow> folder_cwd f = site_cwd site"
    by (rule settle_all_each [OF ok m assms(5)])
  then have "consented (Edit p) (events i)" by (rule guarded_edit_consented [OF _ assms(4)])
  with i show ?thesis by (auto simp del: length_concat)
qed

section \<open>Refusals and answers\<close>

definition refused :: "hub_env \<Rightarrow> permission_state \<Rightarrow> access_kind \<Rightarrow> bool" where
  "refused env st access =
     (case access of
        Bash cmd \<Rightarrow> (\<exists>d\<in>set (disallowed_bash_commands st). session_denied (penv env) cmd d)
      | MCPTool name \<Rightarrow> name \<in> set (disallowed_mcp_tools st)
      | WebFetch url \<Rightarrow>
          (\<exists>host. url_host (penv env) url = Some host \<and>
             (\<exists>d\<in>set (disallowed_web_fetch_domains st). domain_denied_by (web_fetch_deny_key (penv env) host) d))
      | _ \<Rightarrow> False)"

lemma ambient_same_segments:
  "be_segments (evaluate_bash_with_ambient env rr cmd st cwd) = be_segments (evaluate_bash env cmd st True)"
  by (auto simp: evaluate_bash_with_ambient_def Let_def split: option.splits)

lemma refused_pre_decision:
  assumes "refused env st access"
    and "bash = (case access of Bash cmd \<Rightarrow> Some (evaluate_bash_with_ambient (penv env) rr cmd st cwd) | _ \<Rightarrow> None)"
  shows "\<exists>r why. session_grant_for_hub (penv env) access bash st edits pin = Some (Reject r, why)"
proof (cases access)
  case (Bash cmd)
  then have "\<exists>r. be_segments (evaluate_bash_with_ambient (penv env) rr cmd st cwd) = SegReject r"
    using assms(1) evaluate_rejects [of "penv env" cmd st True] by (simp add: refused_def ambient_same_segments)
  with Bash assms(2) show ?thesis by (auto simp: session_grant_for_hub_def bash_grant_pre_decision_def)
next
  case (MCPTool name)
  with assms show ?thesis
    by (auto simp: refused_def session_grant_for_hub_def session_grant_pre_decision_def mcp_pre_decision_def)
next
  case (WebFetch url)
  with assms(1) obtain host d where h: "url_host (penv env) url = Some host" "d \<in> set (disallowed_web_fetch_domains st)"
    "domain_denied_by (web_fetch_deny_key (penv env) host) d"
    by (auto simp: refused_def)
  then obtain d' where "List.find (domain_denied_by (web_fetch_deny_key (penv env) host)) (disallowed_web_fetch_domains st) = Some d'"
    by (cases "List.find (domain_denied_by (web_fetch_deny_key (penv env) host)) (disallowed_web_fetch_domains st)")
      (auto simp: find_None_iff)
  moreover have "disallowed_web_fetch_domains st \<noteq> []" using h(2) by auto
  ultimately show ?thesis using WebFetch h(1)
    by (simp add: session_grant_for_hub_def session_grant_pre_decision_def web_fetch_deny_pre_decision_def denied_web_fetch_domain_def)
qed (use assms(1) in \<open>simp_all add: refused_def\<close>)

text \<open>C19: A remembered refusal is final for calls through the hub: whatever the policy, the gate, the unattended
  mode, the grants beside it and the reply of the owner, the call is denied, and nothing new is remembered.\<close>

theorem remembered_refusal_final:
  assumes "open_folder site ev slot = Some folder" and "refused env (current_state ev folder) access" and "evaluated ev"
  shows "\<exists>reason folder'. settle env site access ev slot = (Inl (PermissionDenied reason), Some folder') \<and>
    folder_state folder' = current_state ev folder \<and> persisted folder' = persisted folder"
proof -
  have nr: "\<not> is_read_access access"
    using assms(2) by (cases access) (simp_all add: refused_def is_read_access_def)
  define folder' where "folder' = (case reloaded ev of Some fresh \<Rightarrow> folder\<lparr>folder_state := fresh\<rparr> | None \<Rightarrow> folder)"
  have st: "folder_state folder' = current_state ev folder" "folder_cwd folder' = folder_cwd folder"
    "persisted folder' = persisted folder" "allow_edits folder' = allow_edits folder"
    by (auto simp: folder'_def current_state_def split: option.splits)
  let ?bash = "case access of
      Bash cmd \<Rightarrow> Some (evaluate_bash_with_ambient (penv env) (repo_exec_risk env) cmd (current_state ev folder) (folder_cwd folder))
    | _ \<Rightarrow> None"
  obtain r why where "session_grant_for_hub (penv env) access ?bash (current_state ev folder) (allow_edits folder)
      (unattended_pin (seen_policy ev)) = Some (Reject r, why)"
    using refused_pre_decision [OF assms(2) refl] by blast
  then have "pre_decision env access ev folder =
      (Some (Inl r), protected_target env access ?bash (folder_cwd folder), folder')"
    using assms(3) unfolding pre_decision_def folder'_def [symmetric] Let_def st by simp
  then have "settle env site access ev slot = (Inl (PermissionDenied r), Some folder')"
    using nr assms(1) by (simp add: settle_def Let_def)
  with st show ?thesis by blast
qed

lemma mcp_answer_grants:
  assumes "answer = AllowAlways \<or> (\<exists>s. answer = AllowAlwaysMcpServer s)"
    and "name \<notin> set (disallowed_mcp_tools (fst (record_prompt_outcome env st (MCPTool name) answer)))"
  shows "mcp_pre_decision name (fst (record_prompt_outcome env st (MCPTool name) answer)) False False = Some DAllow"
  using assms
  by (auto simp: record_prompt_outcome_def record_mcp_outcome_def mcp_pre_decision_def mcp_server_prefix_allowed_def
      hs_insert_def Let_def split: option.splits if_splits)

text \<open>An answer is remembered: when the owner always approves a call of an MCP tool, for the tool or for a
  server, be it the right one or not, the next call of that tool in the same folder runs without asking, even when the owner is gone,
  provided grants count under the policies in force and the tool was not refused.\<close>

theorem approved_tool_not_asked_again:
  assumes "settle env site (MCPTool name) ev slot = (Inr (), Some folder)"
    and "owner ev = Some (Inr reply)"
    and "reply_to_outcome reply = AllowAlways \<or> (\<exists>s. reply_to_outcome reply = AllowAlwaysMcpServer s)"
    and "seen_policy ev = GrantsAllowed" and "site_gate site = PreRun"
    and "seen_policy ev' \<noteq> AlwaysPrompt" and "reloaded ev' = None"
    and "name \<notin> set (disallowed_mcp_tools (folder_state folder))"
    and "open_folder site ev' (Some folder) = Some folder"
  shows "fst (settle env site (MCPTool name) ev' (Some folder)) = Inr ()"
proof -
  have nr: "\<not> is_read_access (MCPTool name)" by (simp add: is_read_access_def)
  have granted: "mcp_pre_decision name (folder_state folder) False False = Some DAllow"
  proof -
    obtain folder0 where f: "open_folder site ev slot = Some folder0"
      using assms(1) nr by (cases "open_folder site ev slot") (auto simp: settle_def)
    obtain decided force_prompt folder1 where p: "pre_decision env (MCPTool name) ev folder0 = (decided, force_prompt, folder1)"
      by (cases "pre_decision env (MCPTool name) ev folder0")
    have fs: "folder_state folder1 = current_state ev folder0" by (rule pre_decision_frame(2) [OF p])
    show ?thesis
    proof (cases "decided = Some (Inr ())")
      case True
      then have "folder = folder1" using assms(1,4) f p nr by (simp add: settle_def Let_def)
      moreover have "mcp_pre_decision name (folder_state folder1) False False = Some DAllow"
        using p True fs unfolding pre_decision_def
        by (auto simp: Let_def current_state_def session_grant_for_hub_def session_grant_pre_decision_def protected_target_def
            split: option.splits if_splits prod.splits decision.splits)
      ultimately show ?thesis by simp
    next
      case False
      then have d: "decided = None" using assms(1) f p nr by (cases decided) (auto simp: settle_def Let_def split: sum.splits)
      define answer where "answer = request_permission_via_hub (MCPTool name) (Inr reply)"
      have a: "answer = AllowAlways \<or> (\<exists>s. answer = AllowAlwaysMcpServer s)"
        using assms(3) unfolding answer_def request_permission_via_hub_def by auto
      have "folder = record_answer env (MCPTool name) answer folder1"
        using assms(1,2,4,5) f p d nr by (simp add: settle_def ask_owner_def answer_def Let_def)
      then have "folder_state folder = fst (record_prompt_outcome (penv env) (folder_state folder1) (MCPTool name) answer)"
        using a by (auto simp: record_answer_def split: prod.splits option.splits)
      with a assms(8) show ?thesis by (auto intro: mcp_answer_grants)
    qed
  qed
  then have "session_grant_for_hub (penv env) (MCPTool name) None (folder_state folder) (allow_edits folder)
      (unattended_pin (seen_policy ev')) = Some (DAllow, SESSION_GRANT)"
    by (simp add: session_grant_for_hub_def session_grant_pre_decision_def)
  then have "pre_decision env (MCPTool name) ev' folder = (Some (Inr ()), False, folder)"
    using assms(7) by (simp add: pre_decision_def protected_target_def Let_def)
  with assms(6,9) nr show ?thesis by (simp add: settle_def Let_def)
qed

section \<open>The gate and the tool resolve paths differently\<close>

text \<open>The gate expands a tilde, the \<open>apply_patch\<close> tool joins the path as it is. With the working directory at
  the root and a home two levels deep, a hunk for \<open>~/../etc/x\<close> is checked as a file below \<open>/home\<close> and
  written below \<open>/etc\<close>.\<close>

definition no_links :: link_fs where
  "no_links = \<lparr>fs_canonicalize = (\<lambda>p. Some p), symlink_metadata = (\<lambda>_. LstatNotFound), read_link = (\<lambda>_. None)\<rparr>"

theorem gate_checks_another_path:
  assumes "tl_env ''~/../etc/x'' = ''/home/u/../etc/x''"
  shows "edit_target_protection no_links None (resolve_model_path tl_env ''/'' None ''~/../etc/x'') = None \<and>
    edit_target_protection no_links None (join_path ''/'' ''~/../etc/x'') = Some Etc"
proof
  have s: "sanitize_model_path_arg ''~/../etc/x'' = ''~/../etc/x''" by code_simp
  have "is_absolute ''/home/u/../etc/x''" "join_path ''/'' ''/home/u/../etc/x'' = ''/home/u/../etc/x''" by code_simp+
  then have r: "resolve_model_path tl_env ''/'' None ''~/../etc/x'' = ''/home/u/../etc/x''"
    by (simp add: resolve_model_path_def s assms Let_def)
  have "edit_target_protection no_links None ''/home/u/../etc/x'' = None" by code_simp
  then show "edit_target_protection no_links None (resolve_model_path tl_env ''/'' None ''~/../etc/x'') = None"
    unfolding r .
  show "edit_target_protection no_links None (join_path ''/'' ''~/../etc/x'') = Some Etc" by code_simp
qed

section \<open>Witnesses\<close>

definition hub_example :: hub_env where
  "hub_example = \<lparr>penv = grant_env, repo_exec_risk = (\<lambda>_. False), tilde = (\<lambda>p. p), grok_home = None\<rparr>"

definition site_example :: call_site where
  "site_example = \<lparr>site_cwd = ''/w'', site_root = ''/w'', site_gate = PreRun, site_access = Plain, site_yolo = False\<rparr>"

definition event_with :: "permission_state \<Rightarrow> (string + json) option \<Rightarrow> settle_event" where
  "event_with st reply = \<lparr>seen_policy = GrantsAllowed, loaded = st, reloaded = None, evaluated = True, owner = reply\<rparr>"

definition ssh_patch :: string where
  "ssh_patch = ''*** Begin Patch'' @ [nl] @ ''*** Add File: .ssh/config'' @ [nl] @ ''+x'' @ [nl] @ ''*** End Patch''"

lemma ssh_patch_parsed:
  obtains parsed where "parse_patch ssh_patch = Inr parsed" "hunks parsed = [AddFile ''.ssh/config'' (''x'' @ [nl])]"
proof -
  have "(case parse_patch ssh_patch of Inr q \<Rightarrow> hunks q = [AddFile ''.ssh/config'' (''x'' @ [nl])] | Inl _ \<Rightarrow> False)" by code_simp
  then show thesis using that by (cases "parse_patch ssh_patch") auto
qed

abbreviation approving :: settle_event where
  "approving \<equiv> event_with default_state (Some (Inr (JObject [(''outcome'', JString ''approve'')])))"

lemma ssh_patch_settled:
  "fst (settle_call hub_example site_example (Edit ''apply_patch'') ''apply_patch'' (Some ssh_patch)
     GrantsAllowed GrantsAllowed (\<lambda>_. approving) None) = Inr ()"
proof -
  let ?folder = "\<lparr>folder_cwd = ''/w'', served_root = ''/w'', folder_access = Plain, folder_state = default_state,
      allow_edits = False, persisted = []\<rparr>"
  obtain parsed where p: "parse_patch ssh_patch = Inr parsed" "hunks parsed = [AddFile ''.ssh/config'' (''x'' @ [nl])]"
    by (rule ssh_patch_parsed)
  have g: "edit_target_protection (links (penv hub_example)) (grok_home hub_example)
      (resolve_model_path (tilde hub_example) (site_cwd site_example) None ''.ssh/config'') \<noteq> None" by code_simp
  have o: "open_folder site_example approving None = Some ?folder" by code_simp
  have "protected_target hub_example (Edit ''.ssh/config'') None ''/w''"
    using g by (simp add: protected_target_def site_example_def)
  then have d: "pre_decision hub_example (Edit ''.ssh/config'') approving ?folder = (None, True, ?folder)"
    by (simp add: pre_decision_def event_with_def session_grant_for_hub_def session_grant_pre_decision_def Let_def)
  have "prompt_outcome_allows (request_permission_via_hub (Edit ''.ssh/config'') (Inr (JObject [(''outcome'', JString ''approve'')])))"
    by code_simp
  then have "fst (settle hub_example site_example (Edit ''.ssh/config'') approving None) = Inr ()"
    by (simp add: settle_def is_read_access_def o d ask_owner_def case_prod_unfold Let_def) (simp add: event_with_def)
  moreover have "call_accesses (Edit ''apply_patch'') ''apply_patch'' (Some ssh_patch) = Inr [Edit ''.ssh/config'']"
  proof -
    have "last_part ''apply_patch'' = ''apply_patch''" by code_simp
    with p show ?thesis by (simp add: call_accesses_def)
  qed
  ultimately show ?thesis
    by (cases "settle hub_example site_example (Edit ''.ssh/config'') approving None") (simp add: settle_call_def)
qed

theorem remembered_refusal_final_witness:
  "\<exists>reason folder'. settle hub_example site_example (MCPTool ''a__b'')
     (event_with (default_state\<lparr>disallowed_mcp_tools := [''a__b'']\<rparr>) (Some (Inr (JObject [(''outcome'', JString ''approve'')])))) None =
     (Inl (PermissionDenied reason), Some folder')"
proof -
  let ?st = "default_state\<lparr>disallowed_mcp_tools := [''a__b'']\<rparr>"
  let ?ev = "event_with ?st (Some (Inr (JObject [(''outcome'', JString ''approve'')])))"
  let ?folder = "\<lparr>folder_cwd = ''/w'', served_root = ''/w'', folder_access = Plain, folder_state = ?st, allow_edits = False,
      persisted = []\<rparr>"
  have "open_folder site_example ?ev None = Some ?folder" by code_simp
  moreover have "refused hub_example (current_state ?ev ?folder) (MCPTool ''a__b'')" "evaluated ?ev"
    by (simp_all add: refused_def current_state_def event_with_def)
  ultimately show ?thesis using remembered_refusal_final by blast
qed

theorem approved_tool_not_asked_again_witness:
  "fst (settle hub_example site_example (MCPTool ''a__b'') (event_with default_state None)
     (snd (settle hub_example site_example (MCPTool ''a__b'')
        (event_with default_state (Some (Inr (JObject [(''outcome'', JInt 3)])))) None))) = Inr ()"
proof -
  let ?e = "event_with default_state (Some (Inr (JObject [(''outcome'', JInt 3)])))" and ?e' = "event_with default_state None"
  let ?st = "default_state\<lparr>allowed_mcp_tools := [''a__b'']\<rparr>"
  let ?folder = "\<lparr>folder_cwd = ''/w'', served_root = ''/w'', folder_access = Plain, folder_state = ?st, allow_edits = False,
      persisted = [?st]\<rparr>"
  have s: "settle hub_example site_example (MCPTool ''a__b'') ?e None = (Inr (), Some ?folder)" by code_simp
  have e: "owner ?e = Some (Inr (JObject [(''outcome'', JInt 3)]))" "seen_policy ?e = GrantsAllowed"
    "seen_policy ?e' \<noteq> AlwaysPrompt" "reloaded ?e' = None" "site_gate site_example = PreRun"
    by (simp_all add: event_with_def site_example_def)
  have "reply_to_outcome (JObject [(''outcome'', JInt 3)]) = AllowAlways" by code_simp
  then have r: "reply_to_outcome (JObject [(''outcome'', JInt 3)]) = AllowAlways \<or>
      (\<exists>s. reply_to_outcome (JObject [(''outcome'', JInt 3)]) = AllowAlwaysMcpServer s)" by blast
  have "''a__b'' \<notin> set (disallowed_mcp_tools (folder_state ?folder))" by (simp add: default_state_def)
  moreover have "open_folder site_example ?e' (Some ?folder) = Some ?folder" by code_simp
  ultimately have "fst (settle hub_example site_example (MCPTool ''a__b'') ?e' (Some ?folder)) = Inr ()"
    by (rule approved_tool_not_asked_again [OF s e(1) r e(2,5,3,4)])
  then show ?thesis unfolding s by simp
qed

end
