(* ===== verification/Permission_Manager.thy ===== *)
theory Permission_Manager
  imports Gate_Preflight Hub_Gate Permission_Lease
begin

text \<open>
  The permission manager, the actor of \<open>permission/manager/mod.rs\<close> that decides every request of the local agent.
  It handles one command after the other, so a command is one step on its state. Whatever comes from outside
  while a command is handled (a state changed on disk, the end of a repository scan, the verdict of the
  classifier, the sandbox, the answer of the user, the requester going away) is an event that is given. The
  classifier is a language model behind the network, so its verdict is free. The theory shows what can let a
  request through, that restrictions of the managed policy hold in every mode, how often auto mode may deny on
  its own, and that a lease for external processes never outlives the freedom it was given for.
\<close>

section \<open>State\<close>

record manager_conf =
  mc_cwd :: string
  mc_yolo_pin :: "string option"
  mc_prompt_policy :: prompt_policy
  remember_tool_approvals :: bool
  has_read_denies :: bool
  can_present_prompt :: bool
  static_domains :: "string \<Rightarrow> bool"
  allowlist_is_default :: bool

datatype classifier_turn = UserText string | AssistantToolUse string string

text \<open>A decision of the user that later classifications are shown: the tool, the access (its printed arguments in
  the code) and whether it was approved.\<close>

type_synonym recorded_decision = "string \<times> access_kind \<times> bool"

datatype disk_write = Merged permission_state | Replaced permission_state

text \<open>The counters of denials are 32-bit words in the code; they stay below 21 here.\<close>

record manager =
  running :: bool
  yolo_mode :: bool
  auto_mode :: bool
  classifier_installed :: bool
  consecutive_denials :: nat
  total_denials :: nat
  classifier_turns :: "classifier_turn list"
  recorded_decisions :: "recorded_decision list"
  project_instructions :: "string option"
  allow_edits_for_session :: bool
  mstate :: permission_state
  mpolicy :: "compiled_policy option"
  registry :: lease_registry
  disk :: "disk_write list"

definition MAX_RECORDED_PERMISSION_DECISIONS :: nat where "MAX_RECORDED_PERMISSION_DECISIONS = 12"

definition save_state :: "permission_state \<Rightarrow> manager \<Rightarrow> manager" where
  "save_state st m = m\<lparr>mstate := st, disk := disk m @ [Merged st]\<rparr>"

definition revoke_leases :: "manager \<Rightarrow> manager" where
  "revoke_leases m = m\<lparr>registry := transition (registry m)\<rparr>"

text \<open>The manager as it starts: always-approve is clamped by the pin, auto mode comes from the configuration, and a
  remembered permission for all edits is taken back.\<close>

definition spawn_manager ::
  "policy_env \<Rightarrow> manager_conf \<Rightarrow> permission_config option \<Rightarrow> bool \<Rightarrow> permission_state \<Rightarrow> manager" where
  "spawn_manager env conf cfg initial_yolo loaded_state =
     (let yolo = clamp_yolo initial_yolo (mc_yolo_pin conf);
          seed_auto = (\<not> yolo \<and> (case cfg of Some c \<Rightarrow> config_prompt_policy c = PromptAuto | None \<Rightarrow> False));
          m = \<lparr>running = True, yolo_mode = yolo, auto_mode = seed_auto, classifier_installed = True,
               consecutive_denials = 0, total_denials = 0, classifier_turns = [], recorded_decisions = [],
               project_instructions = None, allow_edits_for_session = False, mstate = loaded_state,
               mpolicy = map_option (policy_new env) cfg, registry = registry_empty, disk = []\<rparr>
      in if edit_policy loaded_state = EditAllow
         then save_state (loaded_state\<lparr>edit_policy := EditAsk\<rparr>) m else m)"

section \<open>Requests\<close>

record request =
  rq_access :: access_kind
  edit_targets :: "string list option"
  path_context :: "(string \<times> string option) option"
  hook_asks :: bool

record manager_event =
  gone_at_dequeue :: bool
  fresh_state :: "permission_state option"
  scan_failed :: bool
  gone_after_scan :: bool
  classified :: "classifier_outcome option"
  sandbox_active :: bool
  gone_before_prompt :: bool
  answered :: prompt_outcome
  gone_at_end :: bool

definition request_cwd :: "manager_conf \<Rightarrow> request \<Rightarrow> string" where
  "request_cwd conf rq = (case path_context rq of Some (real_cwd, _) \<Rightarrow> real_cwd | None \<Rightarrow> mc_cwd conf)"

definition tool_name_for_access :: "access_kind \<Rightarrow> string" where
  "tool_name_for_access access =
     (case access of
        Read _ \<Rightarrow> ''read_file''
      | Grep _ _ \<Rightarrow> ''grep''
      | Edit _ \<Rightarrow> ''search_replace''
      | Bash _ \<Rightarrow> ''run_terminal_command''
      | MCPTool name \<Rightarrow> ''mcp:'' @ name
      | WebFetch _ \<Rightarrow> ''web_fetch''
      | WebSearch _ \<Rightarrow> ''web_search''
      | AgentMessage _ \<Rightarrow> SEND_SUBAGENT_MESSAGE_TOOL_NAME)"

definition invalid_targets :: "request \<Rightarrow> bool" where
  "invalid_targets rq =
     (case edit_targets rq of
        None \<Rightarrow> False
      | Some targets \<Rightarrow> targets = [] \<or> (case rq_access rq of Edit _ \<Rightarrow> False | _ \<Rightarrow> True))"

definition reload :: "permission_state option \<Rightarrow> manager \<Rightarrow> manager" where
  "reload fresh m =
     (case fresh of
        None \<Rightarrow> m
      | Some f \<Rightarrow>
          (if has_explicit_denials f then revoke_leases m else m)\<lparr>mstate := merge_grants_from (mstate m) f\<rparr>)"

definition reloads_for :: "access_kind \<Rightarrow> bool" where
  "reloads_for access = (case access of Bash _ \<Rightarrow> True | MCPTool _ \<Rightarrow> True | WebFetch _ \<Rightarrow> True | _ \<Rightarrow> False)"

definition scanned :: "hub_env \<Rightarrow> manager \<Rightarrow> access_kind \<Rightarrow> bool" where
  "scanned env m access =
     (case access of
        Bash cmd \<Rightarrow> ambient_segments (evaluate_bash (penv env) cmd (mstate m) True) \<noteq> None
      | _ \<Rightarrow> False)"

definition request_evaluation :: "hub_env \<Rightarrow> manager \<Rightarrow> access_kind \<Rightarrow> string \<Rightarrow> bool \<Rightarrow> bash_evaluation option" where
  "request_evaluation env m access cwd failed =
     (case access of
        Bash cmd \<Rightarrow>
          (let ev = evaluate_bash (penv env) cmd (mstate m) True
           in case ambient_segments ev of
                None \<Rightarrow> Some ev
              | Some raw \<Rightarrow>
                  (let plan = ambient_scan_plan_from_segments raw cwd;
                       ambient_risk = (case plan of
                                         PlanFailClosed \<Rightarrow> True
                                       | CheckDirs _ \<Rightarrow> failed \<or> ambient_exec_risk_from_plan (repo_exec_risk env) plan)
                   in Some (if ambient_risk
                            then ev\<lparr>ambient_segments := None, assessment := insert ExecOrAmbientGit (assessment ev)\<rparr>
                            else ev\<lparr>ambient_segments := None\<rparr>)))
      | _ \<Rightarrow> None)"

definition find_protected :: "hub_env \<Rightarrow> string list \<Rightarrow> protected_edit_reason option" where
  "find_protected env ps =
     (case List.find (\<lambda>p. edit_target_protection (links (penv env)) (grok_home env) p \<noteq> None) ps of
        None \<Rightarrow> None
      | Some p \<Rightarrow> edit_target_protection (links (penv env)) (grok_home env) p)"

definition resolve_in :: "hub_env \<Rightarrow> manager_conf \<Rightarrow> request \<Rightarrow> string \<Rightarrow> string" where
  "resolve_in env conf rq p =
     (case path_context rq of
        Some (real_cwd, display_cwd) \<Rightarrow> resolve_model_path (tilde env) real_cwd display_cwd p
      | None \<Rightarrow> resolve_model_path (tilde env) (mc_cwd conf) None p)"

definition protected_edit ::
  "hub_env \<Rightarrow> manager_conf \<Rightarrow> request \<Rightarrow> bash_evaluation option \<Rightarrow> protected_edit_reason option" where
  "protected_edit env conf rq bash =
     (case edit_targets rq of
        Some targets \<Rightarrow> find_protected env targets
      | None \<Rightarrow>
          (case rq_access rq of
             Edit p \<Rightarrow> edit_target_protection (links (penv env)) (grok_home env) (resolve_in env conf rq p)
           | Bash _ \<Rightarrow>
               (case bash of
                  None \<Rightarrow> None
                | Some e \<Rightarrow>
                    (if has_cwd_change e \<and> list_ex (\<lambda>p. \<not> is_absolute p) (be_creation_paths e) then Some Sensitive
                     else find_protected env (map (resolve_in env conf rq) (be_creation_paths e))))
           | _ \<Rightarrow> None))"

record request_facts =
  rf_access :: access_kind
  rf_bash :: "bash_evaluation option"
  rf_protected :: "protected_edit_reason option"
  rf_preflight :: gate_preflight
  rf_hook :: bool
  rf_recovered :: bool

definition request_preflight :: "hub_env \<Rightarrow> manager_conf \<Rightarrow> manager \<Rightarrow> request \<Rightarrow> gate_preflight" where
  "request_preflight env conf m rq =
     (let pf = preflight_evaluate (penv env) (mpolicy m) (rq_access rq) (request_cwd conf rq) (auto_mode m)
      in case edit_targets rq of
           Some targets \<Rightarrow> evaluate_edit_targets (penv env) (mpolicy m) targets (request_cwd conf rq) pf
         | None \<Rightarrow> pf)"

definition facts_of :: "hub_env \<Rightarrow> manager_conf \<Rightarrow> manager \<Rightarrow> request \<Rightarrow> bool \<Rightarrow> request_facts" where
  "facts_of env conf m rq failed =
     (let bash = request_evaluation env m (rq_access rq) (request_cwd conf rq) failed
      in \<lparr>rf_access = rq_access rq, rf_bash = bash, rf_protected = protected_edit env conf rq bash,
          rf_preflight = request_preflight env conf m rq, rf_hook = hook_asks rq,
          rf_recovered = (auto_mode m \<and> requires_recovered_classification bash)\<rparr>)"

definition pre_classifier_forced_prompt :: "request_facts \<Rightarrow> bool" where
  "pre_classifier_forced_prompt f \<longleftrightarrow>
     policy_forced_prompt (rf_preflight f) \<or> shell_forced_prompt (rf_preflight f) \<or> rf_hook f"

section \<open>Decisions before the classifier\<close>

text \<open>A decision comes with whether it was made without a prompt and with its reason.\<close>

type_synonym ruling = "decision \<times> bool \<times> string"

definition auto_policy_allow :: "hub_env \<Rightarrow> manager \<Rightarrow> request_facts \<Rightarrow> ruling option" where
  "auto_policy_allow env m f =
     (let covering = configured_filename_allow (rf_bash f)
      in if auto_mode m \<and> (covering \<or> \<not> rf_recovered f) \<and> \<not> pre_classifier_forced_prompt f \<and>
            rf_protected f = None \<and> policy_decision (rf_preflight f) = Some DAllow \<and>
            (covering \<or> bash_assessment_is_clear (rf_bash f) \<or>
             \<not> bash_request_floor_requires_prompt (rf_bash f) \<and>
             (case mpolicy m of Some p \<Rightarrow> narrow_allow_authorizes (penv env) p (rf_access f) | None \<Rightarrow> False))
         then Some (DAllow, True, POLICY_ALLOW) else None)"

definition session_grant :: "hub_env \<Rightarrow> manager_conf \<Rightarrow> manager \<Rightarrow> request_facts \<Rightarrow> ruling option" where
  "session_grant env conf m f =
     (if pre_classifier_forced_prompt f \<or> rf_protected f \<noteq> None then None
      else (case session_grant_pre_decision (penv env) (static_domains conf) (rf_access f) (rf_bash f) (mstate m)
                   (allow_edits_for_session m) (\<not> (auto_mode m \<and> allowlist_is_default conf)) (mc_yolo_pin conf) of
              Some (d, reason) \<Rightarrow> (if \<not> rf_recovered f \<or> d \<noteq> DAllow then Some (d, True, reason) else None)
            | None \<Rightarrow> None))"

definition early_decision :: "hub_env \<Rightarrow> manager_conf \<Rightarrow> manager \<Rightarrow> request_facts \<Rightarrow> ruling option" where
  "early_decision env conf m f =
     (case policy_decision (rf_preflight f) of
        Some (Reject reason) \<Rightarrow> Some (PolicyDeny reason, False, POLICY_DENY)
      | _ \<Rightarrow>
          (if yolo_mode m \<and> \<not> shell_forced_prompt (rf_preflight f) \<and> \<not> rf_hook f then Some (DAllow, True, YOLO)
           else (case session_grant env conf m f of
                   Some r \<Rightarrow> Some r
                 | None \<Rightarrow> auto_policy_allow env m f)))"

section \<open>Auto mode\<close>

datatype auto_result = AutoDecided ruling | AutoAbandoned | AutoForced string | AutoFallThrough

definition block_text :: "classifier_outcome \<Rightarrow> string" where
  "block_text co =
     (case co_reason co of
        Some r \<Rightarrow> ''Auto mode blocked this action ('' @ trim_end_matches (CHR ''.'') r @ ''). '' @ AUTO_DENY_GUIDANCE
      | None \<Rightarrow> ''Auto mode blocked this action. '' @ AUTO_DENY_GUIDANCE)"

type_synonym auto_step = "auto_result \<times> request_classification \<times> nat \<times> nat"

definition verdict_step ::
  "manager_conf \<Rightarrow> manager \<Rightarrow> bool \<Rightarrow> security_assessment \<Rightarrow> classifier_outcome \<Rightarrow> auto_step" where
  "verdict_step conf m hook found co =
     (let cls = Classified found (Some (verdict co, SClassifier (provenance co)));
          c = consecutive_denials m; t = total_denials m
      in case verdict co of
           VAllow \<Rightarrow> (if hook then AutoFallThrough else AutoDecided (DAllow, True, AUTO_CLASSIFIER_ALLOW), cls, 0, t)
         | VBlock \<Rightarrow>
             (if can_present_prompt conf then (AutoForced AUTO_CLASSIFIER_DENY, cls, c, t)
              else if c < AUTO_DENY_CONSECUTIVE_LIMIT \<and> t < AUTO_DENY_TOTAL_LIMIT
              then (AutoDecided (PolicyDeny (block_text co), False, AUTO_CLASSIFIER_DENY), cls, c + 1, t + 1)
              else (AutoForced AUTO_DENIAL_LIMIT, cls, c, t))
         | VUnavailable \<Rightarrow>
             (AutoForced (if is_timeout co then AUTO_CLASSIFIER_TIMEOUT else AUTO_CLASSIFIER_UNAVAILABLE), cls, c, t))"

definition auto_route :: "manager_conf \<Rightarrow> manager \<Rightarrow> request_facts \<Rightarrow> classifier_outcome option \<Rightarrow> auto_step" where
  "auto_route conf m f outcome =
     (let c = consecutive_denials m; t = total_denials m; tool_name = tool_name_for_access (rf_access f)
      in if \<not> (auto_mode m \<and> admits_auto_classifier (rf_preflight f)) then (AutoFallThrough, NotClassified, c, t)
         else
           (case auto_mode_fast_path (rf_access f) tool_name
                   (rf_protected f \<noteq> None \<or> access_requires_user_interaction tool_name (rf_access f)) of
              FastAllow \<Rightarrow>
                (if rf_hook f then (AutoFallThrough, NotClassified, c, t)
                 else (AutoDecided (DAllow, True, AUTO_FAST_PATH), FastPath, c, t))
            | FastPromptUser \<Rightarrow> (AutoForced NEEDS_USER, NotClassified, c, t)
            | FastClassify \<Rightarrow>
                (let found = classifier_assessment (rf_bash f) (defers_gate_ask (rf_preflight f))
                 in if classifier_installed m then
                      (case outcome of
                         None \<Rightarrow> (AutoAbandoned, Classified found None, c, t)
                       | Some co \<Rightarrow> verdict_step conf m (rf_hook f) found co)
                    else
                      (case rf_access f of
                         AgentMessage _ \<Rightarrow> verdict_step conf m (rf_hook f) found (heuristic VBlock)
                       | _ \<Rightarrow> (AutoForced AUTO_CLASSIFIER_UNAVAILABLE, Classified found (Some (VUnavailable, SNotWired)), c, t)))))"

section \<open>Decisions after the classifier\<close>

definition is_bash_access :: "access_kind \<Rightarrow> bool" where
  "is_bash_access access = (case access of Bash _ \<Rightarrow> True | _ \<Rightarrow> False)"

definition sandbox_decision :: "request_facts \<Rightarrow> bool \<Rightarrow> bool \<Rightarrow> ruling option" where
  "sandbox_decision f active forced =
     (if is_bash_access (rf_access f) \<and> \<not> rf_recovered f \<and> sandbox_may_auto_allow_bash (rf_bash f) active \<and>
         \<not> policy_forced_prompt (rf_preflight f) \<and> \<not> forced \<and> \<not> rf_hook f \<and> rf_protected f = None
      then Some (DAllow, True, SANDBOX_AUTO) else None)"

definition policy_ruling :: "hub_env \<Rightarrow> manager_conf \<Rightarrow> manager \<Rightarrow> request_facts \<Rightarrow> bool \<Rightarrow> ruling option" where
  "policy_ruling env conf m f forced =
     (case policy_decision (rf_preflight f) of
        None \<Rightarrow> None
      | Some DAsk \<Rightarrow> None
      | Some d \<Rightarrow>
          (if d = DAllow \<and>
              (rf_protected f \<noteq> None \<or> forced \<or> rf_hook f \<or> rf_recovered f \<or>
               broad_allow_deferred (penv env) (rf_bash f) (mpolicy m) (rf_access f) (mc_prompt_policy conf \<noteq> PromptDeny))
           then None else Some (d, True, POLICY_ALLOW)))"

definition remembered_decision :: "hub_env \<Rightarrow> manager_conf \<Rightarrow> manager \<Rightarrow> request_facts \<Rightarrow> bool \<Rightarrow> grant_decision" where
  "remembered_decision env conf m f forced =
     (let pf = rf_preflight f; ask = policy_forced_prompt pf
      in case rf_access f of
           Read _ \<Rightarrow> (if ask then None else Some (DAllow, SAFE_COMMAND))
         | Grep _ _ \<Rightarrow> (if ask then None else Some (DAllow, SAFE_COMMAND))
         | WebSearch _ \<Rightarrow> Some (DAllow, SAFE_COMMAND)
         | MCPTool name \<Rightarrow>
             map_option (\<lambda>d. (d, case d of Reject _ \<Rightarrow> SESSION_DENY | _ \<Rightarrow> PERSISTED_GRANT))
               (mcp_pre_decision name (mstate m) ask (remember_tool_approvals conf))
         | Edit _ \<Rightarrow>
             (if ask then None
              else if allow_edits_for_session m \<and> rf_protected f = None then Some (DAllow, PERSISTED_GRANT)
              else (case edit_policy (mstate m) of
                      EditReject \<Rightarrow> Some (Reject ''edits prohibited'', SESSION_DENY)
                    | _ \<Rightarrow> None))
         | Bash cmd \<Rightarrow>
             (case rf_bash f of
                None \<Rightarrow> None
              | Some ev \<Rightarrow>
                  (if rf_protected f \<noteq> None \<or> bash_request_floor_requires_prompt (Some ev) then None
                   else if ask then
                     (if remember_tool_approvals conf \<and> \<not> forced \<and> \<not> shell_file_forced_prompt pf
                      then bash_grant_pre_decision cmd ev (mstate m) (mc_yolo_pin conf) ASK_FLOOR_REMEMBER
                      else None)
                   else bash_grant_pre_decision cmd ev (mstate m) (mc_yolo_pin conf) (post_classify forced)))
         | AgentMessage _ \<Rightarrow> None
         | WebFetch url \<Rightarrow>
             (case web_fetch_deny_pre_decision (penv env) url (mstate m) of
                Some reject \<Rightarrow> Some (reject, SESSION_DENY)
              | None \<Rightarrow>
                  (if static_domains conf url then Some (DAllow, STATIC_ALLOWLIST)
                   else (case url_host (penv env) url of
                           None \<Rightarrow> None
                         | Some host \<Rightarrow>
                             (if normalize_domain (lowercase (penv env)) host \<in> set (allowed_web_fetch_domains (mstate m))
                              then Some (DAllow, PERSISTED_GRANT) else None)))))"

definition is_allow :: "grant_decision \<Rightarrow> bool" where
  "is_allow g = (case g of Some (DAllow, _) \<Rightarrow> True | _ \<Rightarrow> False)"

text \<open>An allow that auto mode, a recovered script or a hook does not accept is dropped.\<close>

definition neutralized :: "request_facts \<Rightarrow> string option \<Rightarrow> grant_decision \<Rightarrow> grant_decision" where
  "neutralized f auto_reason g =
     (let classifier_absent = (auto_reason = Some AUTO_CLASSIFIER_TIMEOUT \<or> auto_reason = Some AUTO_CLASSIFIER_UNAVAILABLE);
          static_fallback = (classifier_absent \<and> (case rf_access f of WebFetch _ \<Rightarrow> True | _ \<Rightarrow> False) \<and>
            (case g of Some (DAllow, r) \<Rightarrow> r = STATIC_ALLOWLIST \<or> r = PERSISTED_GRANT | _ \<Rightarrow> False));
          g1 = (if (rf_recovered f \<or> auto_reason \<noteq> None \<and> \<not> is_bash_access (rf_access f)) \<and> is_allow g \<and> \<not> static_fallback
                then None else g)
      in if rf_hook f \<and> is_allow g1 then None else g1)"

definition prompt_policy_ruling :: "manager_conf \<Rightarrow> request_facts \<Rightarrow> ruling option" where
  "prompt_policy_ruling conf f =
     (if mc_prompt_policy conf = PromptDeny
      then Some (PolicyDeny ''denied by prompt policy (tool not pre-approved)'', False, PROMPT_DENY)
      else if mc_prompt_policy conf = PromptAllow \<and> \<not> rf_recovered f \<and> \<not> rf_hook f \<and>
              \<not> shell_forced_prompt (rf_preflight f) \<and> mc_yolo_pin conf = None
      then Some (DAllow, True, PROMPT_ALLOW) else None)"

definition or_else :: "'a option \<Rightarrow> 'a option \<Rightarrow> 'a option" where
  "or_else a b = (case a of Some x \<Rightarrow> Some x | None \<Rightarrow> b)"

definition late_decision ::
  "hub_env \<Rightarrow> manager_conf \<Rightarrow> manager \<Rightarrow> request_facts \<Rightarrow> bool \<Rightarrow> string option \<Rightarrow> ruling option" where
  "late_decision env conf m f active auto_reason =
     or_else (sandbox_decision f active (auto_reason \<noteq> None))
       (or_else (policy_ruling env conf m f (auto_reason \<noteq> None))
         (or_else (map_option (\<lambda>(d, reason). (d, True, reason))
                    (neutralized f auto_reason (remembered_decision env conf m f (auto_reason \<noteq> None))))
           (prompt_policy_ruling conf f)))"

definition request_trigger :: "request_facts \<Rightarrow> string option \<Rightarrow> string" where
  "request_trigger f auto_reason =
     (case prompt_trigger (rf_preflight f) auto_reason of
        Some r \<Rightarrow> r
      | None \<Rightarrow>
          (if rf_hook f then HOOK_ASK
           else if (case rf_bash f of Some e \<Rightarrow> \<not> exact_grant e \<and> OpaqueShell \<in> assessment e | None \<Rightarrow> False)
           then OPAQUE_SHELL
           else if bash_request_floor_requires_prompt (rf_bash f) then BASH_REQUEST_FLOOR
           else NEEDS_USER))"

section \<open>The answer of the user\<close>

fun outcome_kind :: "prompt_outcome \<Rightarrow> string" where
  "outcome_kind AllowOnce = ''allow_once''"
| "outcome_kind AllowAlways = ''allow_always''"
| "outcome_kind AllowEditsForSession = ''allow_edits_for_session''"
| "outcome_kind (AllowAlwaysBashCommand _) = ''allow_always_bash''"
| "outcome_kind (AllowAlwaysBashGlob _) = ''allow_always_bash_glob''"
| "outcome_kind (AllowAlwaysDomain _) = ''allow_always_domain''"
| "outcome_kind (AllowAlwaysMcpTool _) = ''allow_always_mcp_tool''"
| "outcome_kind (AllowAlwaysMcpServer _) = ''allow_always_mcp_server''"
| "outcome_kind RejectOnce = ''reject_once''"
| "outcome_kind (RejectAlwaysBashCommand _) = ''reject_always_bash''"
| "outcome_kind (RejectAlwaysMcpTool _) = ''reject_always_mcp_tool''"
| "outcome_kind (RejectAlwaysDomain _) = ''reject_always_domain''"
| "outcome_kind PromptCancelled = ''cancelled''"
| "outcome_kind (PromptFollowup _) = ''followup''"
| "outcome_kind (PromptError _) = ''error''"

definition user_rejected :: decision where
  "user_rejected = Reject ''User rejected the execution''"

definition user_excluded :: "string \<Rightarrow> decision" where
  "user_excluded key =
     Reject (''User rejected the execution and excluded '' @ [CHR 0x60] @ key @ [CHR 0x60] @ '' from future runs in this project'')"

definition prompt_failed :: "string \<Rightarrow> decision" where
  "prompt_failed e = Reject (''Failed to request permission from user: '' @ e)"

fun bash_answer :: "policy_env \<Rightarrow> string \<Rightarrow> prompt_outcome \<Rightarrow> manager \<Rightarrow> decision \<times> string \<times> manager" where
  "bash_answer env cmd AllowOnce m = (DAllow, outcome_kind AllowOnce, m)"
| "bash_answer env cmd AllowAlways m =
     (DAllow, outcome_kind AllowAlways,
      save_state ((mstate m)\<lparr>allowed_bash_commands :=
        hs_extend (hs_insert cmd (allowed_bash_commands (mstate m))) (bash_grant_segments env cmd)\<rparr>) m)"
| "bash_answer env cmd (AllowAlwaysBashCommand label) m =
     (DAllow, outcome_kind (AllowAlwaysBashCommand label), save_state (persist_bash_always_allow env (mstate m) cmd label) m)"
| "bash_answer env cmd (AllowAlwaysBashGlob pat) m =
     (DAllow, outcome_kind (AllowAlwaysBashGlob pat),
      if bash_glob_covers_script env cmd pat
      then save_state ((mstate m)\<lparr>allowed_bash_globs := hs_insert pat (allowed_bash_globs (mstate m))\<rparr>) m else m)"
| "bash_answer env cmd (AllowAlwaysDomain _) m = (DAllow, outcome_kind AllowOnce, m)"
| "bash_answer env cmd (AllowAlwaysMcpTool _) m = (DAllow, outcome_kind AllowOnce, m)"
| "bash_answer env cmd (AllowAlwaysMcpServer _) m = (DAllow, outcome_kind AllowOnce, m)"
| "bash_answer env cmd AllowEditsForSession m = (DAllow, outcome_kind AllowOnce, m)"
| "bash_answer env cmd RejectOnce m = (user_rejected, outcome_kind RejectOnce, m)"
| "bash_answer env cmd (RejectAlwaysBashCommand label) m =
     (user_excluded label, outcome_kind (RejectAlwaysBashCommand label),
      save_state ((mstate m)\<lparr>disallowed_bash_commands := hs_insert label (disallowed_bash_commands (mstate m))\<rparr>)
        (revoke_leases m))"
| "bash_answer env cmd (RejectAlwaysMcpTool _) m = (user_rejected, outcome_kind RejectOnce, m)"
| "bash_answer env cmd (RejectAlwaysDomain _) m = (user_rejected, outcome_kind RejectOnce, m)"
| "bash_answer env cmd PromptCancelled m = (Cancelled, outcome_kind PromptCancelled, m)"
| "bash_answer env cmd (PromptFollowup msg) m = (FollowupMessage msg, outcome_kind (PromptFollowup msg), m)"
| "bash_answer env cmd (PromptError e) m = (prompt_failed e, outcome_kind (PromptError e), m)"

definition agent_message_outcome :: "prompt_outcome \<Rightarrow> prompt_outcome" where
  "agent_message_outcome answer =
     (case answer of
        PromptCancelled \<Rightarrow> answer
      | PromptFollowup _ \<Rightarrow> answer
      | PromptError _ \<Rightarrow> answer
      | _ \<Rightarrow> (if prompt_outcome_allows answer then AllowOnce else RejectOnce))"

definition grant_mcp_tool :: "string \<Rightarrow> manager \<Rightarrow> manager" where
  "grant_mcp_tool name m =
     save_state ((mstate m)\<lparr>allowed_mcp_tools := hs_insert name (allowed_mcp_tools (mstate m))\<rparr>) m"

fun other_answer :: "policy_env \<Rightarrow> access_kind \<Rightarrow> prompt_outcome \<Rightarrow> manager \<Rightarrow> decision \<times> string \<times> manager" where
  "other_answer env access AllowOnce m = (DAllow, outcome_kind AllowOnce, m)"
| "other_answer env access AllowEditsForSession m =
     (DAllow, outcome_kind AllowEditsForSession, m\<lparr>allow_edits_for_session := True\<rparr>)"
| "other_answer env access AllowAlways m =
     (DAllow, outcome_kind AllowAlways,
      case access of MCPTool name \<Rightarrow> grant_mcp_tool name m | _ \<Rightarrow> save_state (mstate m) m)"
| "other_answer env access (AllowAlwaysBashCommand label) m = (DAllow, outcome_kind (AllowAlwaysBashCommand label), m)"
| "other_answer env access (AllowAlwaysBashGlob pat) m = (DAllow, ''allow_always_bash'', m)"
| "other_answer env access (AllowAlwaysDomain d) m =
     (DAllow, outcome_kind (AllowAlwaysDomain d),
      case access of
        WebFetch url \<Rightarrow>
          (case url_host env url of
             Some host \<Rightarrow>
               save_state ((mstate m)\<lparr>allowed_web_fetch_domains :=
                 hs_insert (normalize_domain (lowercase env) host) (allowed_web_fetch_domains (mstate m))\<rparr>) m
           | None \<Rightarrow> m)
      | _ \<Rightarrow> m)"
| "other_answer env access (AllowAlwaysMcpTool t) m =
     (DAllow, outcome_kind (AllowAlwaysMcpTool t),
      case access of MCPTool name \<Rightarrow> grant_mcp_tool name m | _ \<Rightarrow> m)"
| "other_answer env access (AllowAlwaysMcpServer server_prefix) m =
     (DAllow, outcome_kind (AllowAlwaysMcpServer server_prefix),
      case access of
        MCPTool name \<Rightarrow>
          (case parse_mcp_qualified_name name of
             Some (_, server, _) \<Rightarrow>
               (if server = server_prefix
                then save_state ((mstate m)\<lparr>allowed_mcp_servers := hs_insert server (allowed_mcp_servers (mstate m))\<rparr>) m
                else grant_mcp_tool name m)
           | None \<Rightarrow> grant_mcp_tool name m)
      | _ \<Rightarrow> m)"
| "other_answer env access (RejectAlwaysBashCommand label) m = (user_rejected, outcome_kind (RejectAlwaysBashCommand label), m)"
| "other_answer env access (RejectAlwaysMcpTool t) m =
     (case access of
        MCPTool name \<Rightarrow>
          (user_excluded name, outcome_kind (RejectAlwaysMcpTool t),
           save_state ((mstate m)\<lparr>disallowed_mcp_tools := hs_insert name (disallowed_mcp_tools (mstate m))\<rparr>) (revoke_leases m))
      | _ \<Rightarrow> (user_rejected, outcome_kind RejectOnce, m))"
| "other_answer env access (RejectAlwaysDomain d) m =
     (case (case access of WebFetch url \<Rightarrow> web_fetch_deny_key_from_url env url | _ \<Rightarrow> None) of
        Some domain \<Rightarrow>
          (user_excluded domain, outcome_kind (RejectAlwaysDomain d),
           save_state ((mstate m)\<lparr>disallowed_web_fetch_domains :=
             hs_insert domain (disallowed_web_fetch_domains (mstate m))\<rparr>) (revoke_leases m))
      | None \<Rightarrow> (user_rejected, outcome_kind RejectOnce, m))"
| "other_answer env access RejectOnce m = (user_rejected, outcome_kind RejectOnce, m)"
| "other_answer env access PromptCancelled m = (Cancelled, outcome_kind PromptCancelled, m)"
| "other_answer env access (PromptError e) m = (prompt_failed e, outcome_kind (PromptError e), m)"
| "other_answer env access (PromptFollowup msg) m = (FollowupMessage msg, outcome_kind (PromptFollowup msg), m)"

definition apply_answer :: "policy_env \<Rightarrow> access_kind \<Rightarrow> prompt_outcome \<Rightarrow> manager \<Rightarrow> decision \<times> string \<times> manager" where
  "apply_answer env access answer m =
     (case access of
        Bash cmd \<Rightarrow> bash_answer env cmd answer m
      | AgentMessage _ \<Rightarrow> other_answer env access (agent_message_outcome answer) m
      | _ \<Rightarrow> other_answer env access answer m)"

definition prompted_decision_approved :: "decision \<Rightarrow> string \<Rightarrow> bool option" where
  "prompted_decision_approved d outcome_str =
     (case d of
        DAllow \<Rightarrow> Some True
      | Reject _ \<Rightarrow> (if outcome_str \<noteq> ''error'' then Some False else None)
      | _ \<Rightarrow> None)"

definition record_decision :: "access_kind \<Rightarrow> decision \<Rightarrow> string \<Rightarrow> manager \<Rightarrow> manager" where
  "record_decision access d outcome_str m =
     (case prompted_decision_approved d outcome_str of
        None \<Rightarrow> m
      | Some approved \<Rightarrow>
          (let recorded = recorded_decisions m @ [(tool_name_for_access access, access, approved)]
           in m\<lparr>recorded_decisions := drop (length recorded - MAX_RECORDED_PERMISSION_DECISIONS) recorded\<rparr>))"

section \<open>Handling a request\<close>

record permission_event =
  ev_decision :: decision
  auto_approved :: bool
  user_prompted :: bool
  ev_outcome :: "string option"
  decision_reason :: string
  ev_classification :: request_classification
  ev_denials :: "nat \<times> nat"

definition ruling_event :: "ruling \<Rightarrow> request_classification \<Rightarrow> nat \<times> nat \<Rightarrow> permission_event" where
  "ruling_event r cls denials =
     (case r of (d, auto, reason) \<Rightarrow>
        \<lparr>ev_decision = d, auto_approved = auto, user_prompted = False, ev_outcome = None, decision_reason = reason,
         ev_classification = cls, ev_denials = denials\<rparr>)"

text \<open>What a request ends with: the event that is traced, and the decision sent to the requester, if any.\<close>

type_synonym resolution = "permission_event \<times> decision option"

definition answered_with :: "ruling \<Rightarrow> request_classification \<Rightarrow> nat \<times> nat \<Rightarrow> resolution" where
  "answered_with r cls denials = (ruling_event r cls denials, Some (fst r))"

definition requester_gone :: "request_classification \<Rightarrow> nat \<times> nat \<Rightarrow> resolution" where
  "requester_gone cls denials = (ruling_event (Cancelled, False, REQUESTER_GONE) cls denials, None)"

definition prompt_user ::
  "hub_env \<Rightarrow> request_facts \<Rightarrow> manager_event \<Rightarrow> string option \<Rightarrow> request_classification \<Rightarrow> manager \<Rightarrow> resolution \<times> manager" where
  "prompt_user env f ev auto_reason cls m =
     (case apply_answer (penv env) (rf_access f) (answered ev) m of
        (d, outcome_str, m1) \<Rightarrow>
          (let gone = (d = Cancelled \<and> gone_at_end ev);
               m2 = record_decision (rf_access f) d outcome_str m1;
               event = \<lparr>ev_decision = d, auto_approved = False, user_prompted = True, ev_outcome = Some outcome_str,
                        decision_reason = (if gone then REQUESTER_GONE else request_trigger f auto_reason),
                        ev_classification = cls, ev_denials = (consecutive_denials m, total_denials m)\<rparr>;
               m3 = (if outcome_str \<noteq> ''error'' \<and> \<not> gone then m2\<lparr>consecutive_denials := 0, total_denials := 0\<rparr> else m2)
           in ((event, Some d), m3)))"

definition after_auto ::
  "hub_env \<Rightarrow> manager_conf \<Rightarrow> request_facts \<Rightarrow> manager_event \<Rightarrow> string option \<Rightarrow> request_classification \<Rightarrow> manager \<Rightarrow>
   resolution \<times> manager" where
  "after_auto env conf f ev auto_reason cls m =
     (let denials = (consecutive_denials m, total_denials m)
      in case late_decision env conf m f (sandbox_active ev) auto_reason of
           Some r \<Rightarrow> (answered_with r cls denials, m)
         | None \<Rightarrow>
             (if gone_before_prompt ev then (requester_gone cls denials, m)
              else prompt_user env f ev auto_reason cls m))"

definition decide :: "hub_env \<Rightarrow> manager_conf \<Rightarrow> request_facts \<Rightarrow> manager_event \<Rightarrow> manager \<Rightarrow> resolution \<times> manager" where
  "decide env conf f ev m =
     (case early_decision env conf m f of
        Some r \<Rightarrow> (answered_with r NotClassified (consecutive_denials m, total_denials m), m)
      | None \<Rightarrow>
          (case auto_route conf m f (classified ev) of
             (result, cls, c, t) \<Rightarrow>
               (let m' = m\<lparr>consecutive_denials := c, total_denials := t\<rparr>
                in case result of
                     AutoDecided r \<Rightarrow> (answered_with r cls (c, t), m')
                   | AutoAbandoned \<Rightarrow> (requester_gone cls (c, t), m')
                   | AutoForced reason \<Rightarrow> after_auto env conf f ev (Some reason) cls m'
                   | AutoFallThrough \<Rightarrow> after_auto env conf f ev None cls m')))"

definition reloaded_manager :: "request \<Rightarrow> manager_event \<Rightarrow> manager \<Rightarrow> manager" where
  "reloaded_manager rq ev m = (if reloads_for (rq_access rq) then reload (fresh_state ev) m else m)"

definition handle_request :: "hub_env \<Rightarrow> manager_conf \<Rightarrow> request \<Rightarrow> manager_event \<Rightarrow> manager \<Rightarrow> resolution \<times> manager" where
  "handle_request env conf rq ev m =
     (let denials = (consecutive_denials m, total_denials m)
      in if gone_at_dequeue ev then (requester_gone NotClassified denials, m)
         else if invalid_targets rq then
           (answered_with (PolicyDeny ''invalid multi-file edit permission request'', False, POLICY_DENY) NotClassified denials, m)
         else
           (let m1 = reloaded_manager rq ev m
            in if scanned env m1 (rq_access rq) \<and> gone_after_scan ev then (requester_gone NotClassified denials, m1)
               else decide env conf (facts_of env conf m1 rq (scan_failed ev)) ev m1))"

section \<open>Commands\<close>

datatype manager_command =
    AcquireUnrestrictedLease u64
  | SetYoloMode bool
  | SetAutoMode bool
  | SetClassifier bool
  | SetClassifierTranscript "classifier_turn list"
  | SetProjectInstructions "string option"
  | AddSessionRules "permission_rule list"
  | ResetSessionRules
  | ResetState
  | Request request
  | Shutdown

datatype manager_reply =
    NoReply
  | LeaseGranted unrestricted_lease
  | LeaseRestricted
  | LeaseChanged
  | Resolved resolution

definition unrestricted :: "manager_conf \<Rightarrow> manager \<Rightarrow> bool" where
  "unrestricted conf m \<longleftrightarrow>
     yolo_mode m \<and> mc_yolo_pin conf = None \<and> \<not> has_read_denies conf \<and> \<not> has_explicit_denials (mstate m) \<and>
     mc_prompt_policy conf \<noteq> PromptDeny \<and>
     \<not> (case mpolicy m of Some pol \<Rightarrow> has_restrictive_rules pol | None \<Rightarrow> False)"

definition acquire_lease :: "manager_conf \<Rightarrow> u64 \<Rightarrow> manager_event \<Rightarrow> manager \<Rightarrow> manager_reply \<times> manager" where
  "acquire_lease conf rv ev m =
     (let m1 = reload (fresh_state ev) m
      in if unrestricted conf m1 then
           (case issue rv (registry m1) of
              (Some lease, s) \<Rightarrow> (LeaseGranted lease, m1\<lparr>registry := s\<rparr>)
            | (None, s) \<Rightarrow> (LeaseChanged, m1\<lparr>registry := s\<rparr>))
         else (LeaseRestricted, m1))"

definition set_yolo_mode :: "manager_conf \<Rightarrow> bool \<Rightarrow> manager \<Rightarrow> manager" where
  "set_yolo_mode conf enabled m =
     (let clamped = clamp_yolo enabled (mc_yolo_pin conf); m1 = (revoke_leases m)\<lparr>yolo_mode := clamped\<rparr>
      in if clamped then m1\<lparr>auto_mode := False\<rparr> else m1)"

definition set_auto_mode :: "bool \<Rightarrow> manager \<Rightarrow> manager" where
  "set_auto_mode enabled m =
     (let m1 = (revoke_leases m)\<lparr>auto_mode := enabled\<rparr>
      in if enabled then m1\<lparr>yolo_mode := False, classifier_installed := True\<rparr> else m1)"

definition add_session_rules :: "policy_env \<Rightarrow> permission_rule list \<Rightarrow> manager \<Rightarrow> manager" where
  "add_session_rules env rs m =
     (revoke_leases m)\<lparr>mpolicy := Some (append_rules env rs
        (case mpolicy m of Some pol \<Rightarrow> pol | None \<Rightarrow> policy_new env (config_new [])))\<rparr>"

definition drop_session_rules :: "policy_env \<Rightarrow> manager \<Rightarrow> manager" where
  "drop_session_rules env m =
     (revoke_leases m)\<lparr>mpolicy := map_option (\<lambda>pol. fst (reset_session_rules env pol)) (mpolicy m)\<rparr>"

definition reset_state :: "manager \<Rightarrow> manager" where
  "reset_state m =
     (revoke_leases m)\<lparr>mstate := default_state, disk := disk m @ [Replaced default_state], allow_edits_for_session := False\<rparr>"

fun handle_command ::
  "hub_env \<Rightarrow> manager_conf \<Rightarrow> manager_command \<Rightarrow> manager_event \<Rightarrow> manager \<Rightarrow> manager_reply \<times> manager" where
  "handle_command env conf (AcquireUnrestrictedLease rv) ev m = acquire_lease conf rv ev m"
| "handle_command env conf (SetYoloMode enabled) ev m = (NoReply, set_yolo_mode conf enabled m)"
| "handle_command env conf (SetAutoMode enabled) ev m = (NoReply, set_auto_mode enabled m)"
| "handle_command env conf (SetClassifier installed) ev m = (NoReply, m\<lparr>classifier_installed := installed\<rparr>)"
| "handle_command env conf (SetClassifierTranscript turns) ev m = (NoReply, m\<lparr>classifier_turns := turns\<rparr>)"
| "handle_command env conf (SetProjectInstructions instructions) ev m = (NoReply, m\<lparr>project_instructions := instructions\<rparr>)"
| "handle_command env conf (AddSessionRules rs) ev m = (NoReply, add_session_rules (penv env) rs m)"
| "handle_command env conf ResetSessionRules ev m = (NoReply, drop_session_rules (penv env) m)"
| "handle_command env conf ResetState ev m = (NoReply, reset_state m)"
| "handle_command env conf (Request rq) ev m = (case handle_request env conf rq ev m of (r, m') \<Rightarrow> (Resolved r, m'))"
| "handle_command env conf Shutdown ev m = (NoReply, (revoke_leases m)\<lparr>running := False\<rparr>)"

text \<open>The steps around the manager: its own commands, and what handles and lease holders do to the registry they
  share with it. A handle that changes the policy revokes the leases before it sends its command.\<close>

inductive manager_step :: "hub_env \<Rightarrow> manager_conf \<Rightarrow> manager \<Rightarrow> manager \<Rightarrow> bool" for env conf where
  command: "running m \<Longrightarrow> handle_command env conf cmd ev m = (reply, m') \<Longrightarrow> manager_step env conf m m'"
| handle: "manager_step env conf m (revoke_leases m)"
| spawn: "with_active_process h (Inr ((), g) :: unit + unit \<times> nat) (registry m) = (r, s) \<Longrightarrow>
    manager_step env conf m (m\<lparr>registry := s\<rparr>)"
| release: "manager_step env conf m (m\<lparr>registry := drop_lease h (registry m)\<rparr>)"
| group_end: "manager_step env conf m (m\<lparr>registry := drop_group g (registry m)\<rparr>)"

inductive manager_reachable :: "hub_env \<Rightarrow> manager_conf \<Rightarrow> manager \<Rightarrow> bool" for env conf where
  start: "mc_prompt_policy conf = (case cfg of Some c \<Rightarrow> config_prompt_policy c | None \<Rightarrow> PromptAsk) \<Longrightarrow>
    manager_reachable env conf (spawn_manager (penv env) conf cfg initial_yolo loaded_state)"
| step: "manager_reachable env conf m \<Longrightarrow> manager_step env conf m m' \<Longrightarrow> manager_reachable env conf m'"

section \<open>What can let a request through\<close>

inductive_cases command_stepE: "manager_step env conf m m'"

lemma or_else_Some: "or_else a b = Some x \<longleftrightarrow> a = Some x \<or> a = None \<and> b = Some x"
  by (cases a) (auto simp: or_else_def)

lemma request_managed:
  assumes "\<not> invalid_targets rq"
  shows "managed_verdict (direct (request_preflight env conf m rq))"
proof (cases "edit_targets rq")
  case None
  then show ?thesis by (simp add: request_preflight_def managed_preflight)
next
  case (Some targets)
  then have "targets \<noteq> []" using assms by (auto simp: invalid_targets_def)
  then show ?thesis using Some edit_targets_decided(1)
    by (cases "mpolicy m") (auto simp: request_preflight_def Let_def evaluate_edit_targets_def managed_verdict_def)
qed

lemma managed_cases:
  assumes "managed_verdict d"
  obtains "d = None" | "d = Some DAllow" | "d = Some DAsk" | r where "d = Some (Reject r)"
  using assms by (auto simp: managed_verdict_def split: option.splits decision.splits)

text \<open>What the facts of a valid request satisfy: only a script has an evaluation, only edits and scripts have a
  protected target, and the managed policy allows, asks, rejects or is silent.\<close>

definition facts_ok :: "request_facts \<Rightarrow> bool" where
  "facts_ok f \<longleftrightarrow>
     (rf_bash f \<noteq> None \<longleftrightarrow> is_bash_access (rf_access f)) \<and>
     (rf_protected f \<noteq> None \<longrightarrow> (\<exists>x. rf_access f = Edit x \<or> rf_access f = Bash x)) \<and>
     managed_verdict (direct (rf_preflight f))"

lemma facts_of_ok:
  assumes "\<not> invalid_targets rq"
  shows "facts_ok (facts_of env conf m rq failed)"
proof -
  have "request_evaluation env m (rq_access rq) cwd failed \<noteq> None \<longleftrightarrow> is_bash_access (rq_access rq)" for cwd
    by (auto simp: request_evaluation_def is_bash_access_def Let_def split: access_kind.splits option.splits)
  moreover have "\<exists>x. rq_access rq = Edit x \<or> rq_access rq = Bash x" if "protected_edit env conf rq bash \<noteq> None" for bash
    using that assms by (auto simp: protected_edit_def invalid_targets_def split: option.splits access_kind.splits)
  ultimately show ?thesis using request_managed [OF assms] by (simp add: facts_ok_def facts_of_def Let_def)
qed

lemma floor_no_grant:
  "bash_request_floor_requires_prompt (Some e) \<Longrightarrow> bash_grant_pre_decision cmd e st pin opts \<noteq> Some (DAllow, r)"
  by (auto simp: bash_grant_pre_decision_def split: segment_evaluation.splits)

text \<open>The rulings that allow, one group at a time.\<close>

definition not_rejected :: "request_facts \<Rightarrow> bool" where
  "not_rejected f \<longleftrightarrow> (\<forall>r. policy_decision (rf_preflight f) \<noteq> Some (Reject r))"

definition asks_skipped :: "manager_conf \<Rightarrow> manager \<Rightarrow> request_facts \<Rightarrow> bool" where
  "asks_skipped conf m f \<longleftrightarrow>
     auto_mode m \<and> defers_gate_ask (rf_preflight f) \<or>
     (case rf_access f of
        WebFetch _ \<Rightarrow> True
      | WebSearch _ \<Rightarrow> True
      | MCPTool _ \<Rightarrow> remember_tool_approvals conf
      | Bash _ \<Rightarrow> remember_tool_approvals conf \<and> \<not> shell_file_forced_prompt (rf_preflight f)
      | _ \<Rightarrow> False)"

definition let_through :: "manager_conf \<Rightarrow> manager \<Rightarrow> request_facts \<Rightarrow> bool" where
  "let_through conf m f \<longleftrightarrow>
     not_rejected f \<and> \<not> rf_hook f \<and>
     (yolo_mode m \<and> \<not> shell_forced_prompt (rf_preflight f) \<or>
      mc_prompt_policy conf = PromptAllow \<and> mc_yolo_pin conf = None \<and> \<not> shell_forced_prompt (rf_preflight f) \<or>
      rf_protected f = None \<and>
      (policy_forced_prompt (rf_preflight f) \<longrightarrow> asks_skipped conf m f) \<and>
      (bash_request_floor_requires_prompt (rf_bash f) \<longrightarrow>
         auto_mode m \<or> policy_decision (rf_preflight f) = Some DAllow))"

lemma early_allow:
  assumes "early_decision env conf m f = Some (DAllow, auto, reason)" and "facts_ok f"
  shows "let_through conf m f"
proof -
  have nr: "not_rejected f" using assms by (auto simp: early_decision_def not_rejected_def)
  show ?thesis
  proof (cases "yolo_mode m \<and> \<not> shell_forced_prompt (rf_preflight f) \<and> \<not> rf_hook f")
    case True
    with nr show ?thesis by (auto simp: let_through_def)
  next
    case False
    then have e: "session_grant env conf m f = Some (DAllow, auto, reason) \<or> auto_policy_allow env m f = Some (DAllow, auto, reason)"
      using assms by (auto simp: early_decision_def split: option.splits decision.splits)
    then have p: "\<not> pre_classifier_forced_prompt f" "rf_protected f = None"
      by (auto simp: session_grant_def auto_policy_allow_def Let_def split: if_splits)
    have floor: "auto_mode m" if fl: "bash_request_floor_requires_prompt (rf_bash f)"
    proof -
      obtain cmd e where "rf_access f = Bash cmd" "rf_bash f = Some e"
        using fl assms(2) by (cases "rf_bash f"; cases "rf_access f")
          (auto simp: facts_ok_def is_bash_access_def bash_request_floor_requires_prompt_def)
      then have "session_grant env conf m f \<noteq> Some (DAllow, auto, reason)"
        using fl floor_no_grant by (auto simp: session_grant_def session_grant_pre_decision_def split: option.splits if_splits)
      with e show ?thesis by (auto simp: auto_policy_allow_def Let_def split: if_splits)
    qed
    show ?thesis using nr p floor by (auto simp: let_through_def pre_classifier_forced_prompt_def)
  qed
qed


lemma auto_allow:
  assumes "auto_route conf m f outcome = (AutoDecided (DAllow, auto, reason), cls, c, t)" and "not_rejected f"
  shows "let_through conf m f"
proof -
  have a: "auto_mode m" "admits_auto_classifier (rf_preflight f)" using assms(1) by (auto simp: auto_route_def Let_def split: if_splits)
  have "rf_protected f = None" using assms(1) a
    by (auto simp: auto_route_def Let_def auto_mode_fast_path_def split: if_splits)
  moreover have "\<not> rf_hook f" using assms(1) a
    by (auto simp: auto_route_def Let_def verdict_step_def split: if_splits auto_fast_path.splits option.splits
        access_kind.splits classifier_verdict.splits)
  ultimately show ?thesis using a assms(2)
    by (auto simp: let_through_def asks_skipped_def admits_auto_classifier_def)
qed

lemma sandbox_allow:
  "sandbox_decision f active forced = Some (DAllow, auto, reason) \<Longrightarrow> not_rejected f \<Longrightarrow> let_through conf m f"
  by (auto simp: sandbox_decision_def let_through_def sandbox_may_auto_allow_bash_def split: if_splits)

lemma policy_allow:
  "policy_ruling env conf m f forced = Some (DAllow, auto, reason) \<Longrightarrow> let_through conf m f"
  by (auto simp: policy_ruling_def let_through_def not_rejected_def policy_forced_prompt_def
      split: option.splits decision.splits if_splits)

lemma remembered_allow:
  assumes "remembered_decision env conf m f forced = Some (DAllow, reason)" and "facts_ok f"
  shows "rf_protected f = None \<and> (policy_forced_prompt (rf_preflight f) \<longrightarrow> asks_skipped conf m f) \<and>
    \<not> bash_request_floor_requires_prompt (rf_bash f)"
proof (cases "rf_access f")
  case (Bash cmd)
  then show ?thesis using assms
    by (auto simp: remembered_decision_def asks_skipped_def Let_def split: option.splits if_splits)
next
  case (Edit p)
  then have "rf_bash f = None" using assms(2) by (auto simp: facts_ok_def is_bash_access_def)
  with Edit assms(1) show ?thesis
    by (auto simp: remembered_decision_def Let_def bash_request_floor_requires_prompt_def split: if_splits edit_policy.splits)
next
  case (MCPTool name)
  then have "rf_bash f = None" "rf_protected f = None" using assms(2) by (auto simp: facts_ok_def is_bash_access_def)
  moreover have "remember_tool_approvals conf" if "policy_forced_prompt (rf_preflight f)"
    using that assms(1) MCPTool by (auto simp: remembered_decision_def mcp_pre_decision_def Let_def split: if_splits)
  ultimately show ?thesis by (auto simp: asks_skipped_def MCPTool bash_request_floor_requires_prompt_def)
qed (use assms in \<open>auto simp: remembered_decision_def facts_ok_def is_bash_access_def asks_skipped_def Let_def
  bash_request_floor_requires_prompt_def split: if_splits\<close>)

lemma neutralized_allow:
  "neutralized f auto_reason g = Some (DAllow, r) \<Longrightarrow> g = Some (DAllow, r) \<and> \<not> rf_hook f"
  by (auto simp: neutralized_def is_allow_def Let_def split: if_splits option.splits)

lemma late_allow:
  assumes "late_decision env conf m f active auto_reason = Some (DAllow, auto, reason)" and "not_rejected f" and "facts_ok f"
  shows "let_through conf m f"
  using assms(1) unfolding late_decision_def or_else_Some
proof (elim disjE conjE)
  assume "map_option (\<lambda>(d, reason). (d, True, reason))
    (neutralized f auto_reason (remembered_decision env conf m f (auto_reason \<noteq> None))) = Some (DAllow, auto, reason)"
  then have "neutralized f auto_reason (remembered_decision env conf m f (auto_reason \<noteq> None)) = Some (DAllow, reason)" by auto
  from neutralized_allow [OF this] have g: "remembered_decision env conf m f (auto_reason \<noteq> None) = Some (DAllow, reason)" "\<not> rf_hook f" by blast+
  show ?thesis using remembered_allow [OF g(1) assms(3)] g(2) assms(2) unfolding let_through_def by blast
next
  assume "prompt_policy_ruling conf f = Some (DAllow, auto, reason)"
  with assms(2) show ?thesis by (auto simp: prompt_policy_ruling_def let_through_def split: if_splits)
qed (use assms(2) in \<open>auto intro: sandbox_allow policy_allow\<close>)

lemma early_rejects: "early_decision env conf m f = None \<Longrightarrow> not_rejected f"
  by (auto simp: early_decision_def not_rejected_def split: option.splits decision.splits)

lemma late_frame:
  "let_through conf (m\<lparr>consecutive_denials := c, total_denials := t\<rparr>) f = let_through conf m f"
  by (simp add: let_through_def asks_skipped_def)

lemma decide_allow:
  assumes "decide env conf f ev m = ((e, Some DAllow), m')" and "\<not> user_prompted e" and "facts_ok f"
  shows "let_through conf m f"
proof (cases "early_decision env conf m f")
  case (Some r)
  then show ?thesis using assms early_allow by (cases r) (auto simp: decide_def answered_with_def)
next
  case None
  obtain result cls c t where a: "auto_route conf m f (classified ev) = (result, cls, c, t)" by (metis prod_cases4)
  let ?m = "m\<lparr>consecutive_denials := c, total_denials := t\<rparr>"
  have after: "let_through conf ?m f" if "after_auto env conf f ev auto_reason cls ?m = ((e, Some DAllow), m')" for auto_reason
  proof (cases "late_decision env conf ?m f (sandbox_active ev) auto_reason")
    case None
    with that assms(2) show ?thesis
      by (auto simp: after_auto_def Let_def requester_gone_def prompt_user_def split: if_splits prod.splits)
  next
    case (Some r)
    with that late_allow early_rejects [OF None] assms(3) show ?thesis
      by (cases r) (auto simp: after_auto_def Let_def answered_with_def)
  qed
  show ?thesis
  proof (cases result)
    case (AutoDecided r)
    with a None assms(1) auto_allow early_rejects [OF None] show ?thesis
      by (cases r) (auto simp: decide_def answered_with_def Let_def)
  next
    case AutoAbandoned
    with a None assms(1) show ?thesis by (auto simp: decide_def requester_gone_def Let_def)
  next
    case (AutoForced reason)
    with a None assms(1) have "after_auto env conf f ev (Some reason) cls ?m = ((e, Some DAllow), m')" by (simp add: decide_def Let_def)
    then show ?thesis using after late_frame by blast
  next
    case AutoFallThrough
    with a None assms(1) have "after_auto env conf f ev None cls ?m = ((e, Some DAllow), m')" by (simp add: decide_def Let_def)
    then show ?thesis using after late_frame by blast
  qed
qed

lemma reload_modes [simp]:
  "yolo_mode (reload fresh m) = yolo_mode m" "auto_mode (reload fresh m) = auto_mode m" "mpolicy (reload fresh m) = mpolicy m"
  "consecutive_denials (reload fresh m) = consecutive_denials m" "total_denials (reload fresh m) = total_denials m"
  "recorded_decisions (reload fresh m) = recorded_decisions m"
  by (auto simp: reload_def revoke_leases_def split: option.splits)

lemma reloaded_modes [simp]:
  "yolo_mode (reloaded_manager rq ev m) = yolo_mode m" "auto_mode (reloaded_manager rq ev m) = auto_mode m"
  "mpolicy (reloaded_manager rq ev m) = mpolicy m"
  by (simp_all add: reloaded_manager_def)

lemma handle_allow_decided:
  assumes "handle_request env conf rq ev m = ((e, Some DAllow), m')"
  shows "\<not> invalid_targets rq \<and>
    decide env conf (facts_of env conf (reloaded_manager rq ev m) rq (scan_failed ev)) ev (reloaded_manager rq ev m) = ((e, Some DAllow), m')"
  using assms by (auto simp: handle_request_def requester_gone_def answered_with_def Let_def split: if_splits)

lemma handle_allow:
  assumes "handle_request env conf rq ev m = ((e, Some DAllow), m')" and "\<not> user_prompted e"
  shows "let_through conf (reloaded_manager rq ev m) (facts_of env conf (reloaded_manager rq ev m) rq (scan_failed ev))"
  using handle_allow_decided [OF assms(1)] decide_allow [OF _ assms(2) facts_of_ok] by blast


section \<open>A managed deny\<close>

lemma rejected_answer:
  assumes "\<not> gone_at_dequeue ev" and "\<not> invalid_targets rq"
    and "\<not> (scanned env (reloaded_manager rq ev m) (rq_access rq) \<and> gone_after_scan ev)"
    and "\<exists>r. policy_decision (request_preflight env conf (reloaded_manager rq ev m) rq) = Some (Reject r)"
  shows "\<exists>reason e. handle_request env conf rq ev m = ((e, Some (PolicyDeny reason)), reloaded_manager rq ev m) \<and> \<not> user_prompted e"
proof -
  obtain r where r: "policy_decision (rf_preflight (facts_of env conf (reloaded_manager rq ev m) rq (scan_failed ev))) = Some (Reject r)"
    using assms(4) by (auto simp: facts_of_def Let_def)
  have "early_decision env conf (reloaded_manager rq ev m) (facts_of env conf (reloaded_manager rq ev m) rq (scan_failed ev)) =
      Some (PolicyDeny r, False, POLICY_DENY)" by (simp add: early_decision_def r)
  then show ?thesis using assms(1-3)
    by (auto simp: handle_request_def decide_def answered_with_def ruling_event_def Let_def)
qed

text \<open>C4: A managed deny is final in every mode: when a rule rejects the access or one of the files of a patch, or a shell
  gate rejects the command, the answer is a policy denial without a prompt, whatever the mode, the remembered answers,
  the classifier and the hooks, and nothing is remembered.\<close>

theorem managed_deny_final:
  assumes "\<not> gone_at_dequeue ev" and "\<not> invalid_targets rq"
    and "\<not> (scanned env (reloaded_manager rq ev m) (rq_access rq) \<and> gone_after_scan ev)"
    and "mpolicy m = Some pol"
    and "(\<exists>r. edit_targets rq = None \<and> evaluate_with_cwd (penv env) pol (rq_access rq) (Some (request_cwd conf rq)) = Some (Reject r)) \<or>
      (\<exists>targets p r. edit_targets rq = Some targets \<and> p \<in> set targets \<and>
         evaluate_with_cwd (penv env) pol (Edit p) (Some (request_cwd conf rq)) = Some (Reject r)) \<or>
      (\<exists>cmd r. rq_access rq = Bash cmd \<and>
         (evaluate_bash_command_gate (penv env) pol cmd = Some (GReject r) \<or>
          evaluate_shell_file_access_gate (penv env) pol cmd (request_cwd conf rq) = Some (GReject r)))"
  shows "\<exists>reason e. handle_request env conf rq ev m = ((e, Some (PolicyDeny reason)), reloaded_manager rq ev m) \<and> \<not> user_prompted e"
proof (rule rejected_answer [OF assms(1-3)])
  let ?pf = "request_preflight env conf (reloaded_manager rq ev m) rq"
  show "\<exists>r. policy_decision ?pf = Some (Reject r)"
    unfolding policy_rejects_iff [OF request_managed [OF assms(2)]]
  proof (cases "edit_targets rq")
    case None
    then show "(\<exists>r. direct ?pf = Some (Reject r)) \<or> (\<exists>r. bash_command ?pf = Some (GReject r)) \<or> (\<exists>r. shell_file ?pf = Some (GReject r))"
      using assms(4,5) by (auto simp: request_preflight_def preflight_sel)
  next
    case (Some targets)
    then have t: "targets \<noteq> []" "\<nexists>cmd. rq_access rq = Bash cmd" using assms(2) by (auto simp: invalid_targets_def)
    then have "\<exists>p\<in>set targets. \<exists>r. evaluate_with_cwd (penv env) pol (Edit p) (Some (request_cwd conf rq)) = Some (Reject r)"
      using assms(5) Some by auto
    then have "\<exists>r. direct ?pf = Some (Reject r)"
      unfolding request_preflight_def Some Let_def option.case reloaded_modes assms(4)
      by (simp only: edit_targets_decided(2) [OF t(1)])
    then show "(\<exists>r. direct ?pf = Some (Reject r)) \<or> (\<exists>r. bash_command ?pf = Some (GReject r)) \<or> (\<exists>r. shell_file ?pf = Some (GReject r))" ..
  qed
qed

section \<open>Invariants of the manager\<close>

definition manager_inv :: "manager_conf \<Rightarrow> manager \<Rightarrow> bool" where
  "manager_inv conf m \<longleftrightarrow>
     (yolo_mode m \<longrightarrow> mc_yolo_pin conf = None \<and> \<not> auto_mode m) \<and>
     consecutive_denials m \<le> AUTO_DENY_CONSECUTIVE_LIMIT \<and> total_denials m \<le> AUTO_DENY_TOTAL_LIMIT \<and>
     length (recorded_decisions m) \<le> MAX_RECORDED_PERMISSION_DECISIONS \<and>
     edit_policy (mstate m) \<noteq> EditAllow \<and>
     (leases (registry m) \<noteq> [] \<longrightarrow> unrestricted conf m)"

lemma transition_leases [simp]: "leases (transition s) = []"
  by (simp add: transition_def)

lemma revoke_sel [simp]:
  "yolo_mode (revoke_leases m) = yolo_mode m" "auto_mode (revoke_leases m) = auto_mode m"
  "consecutive_denials (revoke_leases m) = consecutive_denials m" "total_denials (revoke_leases m) = total_denials m"
  "recorded_decisions (revoke_leases m) = recorded_decisions m" "mstate (revoke_leases m) = mstate m"
  "mpolicy (revoke_leases m) = mpolicy m" "leases (registry (revoke_leases m)) = []"
  by (simp_all add: revoke_leases_def)

lemma save_sel [simp]:
  "yolo_mode (save_state st m) = yolo_mode m" "auto_mode (save_state st m) = auto_mode m"
  "consecutive_denials (save_state st m) = consecutive_denials m" "total_denials (save_state st m) = total_denials m"
  "recorded_decisions (save_state st m) = recorded_decisions m" "mstate (save_state st m) = st"
  "mpolicy (save_state st m) = mpolicy m" "registry (save_state st m) = registry m"
  by (simp_all add: save_state_def)

text \<open>A step that leaves modes and policy alone, and either takes no denial on or revokes the leases.\<close>

lemma inv_frame:
  assumes "manager_inv conf m" and "yolo_mode m' = yolo_mode m" and "auto_mode m' = auto_mode m" and "mpolicy m' = mpolicy m"
    and "consecutive_denials m' \<le> AUTO_DENY_CONSECUTIVE_LIMIT" and "total_denials m' \<le> AUTO_DENY_TOTAL_LIMIT"
    and "length (recorded_decisions m') \<le> MAX_RECORDED_PERMISSION_DECISIONS"
    and "edit_policy (mstate m') = edit_policy (mstate m)"
    and "leases (registry m') = [] \<or> leases (registry m') = leases (registry m) \<and> (has_explicit_denials (mstate m') \<longrightarrow> has_explicit_denials (mstate m))"
  shows "manager_inv conf m'"
  using assms unfolding manager_inv_def unrestricted_def by auto

lemma merge_denials: "\<not> has_explicit_denials f \<Longrightarrow> has_explicit_denials (merge_grants_from st f) = has_explicit_denials st"
  by (auto simp: has_explicit_denials_def merge_grants_from_def hs_extend_def)

lemma merge_edit [simp]: "edit_policy (merge_grants_from st f) = edit_policy st"
  by (simp add: merge_grants_from_def)

lemma inv_reload:
  assumes "manager_inv conf m"
  shows "manager_inv conf (reload fresh m)"
proof (cases fresh)
  case (Some f)
  show ?thesis
  proof (rule inv_frame [OF assms])
    show "leases (registry (reload fresh m)) = [] \<or> leases (registry (reload fresh m)) = leases (registry m) \<and>
        (has_explicit_denials (mstate (reload fresh m)) \<longrightarrow> has_explicit_denials (mstate m))"
      using Some by (auto simp: reload_def merge_denials)
  qed (use assms Some in \<open>auto simp: manager_inv_def reload_def\<close>)
qed (use assms in \<open>simp add: reload_def\<close>)

text \<open>What an answer does to the state: it adds a denial only with a revocation.\<close>

definition harmless :: "manager \<Rightarrow> manager \<Rightarrow> bool" where
  "harmless m m' \<longleftrightarrow>
     yolo_mode m' = yolo_mode m \<and> auto_mode m' = auto_mode m \<and> mpolicy m' = mpolicy m \<and>
     consecutive_denials m' = consecutive_denials m \<and> total_denials m' = total_denials m \<and>
     recorded_decisions m' = recorded_decisions m \<and> edit_policy (mstate m') = edit_policy (mstate m) \<and>
     (leases (registry m') = [] \<or>
      leases (registry m') = leases (registry m) \<and> has_explicit_denials (mstate m') = has_explicit_denials (mstate m))"

lemma persist_harmless:
  "edit_policy (persist_bash_always_allow env st cmd label) = edit_policy st"
  "disallowed_bash_commands (persist_bash_always_allow env st cmd label) = disallowed_bash_commands st"
  "disallowed_mcp_tools (persist_bash_always_allow env st cmd label) = disallowed_mcp_tools st"
  "disallowed_web_fetch_domains (persist_bash_always_allow env st cmd label) = disallowed_web_fetch_domains st"
  by (auto simp: persist_bash_always_allow_def insert_command_grant_def Let_def split: option.splits)

lemma bash_answer_harmless: "harmless m (snd (snd (bash_answer env cmd answer m)))"
  by (cases answer) (auto simp: harmless_def persist_harmless has_explicit_denials_def)

lemma other_answer_harmless: "harmless m (snd (snd (other_answer env access answer m)))"
  by (cases answer) (auto simp: harmless_def grant_mcp_tool_def has_explicit_denials_def split: access_kind.split option.split)

lemma answer_harmless: "harmless m (snd (snd (apply_answer env access answer m)))"
  by (simp add: apply_answer_def bash_answer_harmless other_answer_harmless split: access_kind.split)

lemma record_sel [simp]:
  "yolo_mode (record_decision access d o' m) = yolo_mode m" "auto_mode (record_decision access d o' m) = auto_mode m"
  "consecutive_denials (record_decision access d o' m) = consecutive_denials m"
  "total_denials (record_decision access d o' m) = total_denials m" "mstate (record_decision access d o' m) = mstate m"
  "mpolicy (record_decision access d o' m) = mpolicy m" "registry (record_decision access d o' m) = registry m"
  by (auto simp: record_decision_def Let_def split: option.split)

lemma record_bounded:
  "length (recorded_decisions m) \<le> MAX_RECORDED_PERMISSION_DECISIONS \<Longrightarrow>
   length (recorded_decisions (record_decision access d o' m)) \<le> MAX_RECORDED_PERMISSION_DECISIONS"
  by (auto simp: record_decision_def Let_def split: option.split)

lemma inv_prompt:
  assumes "manager_inv conf m"
  shows "manager_inv conf (snd (prompt_user env f ev auto_reason cls m))"
proof -
  obtain d o' m1 where a: "apply_answer (penv env) (rf_access f) (answered ev) m = (d, o', m1)" by (metis prod_cases3)
  have h: "harmless m m1" using answer_harmless [of m "penv env" "rf_access f" "answered ev"] by (simp add: a)
  show ?thesis
    by (rule inv_frame [OF assms]; insert assms h; auto simp: prompt_user_def a Let_def harmless_def manager_inv_def record_bounded)
qed

lemma auto_route_counters:
  assumes "auto_route conf m f outcome = (result, cls, c, t)" and "manager_inv conf m"
  shows "c \<le> AUTO_DENY_CONSECUTIVE_LIMIT \<and> t \<le> AUTO_DENY_TOTAL_LIMIT"
  using assms
  by (auto simp: auto_route_def verdict_step_def manager_inv_def Let_def split: if_splits auto_fast_path.splits option.splits
      access_kind.splits classifier_verdict.splits)

lemma inv_after_auto: "manager_inv conf m \<Longrightarrow> manager_inv conf (snd (after_auto env conf f ev auto_reason cls m))"
  using inv_prompt by (auto simp: after_auto_def Let_def split: option.split)

lemma inv_decide:
  assumes "manager_inv conf m"
  shows "manager_inv conf (snd (decide env conf f ev m))"
proof (cases "early_decision env conf m f")
  case (Some r)
  with assms show ?thesis by (simp add: decide_def)
next
  case None
  obtain result cls c t where a: "auto_route conf m f (classified ev) = (result, cls, c, t)" by (metis prod_cases4)
  have "manager_inv conf (m\<lparr>consecutive_denials := c, total_denials := t\<rparr>)"
    using auto_route_counters [OF a assms] assms by (simp add: manager_inv_def unrestricted_def)
  with None a inv_after_auto show ?thesis by (cases result) (auto simp: decide_def Let_def)
qed

lemma inv_request: "manager_inv conf m \<Longrightarrow> manager_inv conf (snd (handle_request env conf rq ev m))"
  using inv_decide inv_reload by (auto simp: handle_request_def reloaded_manager_def Let_def)

lemma inv_acquire:
  assumes "manager_inv conf m"
  shows "manager_inv conf (snd (acquire_lease conf rv ev m))"
proof -
  let ?m = "reload (fresh_state ev) m"
  have i: "manager_inv conf ?m" by (rule inv_reload [OF assms])
  then show ?thesis
    by (auto simp: acquire_lease_def Let_def manager_inv_def unrestricted_def issue_def split: prod.split option.split)
qed

lemma inv_modes:
  assumes "manager_inv conf m"
  shows "manager_inv conf (set_yolo_mode conf enabled m)" and "manager_inv conf (set_auto_mode enabled m)"
    and "manager_inv conf (add_session_rules env rs m)" and "manager_inv conf (drop_session_rules env m)"
    and "manager_inv conf (reset_state m)"
  using assms
  by (simp_all add: manager_inv_def set_yolo_mode_def set_auto_mode_def add_session_rules_def drop_session_rules_def
      reset_state_def default_state_def clamp_yolo_def Let_def) auto

lemma inv_untouched:
  assumes "manager_inv conf m"
  shows "manager_inv conf (m\<lparr>classifier_installed := b\<rparr>)" and "manager_inv conf (m\<lparr>classifier_turns := turns\<rparr>)"
    and "manager_inv conf (m\<lparr>project_instructions := i\<rparr>)" and "manager_inv conf ((revoke_leases m)\<lparr>running := b\<rparr>)"
  using assms by (simp_all add: manager_inv_def unrestricted_def)

lemma inv_command:
  assumes "manager_inv conf m"
  shows "manager_inv conf (snd (handle_command env conf cmd ev m))"
  by (cases cmd)
    (simp_all add: assms inv_acquire inv_request inv_modes inv_untouched case_prod_unfold)

lemma push_group_Nil [simp]: "push_group l g rs = [] \<longleftrightarrow> rs = []"
  by (cases rs) auto

lemma drop_lease_Nil: "leases s = [] \<Longrightarrow> leases (drop_lease h s) = []"
  by (simp add: drop_lease_def Let_def)

lemma inv_step: "manager_step env conf m m' \<Longrightarrow> manager_inv conf m \<Longrightarrow> manager_inv conf m'"
proof (induction rule: manager_step.induct)
  case (command m cmd ev reply m')
  then show ?case using inv_command [of conf m env cmd ev] by simp
next
  case (spawn h g m r s)
  then show ?case by (auto simp: manager_inv_def unrestricted_def with_active_process_def split: if_splits)
next
  case (release m h)
  then show ?case using drop_lease_Nil [of "registry m" h] by (auto simp: manager_inv_def unrestricted_def)
qed (auto simp: manager_inv_def unrestricted_def drop_group_def)

lemma reachable_inv: "manager_reachable env conf m \<Longrightarrow> manager_inv conf m"
proof (induction rule: manager_reachable.induct)
  case (start cfg initial_yolo loaded_state)
  show ?case
    by (auto simp: spawn_manager_def manager_inv_def clamp_yolo_def registry_empty_def Let_def)
qed (rule inv_step)

text \<open>C5: An external process starts under a lease only while the manager is free of restrictions: in every reachable
  state, when a lease lets a process start, always-approve is on, no pin, no read denial, no remembered refusal, no
  configured denial of prompts and no restrictive rule is in force.\<close>

theorem lease_needs_freedom:
  assumes "manager_reachable env conf m"
    and "with_active_process h (Inr ((), g) :: unit + unit \<times> nat) (registry m) = (Inr (Inr ()), s)"
  shows "yolo_mode m \<and> mc_yolo_pin conf = None \<and> \<not> has_read_denies conf \<and> \<not> has_explicit_denials (mstate m) \<and>
    mc_prompt_policy conf \<noteq> PromptDeny \<and> (\<forall>pol. mpolicy m = Some pol \<longrightarrow> \<not> has_restrictive_rules pol)"
proof -
  have "leases (registry m) \<noteq> []"
    using assms(2) by (auto simp: with_active_process_def split: if_splits)
  with reachable_inv [OF assms(1)] show ?thesis by (auto simp: manager_inv_def unrestricted_def)
qed

text \<open>C20: The bounds of every reachable manager: always-approve is never on under a managed pin or together with auto
  mode, auto mode has denied at most three times in a row and twenty times in all without the user, at most twelve
  decisions are kept for the classifier, and a remembered permission for all edits is never in force.\<close>

theorem manager_bounds:
  assumes "manager_reachable env conf m"
  shows "\<not> (yolo_mode m \<and> auto_mode m) \<and> (yolo_mode m \<longrightarrow> mc_yolo_pin conf = None) \<and>
    consecutive_denials m \<le> 3 \<and> total_denials m \<le> 20 \<and> length (recorded_decisions m) \<le> 12 \<and>
    edit_policy (mstate m) \<noteq> EditAllow"
  using reachable_inv [OF assms]
  by (auto simp: manager_inv_def AUTO_DENY_CONSECUTIVE_LIMIT_def AUTO_DENY_TOTAL_LIMIT_def MAX_RECORDED_PERMISSION_DECISIONS_def)

text \<open>C16: Under a managed pin the user decides on protected targets: in every reachable state, a request that a hook asks
  about, or whose target is protected, is allowed only by an answer of the user.\<close>

theorem pinned_protected_prompted:
  assumes "manager_reachable env conf m" and "mc_yolo_pin conf = Some pin"
    and "handle_request env conf rq ev m = ((e, Some DAllow), m')"
    and "hook_asks rq \<or> rf_protected (facts_of env conf (reloaded_manager rq ev m) rq (scan_failed ev)) \<noteq> None"
  shows "user_prompted e"
proof (rule ccontr)
  assume "\<not> user_prompted e"
  from handle_allow [OF assms(3) this] reachable_inv [OF assms(1)] assms(2,4) show False
    by (auto simp: let_through_def manager_inv_def facts_of_def Let_def)
qed

section \<open>The manager and the hub gate\<close>


section \<open>Asks that do not bind\<close>

text \<open>An ask rule on a web search is not binding: although the policy asks, the manager in ask mode allows the
  search without a prompt.\<close>

lemma web_search_ask_skipped:
  assumes "rq_access rq = WebSearch q" and "edit_targets rq = None" and "\<not> hook_asks rq" and "\<not> gone_at_dequeue ev"
    and "\<not> yolo_mode m" and "\<not> auto_mode m"
    and "policy_decision (request_preflight env conf m rq) = Some DAsk"
  shows "\<exists>e. handle_request env conf rq ev m = ((e, Some DAllow), m) \<and> \<not> user_prompted e \<and> decision_reason e = SAFE_COMMAND"
proof -
  let ?f = "facts_of env conf m rq (scan_failed ev)"
  have r: "reloaded_manager rq ev m = m" "\<not> invalid_targets rq" "\<not> scanned env m (rq_access rq)"
    using assms(1,2) by (simp_all add: reloaded_manager_def reloads_for_def invalid_targets_def scanned_def)
  have f: "rf_access ?f = WebSearch q" "rf_bash ?f = None" "\<not> rf_hook ?f" "\<not> rf_recovered ?f"
    "rf_preflight ?f = request_preflight env conf m rq"
    using assms by (simp_all add: facts_of_def request_evaluation_def Let_def)
  have "early_decision env conf m ?f = None"
    using assms(5,6,7) f by (simp add: early_decision_def session_grant_def auto_policy_allow_def
        pre_classifier_forced_prompt_def policy_forced_prompt_def Let_def)
  moreover have "auto_route conf m ?f (classified ev) = (AutoFallThrough, NotClassified, consecutive_denials m, total_denials m)"
    using assms(6) by (simp add: auto_route_def Let_def)
  moreover have "late_decision env conf m ?f (sandbox_active ev) None = Some (DAllow, True, SAFE_COMMAND)"
    using assms(7) f by (simp add: late_decision_def sandbox_decision_def is_bash_access_def policy_ruling_def
        remembered_decision_def neutralized_def is_allow_def or_else_def Let_def)
  ultimately show ?thesis using r assms(4)
    by (simp add: handle_request_def decide_def after_auto_def answered_with_def ruling_event_def Let_def)
qed
text \<open>A call that the classifier blocks can run unasked: when auto mode is on and the configured prompt policy is to
  allow, the block sends the call to a prompt that the prompt policy then answers by itself.\<close>

lemma blocked_call_approved:
  assumes "rq_access rq = MCPTool ''a__b''" and "edit_targets rq = None" and "\<not> hook_asks rq" and "\<not> gone_at_dequeue ev"
    and "fresh_state ev = None" and "classified ev = Some co" and "verdict co = VBlock"
    and "auto_mode m" and "\<not> yolo_mode m" and "classifier_installed m" and "mpolicy m = None" and "mstate m = default_state"
    and "mc_prompt_policy conf = PromptAllow" and "mc_yolo_pin conf = None" and "can_present_prompt conf"
  shows "\<exists>e m'. handle_request env conf rq ev m = ((e, Some DAllow), m') \<and> \<not> user_prompted e \<and>
    classified_verdict (ev_classification e) = Some VBlock"
proof -
  let ?f = "facts_of env conf m rq (scan_failed ev)"
  let ?cls = "Classified (classifier_assessment None False) (Some (VBlock, SClassifier (provenance co)))"
  have r: "reloaded_manager rq ev m = m" "\<not> invalid_targets rq" "\<not> scanned env m (rq_access rq)"
    using assms(1,2,5) by (simp_all add: reloaded_manager_def reload_def invalid_targets_def scanned_def)
  have pf: "request_preflight env conf m rq =
      \<lparr>direct = None, bash_command = None, shell_file = None, native_symlink_fail_closed = False, pf_defers_gate_ask = False\<rparr>"
    using assms(2,11) by (simp add: request_preflight_def preflight_evaluate_def Let_def)
  have f: "rf_access ?f = MCPTool ''a__b''" "rf_bash ?f = None" "\<not> rf_hook ?f" "\<not> rf_recovered ?f" "rf_protected ?f = None"
    "rf_preflight ?f = request_preflight env conf m rq"
    using assms(1,2,3) by (simp_all add: facts_of_def request_evaluation_def protected_edit_def requires_recovered_classification_def Let_def)
  have quiet: "policy_decision (rf_preflight ?f) = None" "\<not> policy_forced_prompt (rf_preflight ?f)" "\<not> shell_forced_prompt (rf_preflight ?f)"
    "admits_auto_classifier (rf_preflight ?f)" "\<not> defers_gate_ask (rf_preflight ?f)"
    by (simp_all add: f(6) pf policy_decision_def policy_forced_prompt_def shell_forced_prompt_def shell_file_forced_prompt_def
        some_ask_def admits_auto_classifier_def defers_gate_ask_def)
  have none: "mcp_pre_decision ''a__b'' (mstate m) False b = None" for b
    by (simp add: assms(12) mcp_pre_decision_def default_state_def mcp_server_prefix_allowed_def)
  have "early_decision env conf m ?f = None"
    using assms(9) quiet f none by (simp add: early_decision_def session_grant_def session_grant_pre_decision_def auto_policy_allow_def Let_def)
  moreover have "\<not> access_requires_user_interaction (''mcp:'' @ ''a__b'') (MCPTool ''a__b'')"
    "\<not> is_auto_mode_allowlisted_tool_name (''mcp:'' @ ''a__b'')" by code_simp+
  then have "auto_route conf m ?f (classified ev) = (AutoForced AUTO_CLASSIFIER_DENY, ?cls, consecutive_denials m, total_denials m)"
    using quiet f assms(6-8,10,15)
    by (simp add: auto_route_def tool_name_for_access_def auto_mode_fast_path_def is_auto_mode_allowlisted_access_def verdict_step_def Let_def)
  moreover have "late_decision env conf m ?f (sandbox_active ev) (Some AUTO_CLASSIFIER_DENY) = Some (DAllow, True, PROMPT_ALLOW)"
    using quiet f none assms(13,14) by (simp add: late_decision_def sandbox_decision_def is_bash_access_def policy_ruling_def
        remembered_decision_def neutralized_def prompt_policy_ruling_def is_allow_def or_else_def Let_def)
  ultimately show ?thesis using r assms(4)
    by (simp add: handle_request_def decide_def after_auto_def answered_with_def ruling_event_def Let_def)
qed

section \<open>Witnesses\<close>

definition plain_conf :: manager_conf where
  "plain_conf = \<lparr>mc_cwd = ''/w'', mc_yolo_pin = None, mc_prompt_policy = PromptAsk, remember_tool_approvals = True,
     has_read_denies = False, can_present_prompt = True, static_domains = (\<lambda>_. False), allowlist_is_default = True\<rparr>"

definition quiet_event :: manager_event where
  "quiet_event = \<lparr>gone_at_dequeue = False, fresh_state = None, scan_failed = False, gone_after_scan = False,
     classified = None, sandbox_active = False, gone_before_prompt = False, answered = AllowOnce, gone_at_end = False\<rparr>"

definition plain_request :: "access_kind \<Rightarrow> request" where
  "plain_request access = \<lparr>rq_access = access, edit_targets = None, path_context = None, hook_asks = False\<rparr>"

definition search_config :: "rule_action \<Rightarrow> permission_config" where
  "search_config a = config_new [\<lparr>action = a, tool = FWebSearch, pattern = None, pmode = Glob\<rparr>]"

abbreviation started :: "manager_conf \<Rightarrow> permission_config option \<Rightarrow> bool \<Rightarrow> manager" where
  "started conf cfg yolo \<equiv> spawn_manager (penv hub_example) conf cfg yolo default_state"

lemma started_reachable:
  "mc_prompt_policy conf = (case cfg of Some c \<Rightarrow> config_prompt_policy c | None \<Rightarrow> PromptAsk) \<Longrightarrow>
   manager_reachable hub_example conf (started conf cfg yolo)"
  by (rule manager_reachable.start)

lemma started_sel:
  "yolo_mode (started conf cfg yolo) = (yolo \<and> mc_yolo_pin conf = None)" "mpolicy (started conf cfg yolo) = map_option (policy_new (penv hub_example)) cfg"
  "mstate (started conf cfg yolo) = default_state" "registry (started conf cfg yolo) = registry_empty" "running (started conf cfg yolo)"
  "classifier_installed (started conf cfg yolo)"
  by (simp_all add: spawn_manager_def default_state_def clamp_yolo_def Let_def)

theorem manager_bounds_witness:
  "\<not> (yolo_mode (started plain_conf None True) \<and> auto_mode (started plain_conf None True)) \<and>
   consecutive_denials (started plain_conf None True) \<le> 3"
  using manager_bounds [OF started_reachable [of plain_conf None True]] by (simp add: plain_conf_def)

theorem managed_deny_final_witness:
  "\<exists>reason e. handle_request hub_example plain_conf (plain_request (WebSearch ''x'')) quiet_event (started plain_conf (Some (search_config Deny)) True) =
     ((e, Some (PolicyDeny reason)), started plain_conf (Some (search_config Deny)) True) \<and> \<not> user_prompted e"
proof -
  let ?rq = "plain_request (WebSearch ''x'')" and ?m = "started plain_conf (Some (search_config Deny)) True"
  have r: "reloaded_manager ?rq quiet_event ?m = ?m" "\<not> invalid_targets ?rq" "\<not> scanned hub_example ?m (rq_access ?rq)"
    by (simp_all add: reloaded_manager_def plain_request_def reloads_for_def invalid_targets_def scanned_def)
  have "case evaluate_with_cwd (penv hub_example) (policy_new (penv hub_example) (search_config Deny)) (WebSearch ''x'') (Some ''/w'') of
      Some (Reject r) \<Rightarrow> True | _ \<Rightarrow> False" by code_simp
  then obtain rr where "evaluate_with_cwd (penv hub_example) (policy_new (penv hub_example) (search_config Deny)) (WebSearch ''x'') (Some ''/w'') =
      Some (Reject rr)" by (auto split: option.splits decision.splits)
  then show ?thesis
    using managed_deny_final [of quiet_event ?rq hub_example ?m "policy_new (penv hub_example) (search_config Deny)" plain_conf] r
    by (simp add: started_sel quiet_event_def plain_request_def request_cwd_def plain_conf_def)
qed

lemma search_allowed:
  "\<exists>e. handle_request hub_example plain_conf (plain_request (WebSearch ''x'')) quiet_event (started plain_conf (Some (search_config Ask)) False) =
     ((e, Some DAllow), started plain_conf (Some (search_config Ask)) False) \<and> \<not> user_prompted e \<and> decision_reason e = SAFE_COMMAND"
proof (rule web_search_ask_skipped)
  show "policy_decision (request_preflight hub_example plain_conf (started plain_conf (Some (search_config Ask)) False)
      (plain_request (WebSearch ''x''))) = Some DAsk" by code_simp
  show "\<not> auto_mode (started plain_conf (Some (search_config Ask)) False)" by code_simp
qed (simp_all add: plain_request_def quiet_event_def started_sel)


theorem lease_needs_freedom_witness:
  "\<exists>(m :: manager) h s. with_active_process h (Inr ((), 7) :: unit + unit \<times> nat) (registry m) = (Inr (Inr ()), s) \<and>
     yolo_mode m \<and> \<not> has_explicit_denials (mstate m)"
proof -
  let ?init = "started plain_conf None True" and ?h = "\<lparr>inner = 0, lease_revision = 0\<rparr>"
  let ?m = "snd (acquire_lease plain_conf 0 quiet_event ?init)"
  have u: "unrestricted plain_conf ?init" "reload (fresh_state quiet_event) ?init = ?init"
    unfolding unrestricted_def started_sel reload_def
    by (simp_all add: plain_conf_def has_explicit_denials_def default_state_def quiet_event_def)
  then have r: "registry ?m = snd (issue 0 registry_empty)"
    by (simp add: acquire_lease_def started_sel Let_def split: prod.split option.split)
  have "manager_step hub_example plain_conf ?init ?m"
    by (rule manager_step.command [of _ _ _ "AcquireUnrestrictedLease 0" quiet_event "fst (acquire_lease plain_conf 0 quiet_event ?init)"])
      (simp_all add: started_sel)
  then have m: "manager_reachable hub_example plain_conf ?m"
    using started_reachable [of plain_conf None True] by (auto simp: plain_conf_def intro: manager_reachable.step)
  have "\<exists>s. with_active_process ?h (Inr ((), 7) :: unit + unit \<times> nat) (registry ?m) = (Inr (Inr ()), s)"
    unfolding r by (simp add: issue_def registry_empty_def with_active_process_def is_revoked_def Let_def)
  then obtain s where s: "with_active_process ?h (Inr ((), 7) :: unit + unit \<times> nat) (registry ?m) = (Inr (Inr ()), s)" ..
  from lease_needs_freedom [OF m s] s show ?thesis by blast
qed

definition pinned_conf :: manager_conf where
  "pinned_conf = plain_conf\<lparr>mc_yolo_pin := Some ''managed''\<rparr>"

theorem pinned_protected_prompted_witness:
  "\<exists>e m'. handle_request hub_example pinned_conf (plain_request (Edit ''.ssh/config'')) quiet_event (started pinned_conf None True) =
     ((e, Some DAllow), m') \<and> user_prompted e"
proof -
  let ?rq = "plain_request (Edit ''.ssh/config'')" and ?m = "started pinned_conf None True"
  let ?f = "facts_of hub_example pinned_conf ?m ?rq False"
  have r: "reloaded_manager ?rq quiet_event ?m = ?m" "\<not> invalid_targets ?rq" "\<not> scanned hub_example ?m (rq_access ?rq)"
    by (simp_all add: reloaded_manager_def plain_request_def reloads_for_def invalid_targets_def scanned_def)
  have "protected_edit hub_example pinned_conf ?rq None \<noteq> None" by code_simp
  then have f: "rf_protected ?f \<noteq> None" "rf_access ?f = Edit ''.ssh/config''" "\<not> rf_hook ?f" "rf_bash ?f = None"
    by (simp_all add: facts_of_def request_evaluation_def plain_request_def Let_def)
  have q: "policy_decision (rf_preflight ?f) = None"
    by (simp add: facts_of_def request_preflight_def plain_request_def preflight_evaluate_def policy_decision_def started_sel Let_def)
  have a: "\<not> auto_mode ?m" "\<not> yolo_mode ?m" "\<not> allow_edits_for_session ?m"
    by (simp_all add: spawn_manager_def pinned_conf_def clamp_yolo_def default_state_def Let_def)
  have "early_decision hub_example pinned_conf ?m ?f = None"
    using f q a by (simp add: early_decision_def session_grant_def auto_policy_allow_def Let_def)
  moreover have "auto_route pinned_conf ?m ?f (classified quiet_event) = (AutoFallThrough, NotClassified, consecutive_denials ?m, total_denials ?m)"
    using a by (simp add: auto_route_def Let_def)
  moreover have "edit_policy (mstate ?m) = EditAsk" unfolding started_sel by (simp add: default_state_def)
  then have "late_decision hub_example pinned_conf ?m ?f (sandbox_active quiet_event) None = None"
    using f q a by (simp add: late_decision_def sandbox_decision_def is_bash_access_def policy_ruling_def remembered_decision_def
        neutralized_def is_allow_def prompt_policy_ruling_def or_else_def Let_def pinned_conf_def plain_conf_def)
  ultimately have "\<exists>e m'. handle_request hub_example pinned_conf ?rq quiet_event ?m = ((e, Some DAllow), m')"
    using r f by (simp add: handle_request_def decide_def after_auto_def prompt_user_def apply_answer_def quiet_event_def Let_def)
  then obtain e m' where h: "handle_request hub_example pinned_conf ?rq quiet_event ?m = ((e, Some DAllow), m')" by blast
  have "manager_reachable hub_example pinned_conf ?m" by (rule started_reachable) (simp add: pinned_conf_def plain_conf_def)
  moreover have "scan_failed quiet_event = False" by (simp add: quiet_event_def)
  ultimately have "user_prompted e"
    using pinned_protected_prompted [OF _ _ h, of "''managed''"] r(1) f(1) by (simp add: pinned_conf_def)
  with h show ?thesis by blast
qed

end
