(* ===== verification/Prompt_Queue.thy ===== *)
theory Prompt_Queue
  imports File_Store
begin

text \<open>
  Input of the user between the turns of a session: the shared event queue and the framing of interjections,
  \<open>crates/common/xai-interjection-core\<close>, and the merging of queued prompts,
  \<open>crates/codegen/xai-prompt-queue/src/combine.rs\<close>. Every method of the queue holds its lock from start to
  end, so a method is one step on the list of events. The locale \<open>event_queue\<close> states what producers and
  readers rely on. The theory shows that every reader gets its events once and in order, that a long message
  is cut at a character, and which queued prompts are merged.
\<close>

section \<open>Event queue\<close>

definition eq_push :: "'e \<Rightarrow> 'e list \<Rightarrow> 'e list" where
  "eq_push e q = q @ [e]"

definition eq_push_capped :: "'e \<Rightarrow> nat \<Rightarrow> 'e list \<Rightarrow> 'e list" where
  "eq_push_capped e cap q =
     (let q' = q @ [e] in if cap < length q' then drop (length q' - cap) q' else q')"

definition eq_drain_matching :: "('e \<Rightarrow> bool) \<Rightarrow> 'e list \<Rightarrow> 'e list \<times> 'e list" where
  "eq_drain_matching want q = (filter want q, filter (\<lambda>e. \<not> want e) q)"

definition eq_drain_all :: "'e list \<Rightarrow> 'e list \<times> 'e list" where
  "eq_drain_all q = (q, [])"

definition eq_restore_front :: "'e list \<Rightarrow> 'e list \<Rightarrow> 'e list" where
  "eq_restore_front events q = (if events = [] then q else events @ q)"

definition eq_clear :: "'e list \<Rightarrow> 'e list" where
  "eq_clear q = []"

text \<open>What the users of a queue rely on: \<open>content\<close> is the events in the order in which they are delivered.\<close>

locale event_queue =
  fixes content :: "'q \<Rightarrow> 'e list"
    and push :: "'e \<Rightarrow> 'q \<Rightarrow> 'q"
    and drain :: "('e \<Rightarrow> bool) \<Rightarrow> 'q \<Rightarrow> 'e list \<times> 'q"
    and restore :: "'e list \<Rightarrow> 'q \<Rightarrow> 'q"
  assumes content_push: "content (push e q) = content q @ [e]"
    and drained: "drain p q = (out, q') \<Longrightarrow> out = filter p (content q) \<and> content q' = filter (\<lambda>e. \<not> p e) (content q)"
    and content_restore: "content (restore es q) = es @ content q"
begin

lemma drain_then_restore:
  assumes "drain (\<lambda>_. True) q = (out, q')"
  shows "content (restore out q') = content q"
  using drained [OF assms] by (simp add: content_restore)

lemma reader_order:
  assumes "drain p q = (out, q')" and "(\<forall>e. r e \<longrightarrow> p e) \<or> (\<forall>e. r e \<longrightarrow> \<not> p e)"
  shows "filter r out @ filter r (content q') = filter r (content q)"
proof -
  have "filter r (filter p xs) @ filter r (filter (\<lambda>e. \<not> p e) xs) = filter r xs" for xs
    using assms(2)
  proof
    assume "\<forall>e. r e \<longrightarrow> p e"
    then show ?thesis by (induction xs) auto
  next
    assume n: "\<forall>e. r e \<longrightarrow> \<not> p e"
    then have "filter r (filter p xs) = []" by (auto simp: filter_empty_conv)
    moreover have "filter r (filter (\<lambda>e. \<not> p e) xs) = filter r xs" using n by (induction xs) auto
    ultimately show ?thesis by simp
  qed
  then show ?thesis using drained [OF assms(1)] by simp
qed

end

interpretation vec_queue: event_queue "\<lambda>q. q" eq_push eq_drain_matching eq_restore_front
  by unfold_locales (auto simp: eq_push_def eq_drain_matching_def eq_restore_front_def)

text \<open>The steps of concurrent producers and readers, in the order in which they take the lock.\<close>

datatype 'e queue_step = Push 'e | Drain "'e \<Rightarrow> bool"

fun queue_run :: "'e queue_step list \<Rightarrow> 'e list \<Rightarrow> 'e list \<Rightarrow> 'e list \<times> 'e list" where
  "queue_run [] delivered q = (delivered, q)"
| "queue_run (Push e # steps) delivered q = queue_run steps delivered (eq_push e q)"
| "queue_run (Drain p # steps) delivered q =
     (case eq_drain_matching p q of (out, q') \<Rightarrow> queue_run steps (delivered @ out) q')"

fun pushed :: "'e queue_step list \<Rightarrow> 'e list" where
  "pushed [] = []"
| "pushed (Push e # steps) = e # pushed steps"
| "pushed (Drain p # steps) = pushed steps"

lemma queue_run_order:
  assumes "\<forall>p. Drain p \<in> set steps \<longrightarrow> (\<forall>e. r e \<longrightarrow> p e) \<or> (\<forall>e. r e \<longrightarrow> \<not> p e)"
    and "queue_run steps delivered q = (out, rest)"
  shows "filter r out @ filter r rest = filter r delivered @ filter r q @ filter r (pushed steps)"
  using assms
proof (induction steps delivered q rule: queue_run.induct)
  case (2 e steps delivered q)
  then have "filter r out @ filter r rest = filter r delivered @ filter r (eq_push e q) @ filter r (pushed steps)" by simp
  then show ?case by (simp add: vec_queue.content_push)
next
  case (3 p steps delivered q)
  obtain got q' where d: "eq_drain_matching p q = (got, q')" by (cases "eq_drain_matching p q")
  have o: "filter r got @ filter r q' = filter r q"
    by (rule vec_queue.reader_order [OF d]) (use "3.prems"(1) in simp)
  have "filter r out @ filter r rest = filter r (delivered @ got) @ filter r q' @ filter r (pushed steps)"
    using 3 d by simp
  then show ?case using o by simp
qed simp

text \<open>Every reader gets its events once and in order: however pushes and drains of several readers follow one
  another, as long as each drain takes all or none of a reader's events, what was delivered of them followed
  by what is still queued is exactly what was pushed.\<close>

theorem events_delivered_in_order:
  assumes "\<forall>p. Drain p \<in> set steps \<longrightarrow> (\<forall>e. r e \<longrightarrow> p e) \<or> (\<forall>e. r e \<longrightarrow> \<not> p e)"
    and "queue_run steps [] [] = (delivered, rest)"
  shows "filter r delivered @ filter r rest = filter r (pushed steps)"
  using queue_run_order [OF assms] by simp

theorem events_delivered_in_order_witness:
  "filter even [1, 3, 2 :: nat] @ filter even [4] = filter even (pushed [Push 1, Push 2, Push 3, Drain odd, Drain even, Push (4 :: nat)])"
proof -
  let ?steps = "[Push 1, Push 2, Push 3, Drain odd, Drain even, Push (4 :: nat)]"
  have "\<forall>p. Drain p \<in> set ?steps \<longrightarrow> (\<forall>e. even e \<longrightarrow> p e) \<or> (\<forall>e. even e \<longrightarrow> \<not> p e)" by auto
  moreover have "queue_run ?steps [] [] = ([1, 3, 2], [4])"
    by (simp add: eq_push_def eq_drain_matching_def)
  ultimately show ?thesis by (rule events_delivered_in_order)
qed

lemma capped_keeps_newest: "eq_push_capped e cap q = drop (length q + 1 - cap) (eq_push e q)"
  by (simp add: eq_push_capped_def eq_push_def Let_def)

section \<open>Framing of interjections\<close>

definition LARGE_PROMPT_THRESHOLD :: nat where "LARGE_PROMPT_THRESHOLD = 25000"

definition INTERJECTION_NOTE :: string where
  "INTERJECTION_NOTE = ''The user sent a message while you were working:''"

definition INTERRUPT_NOTE :: string where
  "INTERRUPT_NOTE = ''The user interrupted the previous turn:''"

definition UNFINISHED_TASKS_REMINDER :: string where
  "UNFINISHED_TASKS_REMINDER = ''If the user is asking for a response, address the user first. After replying, complete any unfinished tasks from previous turns.''"

definition user_query :: "string \<Rightarrow> string" where
  "user_query m = ''<user_query>'' @ [nl] @ m @ [nl] @ ''</user_query>''"

definition frame_user_turn :: "string \<Rightarrow> string \<Rightarrow> string" where
  "frame_user_turn note assembled = note @ [nl] @ assembled @ [nl] @ UNFINISHED_TASKS_REMINDER"

text \<open>The end of the last character that starts below the limit.\<close>

function end_of_chars :: "nat \<Rightarrow> nat \<Rightarrow> string \<Rightarrow> nat" where
  "end_of_chars limit i [] = i"
| "end_of_chars limit i (b # s) =
     (if i < limit then end_of_chars limit (i + snd (utf8_step b s)) (drop (snd (utf8_step b s)) (b # s)) else i)"
  by pat_completeness auto
termination
proof (relation "measure (\<lambda>(_, _, s). length s)")
  fix limit i b s
  have "0 < snd (utf8_step b s)" using utf8_step_pos by (metis prod.collapse)
  then show "((limit, i + snd (utf8_step b s), drop (snd (utf8_step b s)) (b # s)), limit, i, b # s)
      \<in> measure (\<lambda>(_, _, s). length s)" by simp
qed simp

definition truncate_text :: "nat \<Rightarrow> string \<Rightarrow> string" where
  "truncate_text limit text =
     (if length text \<le> limit then text else take (end_of_chars limit 0 text) text @ ''... [truncated]'')"

definition format_steered_query :: "string \<Rightarrow> string \<Rightarrow> string" where
  "format_steered_query note text = frame_user_turn note (user_query (truncate_text LARGE_PROMPT_THRESHOLD text))"

definition format_interjection :: "string \<Rightarrow> string" where
  "format_interjection text = format_steered_query INTERJECTION_NOTE text"

definition format_interrupt :: "string \<Rightarrow> string" where
  "format_interrupt text = format_steered_query INTERRUPT_NOTE text"

record 'a pending_interjection =
  pi_text :: string
  pi_attachments :: "'a list"

record 'a formatted_interjection =
  fi_text :: string
  fi_attachments :: "'a list"

definition drain_formatted ::
  "(string \<Rightarrow> string) \<Rightarrow> 'a pending_interjection list \<Rightarrow> 'a formatted_interjection list \<times> 'a pending_interjection list" where
  "drain_formatted sanitize q =
     (case eq_drain_all q of
        (out, q') \<Rightarrow> (map (\<lambda>e. \<lparr>fi_text = format_interjection (sanitize (pi_text e)), fi_attachments = pi_attachments e\<rparr>) out, q'))"

lemma conts_0 [simp]: "conts 0 s = 0"
  by (cases s) simp_all

lemma conts_take: "conts k s = k \<Longrightarrow> conts k (take k s @ t) = k"
proof (induction s arbitrary: k)
  case (Cons c s)
  then show ?case by (cases k) (auto split: if_splits)
qed simp

lemma conts_length: "conts k s = k \<Longrightarrow> k \<le> length s"
proof (induction s arbitrary: k)
  case (Cons c s)
  then show ?case by (cases k) (auto split: if_splits)
qed simp

lemma utf8_step_good:
  assumes "utf8_step b s = (True, n)"
  shows "n \<le> 4 \<and> n \<le> length (b # s) \<and> utf8_step b (take (n - 1) s @ t) = (True, n)"
proof (cases "byte b < 0x80")
  case True
  with assms show ?thesis by (auto simp: utf8_step_def)
next
  case False
  then obtain need where n: "need \<in> {1, 2, 3}" "need = (if 0xC2 \<le> byte b \<and> byte b \<le> 0xDF then 1
      else if 0xE0 \<le> byte b \<and> byte b \<le> 0xEF then 2 else if 0xF0 \<le> byte b \<and> byte b \<le> 0xF4 then 3 else (0 :: nat))"
    using assms by (auto simp: utf8_step_def Let_def split: if_splits)
  have u: "utf8_step b r = (case r of [] \<Rightarrow> (False, 1)
      | b2 # s' \<Rightarrow> (if second_ok b b2 then (let k = 1 + conts (need - 1) s' in (k = need, 1 + k)) else (False, 1)))" for r
    using False n unfolding utf8_step_def Let_def n(2) [symmetric] by auto
  obtain b2 s' where s: "s = b2 # s'" "second_ok b b2" "conts (need - 1) s' = need - 1" "n = 1 + need"
    using assms n(1) unfolding u by (cases s) (auto simp: Let_def split: if_splits)
  have "take (n - 1) s @ t = b2 # take (need - 1) s' @ t" using s n(1) by (cases need) auto
  then have "utf8_step b (take (n - 1) s @ t) = (True, n)"
    using s n(1) conts_take [OF s(3)] unfolding u by (auto simp: Let_def)
  with s n(1) conts_length [OF s(3)] show ?thesis by auto
qed

lemma utf8_valid_append:
  assumes "utf8_step b s = (True, n)" and "utf8_valid t"
  shows "utf8_valid (take n (b # s) @ t)"
proof -
  have p: "0 < n" by (rule utf8_step_pos [OF assms(1)])
  then obtain m where m: "n = Suc m" by (cases n) auto
  then have "take n (b # s) @ t = b # take (n - 1) s @ t" by simp
  moreover have "drop n (b # take (n - 1) s @ t) = t"
    using utf8_step_good [OF assms(1), of t] m by simp
  ultimately show ?thesis using utf8_step_good [OF assms(1), of t] assms(2) by simp
qed

lemma end_of_chars_cut:
  assumes "utf8_valid s" and "limit \<le> i + length s"
  shows "\<exists>e. end_of_chars limit i s = i + e \<and> e \<le> length s \<and> utf8_valid (take e s) \<and> utf8_valid (drop e s) \<and>
    limit \<le> i + e \<and> (i < limit \<longrightarrow> i + e < limit + 4)"
  using assms
proof (induction limit i s rule: end_of_chars.induct)
  case (2 limit i b s)
  obtain n where n: "utf8_step b s = (True, n)" "utf8_valid (drop n (b # s))"
    using "2.prems"(1) by (auto split: prod.splits)
  show ?case
  proof (cases "i < limit")
    case True
    have g: "n \<le> 4" "n \<le> length (b # s)" using utf8_step_good [OF n(1)] by blast+
    have l: "limit \<le> i + n + length (drop n (b # s))" using "2.prems"(2) g(2) by simp
    from "2.IH" [OF True] n l obtain e where e: "end_of_chars limit (i + n) (drop n (b # s)) = i + n + e"
      "e \<le> length (drop n (b # s))" "utf8_valid (take e (drop n (b # s)))" "utf8_valid (drop e (drop n (b # s)))"
      "limit \<le> i + n + e" "i + n < limit \<longrightarrow> i + n + e < limit + 4" by auto
    have "end_of_chars limit i (b # s) = i + (n + e)" using True n(1) e(1) by simp
    moreover have "utf8_valid (take (n + e) (b # s))"
      using utf8_valid_append [OF n(1) e(3)] by (simp only: take_add)
    moreover have "utf8_valid (drop (n + e) (b # s))" using e(4) by (simp only: drop_drop add.commute)
    moreover have "i + (n + e) < limit + 4"
    proof (cases "i + n < limit")
      case False
      then have "end_of_chars limit (i + n) (drop n (b # s)) = i + n"
        by (cases "drop n (b # s)") simp_all
      with e(1) True g(1) show ?thesis by simp
    qed (use e(6) in simp)
    ultimately show ?thesis using e g by (intro exI [of _ "n + e"]) auto
  next
    case False
    with "2.prems" show ?thesis by (intro exI [of _ 0]) simp
  qed
qed simp

text \<open>C40: A message sent while a turn runs reaches the model framed and whole, or cut at a character: the message
  is kept as it is up to the limit, and a longer one is cut after the last character that starts below the
  limit, so that both parts are valid text and at most three bytes are kept beyond it.\<close>

theorem interjection_cut_at_character:
  assumes "utf8_valid msg"
  shows "\<exists>kept dropped. msg = kept @ dropped \<and> utf8_valid kept \<and> utf8_valid dropped \<and>
    length kept < LARGE_PROMPT_THRESHOLD + 4 \<and> (dropped = [] \<or> LARGE_PROMPT_THRESHOLD \<le> length kept) \<and>
    format_interjection msg =
      frame_user_turn INTERJECTION_NOTE
        (user_query (kept @ (if LARGE_PROMPT_THRESHOLD < length msg then ''... [truncated]'' else [])))"
proof (cases "length msg \<le> LARGE_PROMPT_THRESHOLD")
  case True
  with assms show ?thesis
    by (intro exI [of _ msg] exI [of _ "[]"]) (simp add: format_interjection_def format_steered_query_def truncate_text_def)
next
  case False
  then have l: "LARGE_PROMPT_THRESHOLD \<le> 0 + length msg" by simp
  from end_of_chars_cut [OF assms l] obtain e where e: "end_of_chars LARGE_PROMPT_THRESHOLD 0 msg = e" "e \<le> length msg"
    "utf8_valid (take e msg)" "utf8_valid (drop e msg)" "LARGE_PROMPT_THRESHOLD \<le> e" "e < LARGE_PROMPT_THRESHOLD + 4"
    by (auto simp: LARGE_PROMPT_THRESHOLD_def)
  show ?thesis using False e
    by (intro exI [of _ "take e msg"] exI [of _ "drop e msg"])
      (simp add: format_interjection_def format_steered_query_def truncate_text_def)
qed

theorem interjection_cut_at_character_witness:
  "\<exists>kept dropped. ''hi'' = kept @ dropped \<and> utf8_valid kept \<and> utf8_valid dropped \<and>
    length kept < LARGE_PROMPT_THRESHOLD + 4 \<and> (dropped = [] \<or> LARGE_PROMPT_THRESHOLD \<le> length kept) \<and>
    format_interjection ''hi'' =
      frame_user_turn INTERJECTION_NOTE
        (user_query (kept @ (if LARGE_PROMPT_THRESHOLD < length ''hi'' then ''... [truncated]'' else [])))"
proof -
  have "utf8_valid ''hi''" by code_simp
  then show ?thesis by (rule interjection_cut_at_character)
qed

section \<open>Merging queued prompts\<close>

definition TEXT_SEPARATOR :: string where "TEXT_SEPARATOR = [nl, nl]"

record combine_gate =
  gate_id :: string
  is_plain_prompt :: bool
  is_synthetic :: bool
  is_expanded_skill :: bool
  is_bash :: bool
  has_images :: bool
  gate_text :: string

definition can_merge_front :: "combine_gate \<Rightarrow> bool" where
  "can_merge_front g \<longleftrightarrow>
     is_plain_prompt g \<and> \<not> is_synthetic g \<and> \<not> is_expanded_skill g \<and> \<not> is_bash g \<and> gate_text g \<noteq> []"

definition can_merge_follower :: "combine_gate \<Rightarrow> string list \<Rightarrow> bool" where
  "can_merge_follower g skip_ids \<longleftrightarrow> can_merge_front g \<and> \<not> has_images g \<and> gate_id g \<notin> set skip_ids"

fun followers_loop :: "string list \<Rightarrow> combine_gate list \<Rightarrow> nat \<Rightarrow> nat" where
  "followers_loop skip_ids [] n = n"
| "followers_loop skip_ids (g # rest) n =
     (if can_merge_follower g skip_ids then followers_loop skip_ids rest (n + 1) else n)"

definition combine_prefix_len :: "combine_gate list \<Rightarrow> string list \<Rightarrow> nat" where
  "combine_prefix_len items skip_ids =
     (case items of
        [] \<Rightarrow> 0
      | front # rest \<Rightarrow> (if can_merge_front front then followers_loop skip_ids rest 1 else 1))"

definition join_texts :: "string list \<Rightarrow> string" where
  "join_texts texts = join TEXT_SEPARATOR (filter (\<lambda>t. t \<noteq> []) texts)"

definition is_combined :: "string list \<Rightarrow> bool" where
  "is_combined segs \<longleftrightarrow> 2 \<le> length segs"

lemma followers_loop_takeWhile:
  "followers_loop skip_ids items n = n + length (takeWhile (\<lambda>g. can_merge_follower g skip_ids) items)"
  by (induction skip_ids items n rule: followers_loop.induct) simp_all

text \<open>The merged prefix is the longest one that may be merged, and no text of it is lost.\<close>

lemma combine_longest:
  assumes "items \<noteq> []"
  shows "n \<le> combine_prefix_len items skip_ids \<longleftrightarrow>
    n \<le> length items \<and> (1 < n \<longrightarrow> can_merge_front (hd items) \<and> (\<forall>g\<in>set (take (n - 1) (tl items)). can_merge_follower g skip_ids))"
proof -
  obtain front rest where i: "items = front # rest" using assms by (cases items) auto
  have t: "m \<le> length (takeWhile P xs) \<longleftrightarrow> m \<le> length xs \<and> (\<forall>g\<in>set (take m xs). P g)" for m P and xs :: "combine_gate list"
  proof (induction xs arbitrary: m)
    case (Cons x xs)
    then show ?case by (cases m) auto
  qed simp
  show ?thesis
    using t [of "n - 1" "\<lambda>g. can_merge_follower g skip_ids" rest]
    by (cases n) (auto simp: i combine_prefix_len_def followers_loop_takeWhile)
qed

lemma merged_text_kept:
  assumes "combine_prefix_len items skip_ids = n" and "1 < n"
  shows "join_texts (map gate_text (take n items)) = join TEXT_SEPARATOR (map gate_text (take n items))"
proof -
  have ne: "items \<noteq> []" using assms by (auto simp: combine_prefix_len_def)
  have "n \<le> combine_prefix_len items skip_ids" using assms(1) by simp
  then have "can_merge_front (hd items)" "\<forall>g\<in>set (take (n - 1) (tl items)). can_merge_follower g skip_ids"
    unfolding combine_longest [OF ne] using assms(2) by auto
  then have "\<forall>g\<in>set (take n items). gate_text g \<noteq> []"
    using ne assms(2) by (cases items; cases n) (auto simp: can_merge_follower_def can_merge_front_def)
  then show ?thesis unfolding join_texts_def by (subst filter_True) auto
qed

end
