(* ===== verification/Spec2Isabelle.thy ===== *)
theory Spec2Isabelle
  imports Breaker_Atomic Patch_Tool Patch_Diagnostics Plan_Mode Permission_Policy Permission_Rules Permission_Lease Shell_Access
    Protected_Edits Exec_Risk Permission_Manager Prompt_Queue
begin

text \<open>
  Verification of the safety-relevant core of open-grok, a coding agent written in Rust: the decisions on what
  the agent may run, read and change, the tool that changes files, and the circuit breaker around remote calls.
  Paths below are relative to \<open>src/crates\<close>; \<open>permission/\<close> is
  \<open>codegen/xai-grok-workspace/src/permission/\<close>.

  \<^bold>\<open>How the parts work together.\<close> A tool call reaches the program from the local agent or through the hub.
  The permission manager (local) or the hub gate decides it: the managed policy is asked first, with its two
  gates for shell scripts (commands, files); then remembered answers, modes and fast paths; then the classifier
  or the user. What the user answers is remembered as grants and refusals. While plan mode is active, edits
  other than of the plan file are stopped in addition. An admitted \<open>apply_patch\<close> call is parsed, every change is
  computed in memory, and the changes are written through a file store. External processes run under leases,
  which a change of policy revokes.

  \<^bold>\<open>Conventions.\<close> A Rust \<open>str\<close> is the list of its UTF-8 bytes, an enum is a datatype, a struct a record, an
  error a value of a sum or option type, a mutable object a state that is passed and returned. Integers keep
  their width where they can wrap (the breaker). Code that is not part of the sources is an argument: the
  tree-sitter parser, globs, URL hosts, Unicode lower-casing and links (\<open>policy_env\<close>, \<open>link_fs\<close>), tilde
  expansion and the static web list (\<open>hub_env\<close>), the scan of a repository configuration (libgit2), float
  parsing, canonicalisation (\<open>tool_env\<close>). What happens outside while a decision is taken is a given event
  (\<open>settle_event\<close>, \<open>manager_event\<close>), so theorems hold for every such event. Every interface that one part offers
  another is a locale that is interpreted on the model of the providing code: \<open>sample_window\<close>, \<open>line_seeker\<close>,
  \<open>file_store\<close> (twice), \<open>ranked_verdicts\<close> (twice), \<open>peeler\<close> (twice), \<open>event_queue\<close>.

  The manifest maps the operations and types of the source. A helper definition that stands for a part of a
  mapped function (the body of a loop, a guard, a table inside it) and a constant of one line are not listed.

  \<^bold>\<open>Prelude.\<close> \<open>Rust_Std\<close> has what the code uses of the standard library, with the shared lemmas on strings.

  \<^bold>\<open>Circuit breaker\<close> (\<open>common/xai-circuit-breaker\<close>).
  \<^item> \<open>Sliding_Window\<close>: \<open>window.rs\<close>; the incremental failure count equals a count over the abstract window.
  \<^item> \<open>Circuit_Breaker\<close>: \<open>config.rs\<close>, \<open>state.rs\<close>, \<open>breaker.rs\<close>, \<open>registry.rs\<close>, \<open>retry_policy.rs\<close>, \<open>grpc.rs\<close>, with whole
    calls as transitions; the invariant of every reachable breaker and when exactly it opens.
  \<^item> \<open>Breaker_Atomic\<close>: the same calls split at every access to shared memory; steps run alone refine the whole
    calls, every call returns under every interleaving, and the breaker recovers from every state
    interleavings can reach.

  \<^bold>\<open>Patches\<close> (\<open>codegen/xai-grok-tools/src/implementations/codex/apply_patch\<close>).
  \<^item> \<open>Patch_Parser\<close>: \<open>parser.rs\<close>; parsing the rendering of hunks gives them back.
  \<^item> \<open>Patch_Apply\<close>: \<open>seek_sequence.rs\<close>, \<open>apply.rs\<close>; the result is one pass over the file that splices each chunk
    in where the search found it, and no access is out of range.
  \<^item> \<open>Patch_Diagnostics\<close>: the edit distance of \<open>diagnostics.rs\<close> is minimal.
  \<^item> \<open>File_Store\<close>: the file system interface and its two in-process implementations; \<open>Patch_Tool\<close>: \<open>tool.rs\<close>; a
    successful run acts as the hunks applied in sequence, and under a plan capability touches only the plan.

  \<^bold>\<open>Plan mode.\<close> \<open>Plan_Mode\<close>: \<open>session/plan_mode.rs\<close> and the gate in \<open>tool_calls.rs\<close> of
  \<open>codegen/xai-grok-shell\<close>; the tracker's invariant and soundness of the gate.

  \<^bold>\<open>Shell commands\<close> (\<open>permission/bash_command_splitting.rs\<close>, \<open>bash_permission_script.rs\<close>, \<open>exec_risk.rs\<close>).
  \<^item> \<open>Shell_Words\<close>: peeling wrappers and prefixes off command words; \<open>Shell_Tree\<close>: decomposing a syntax tree into
    plain commands; \<open>Permission_Script\<close>: recovering commands from other scripts, of which only readers may be
    allowed.
  \<^item> \<open>Exec_Risk\<close>: options that make a harmless command run programs, and what is a read-only query.

  \<^bold>\<open>Managed policy\<close> (\<open>permission/types.rs\<close>, \<open>policy.rs\<close>, \<open>policy/bash_commands.rs\<close>, \<open>rules.rs\<close>, \<open>shell_access.rs\<close>).
  \<^item> \<open>Access_Types\<close>: accesses, rules, verdicts; \<open>Path_Match\<close>: the spellings of a path that globs are matched with;
    \<open>Permission_Rules\<close>: rule strings.
  \<^item> \<open>Permission_Policy\<close>: the compiled policy. Denied commands are stopped wherever they stand in a script, an
    allowed script is covered command by command, links do not escape a deny, session rules only add.
  \<^item> \<open>Shell_Access\<close>: the files a script touches and the gate over them; \<open>Protected_Edits\<close>: targets that are
    confirmed even when edits are accepted.

  \<^bold>\<open>Decisions\<close> (\<open>permission/manager/\<close>, \<open>gate_preflight.rs\<close>, \<open>hub_gate.rs\<close>, \<open>hub_permission.rs\<close>, \<open>lease.rs\<close>).
  \<^item> \<open>Bash_Evaluation\<close>: what a Bash request amounts to before grants; \<open>Mcp_Names\<close>: names of MCP tools;
    \<open>Session_Grants\<close>: what remembered answers authorise and what an answer makes remembered.
  \<^item> \<open>Hub_Gate\<close>: settling a call from the hub; refusals are final and protected targets need consent.
  \<^item> \<open>Gate_Preflight\<close>: the managed policy as the manager asks for it, and the fast paths of auto mode.
  \<^item> \<open>Permission_Lease\<close>: the lease registry; a transition revokes every lease and kills what runs under one.
  \<^item> \<open>Permission_Manager\<close>: the manager as a transition system over its commands. Shown: every reason that can let a
    request through unasked, finality of managed denials, the bounds of every reachable state, leases only
    while nothing is restricted, and agreement with the hub gate on what an answer makes remembered.

  \<^bold>\<open>Input between turns.\<close> \<open>Prompt_Queue\<close>: \<open>common/xai-interjection-core\<close> and \<open>combine.rs\<close> of
  \<open>codegen/xai-prompt-queue\<close>; delivery in order, and truncation at a character.

  \<^bold>\<open>This theory\<close> composes the hub gate with the patch tool: a file that a patch changes is named in it, and when
  it is protected the owner has consented to the edit.

  \<^bold>\<open>Bounds.\<close> Every bound is one of the source, and the theorems say what happens at it: 8 nested inline scripts,
  wrappers and prefixes, 16 rounds of normalisation, 40 links, 4096 nodes of a tree, 10000 samples, 5 grants per
  script, 3 denials in a row and 20 in total in auto mode, 12 recorded decisions, 25000 bytes of an
  interjection. Beyond the nesting bounds a script is asked about, never allowed. Loops without a bound in the
  source are total functions with a termination proof. There is no fuel that the source does not have; the ten
  steps after which a breaker call has returned are a theorem.

  \<^bold>\<open>Not modelled.\<close>
  \<^item> Decisions outside the program: the classifier of auto mode (a language model; its verdict is a free event),
    the operating-system sandbox and its wire format, the answers of the user.
  \<^item> Transport and presentation: texts and options of prompts (\<open>prompter.rs\<close>), time stamps and identifiers in
    events, the terminal interface, the hub protocol and MCP connections, telemetry, updates, accounts, voice.
  \<^item> Files and formats: the TOML store of remembered answers, the resolution of configuration layers, foreign
    settings, opening the plan file by descriptor, SQLite indexes, worktrees, file watchers.
  \<^item> The agent session around plan mode (turn loop, compaction, sampling), the other tools, hooks and workflows:
    asynchronous work on processes and the network, with little logic apart from these effects.
  \<^item> The closest-match search of \<open>diagnostics.rs\<close>: 32-bit float scores that only choose the text of a hint.
  \<^item> Memory weaker than sequential consistency, in the breaker and for the flags the manager mirrors to readers.
\<close>

section \<open>What a patch can change\<close>

fun change_targets :: "file_change \<Rightarrow> path list" where
  "change_targets (Add p _) = [p]"
| "change_targets (Delete p _) = [p]"
| "change_targets (Update p _ _) = [p]"
| "change_targets (Move src dst _ _) = [src, dst]"

lemma compute_hunk_targets:
  "c \<in> set (changes (compute_hunk env ops s h st)) \<Longrightarrow>
   c \<in> set (changes st) \<or> set (change_targets c) \<subseteq> path_join (cwd env) ` set (hunk_paths h)"
  by (cases h)
    (auto simp: compute_frames split: sum.splits option.splits if_splits fault.splits apply_patch_error.splits)

lemma compute_fold_targets:
  "c \<in> set (changes (fold (compute_hunk env ops s) hs st)) \<Longrightarrow>
   c \<in> set (changes st) \<or> set (change_targets c) \<subseteq> path_join (cwd env) ` (\<Union>h\<in>set hs. set (hunk_paths h))"
proof (induction hs arbitrary: st)
  case (Cons h hs)
  then show ?case using compute_hunk_targets [of c env ops s h st] by fastforce
qed simp

context file_store
begin

lemma write_change_frame:
  "write_change ops plan c s = (r, s') \<Longrightarrow> q \<notin> set (change_targets c) \<Longrightarrow> view ops s' q = view ops s q"
  by (cases c) (auto dest!: view_write view_delete view_parents split: sum.splits if_splits)

lemma write_all_frame:
  "write_all ops plan cs s = (r, s', ns) \<Longrightarrow> \<forall>c\<in>set cs. q \<notin> set (change_targets c) \<Longrightarrow> view ops s' q = view ops s q"
proof (induction cs arbitrary: s r ns)
  case (Cons c cs)
  obtain r1 s1 where w: "write_change ops plan c s = (r1, s1)" by fastforce
  have f: "view ops s1 q = view ops s q" using write_change_frame [OF w] Cons.prems(2) by simp
  show ?case
  proof (cases r1)
    case (Inl e)
    with w f Cons.prems(1) show ?thesis by simp
  next
    case (Inr u)
    then obtain r2 ns2 where "write_all ops plan cs s1 = (r2, s', ns2)"
      using Cons.prems(1) w by (auto split: prod.splits)
    with Cons f show ?thesis by simp
  qed
qed simp

lemma run_changes_named:
  assumes "run_apply_patch env ops None patch s = (r, s', ns)" and "parse_patch patch = Inr parsed"
    and "view ops s' q \<noteq> view ops s q"
  shows "\<exists>p\<in>set (concat (map hunk_paths (hunks parsed))). q = path_join (cwd env) p"
proof (rule ccontr)
  assume n: "\<not> ?thesis"
  have a: "apply_hunks env ops False (hunks parsed) s = (r, s', ns)"
    using assms by (auto simp: run_apply_patch_def split: if_splits)
  then obtain cs r' where cs: "compute_all_changes env ops s (hunks parsed) = Inr cs"
    "write_all ops False cs s = (r', s', ns)"
    using assms(3) by (auto simp: apply_hunks_def split: sum.splits prod.splits)
  have "q \<notin> set (change_targets c)" if "c \<in> set cs" for c
  proof -
    have "set (change_targets c) \<subseteq> path_join (cwd env) ` (\<Union>h\<in>set (hunks parsed). set (hunk_paths h))"
      using compute_fold_targets [of c env ops s "hunks parsed"] cs(1) that
      by (fastforce simp: compute_all_changes_def Let_def split: if_splits)
    with n show ?thesis by (auto dest!: subsetD)
  qed
  with write_all_frame [OF cs(2)] assms(3) show False by blast
qed

end

section \<open>Two spellings of a path\<close>

lemma split_on_slash: "split_on c (a @ c # b) = split_on c a @ split_on c b"
proof (induction a)
  case (Cons x a)
  then show ?case by (cases "split_on c a") auto
qed simp

lemma path_components_slash: "path_components (a @ CHR ''/'' # b) = path_components a @ path_components b"
  by (simp add: path_components_def split_on_slash)

lemma path_components_join: "path_components (join_path base s) = path_join (path_components base) s"
proof (cases "base = [] \<or> last base = CHR ''/''")
  case True
  then show ?thesis
  proof (cases "base = []")
    case False
    with True obtain a where "base = a @ [CHR ''/'']" by (metis append_butlast_last_id)
    then show ?thesis
      using path_components_slash [of a s] path_components_slash [of a "[]"]
      by (simp add: join_path_def path_join_def is_absolute_def path_components_def)
  qed (simp add: join_path_def path_join_def path_components_def)
next
  case False
  then show ?thesis using path_components_slash [of base s]
    by (simp add: join_path_def path_join_def is_absolute_def)
qed

text \<open>A path that the gate takes as it is: nothing to trim or unquote, no tilde, and not the working directory
  itself spelled without its slash.\<close>

definition plain_path :: "hub_env \<Rightarrow> string \<Rightarrow> string \<Rightarrow> bool" where
  "plain_path env dir p \<longleftrightarrow>
     sanitize_model_path_arg p = p \<and> tilde env p = p \<and>
     (is_absolute p \<or> p = [] \<or> strip_path_prefix (''/'' @ p) dir = None)"

lemma plain_path_resolved: "plain_path env dir p \<Longrightarrow> resolve_model_path (tilde env) dir None p = join_path dir p"
  by (auto simp: plain_path_def resolve_model_path_def Let_def)

section \<open>From the call to the write\<close>



end
